(* ===== verification/Prelude.thy ===== *)
theory Prelude
  imports Main "HOL-Library.AList" "HOL-Library.Multiset" "HOL-Library.Word"
begin

text \<open>
  Shared vocabulary of the development: the JavaScript insertion-ordered
  \<open>Map\<close> and \<open>Set\<close>, the interface of an ordered store with eviction of its
  oldest entry, the interface of an event machine with an invariant, and the
  generic list facts the components use.
\<close>

named_theorems map_rules \<open>lookup and key-order equations of the JavaScript Map\<close>
named_theorems inv_rules \<open>invariant preservation, one rule per operation\<close>

type_synonym uuid = string
type_synonym time = int
type_synonym byte = "8 word"

section \<open>JavaScript Map: an association list in insertion order\<close>

type_synonym ('k, 'v) jmap = "('k \<times> 'v) list"

definition map_set :: "'k \<Rightarrow> 'v \<Rightarrow> ('k, 'v) jmap \<Rightarrow> ('k, 'v) jmap" where
  "map_set k v m = AList.update k v m"

definition map_delete :: "'k \<Rightarrow> ('k, 'v) jmap \<Rightarrow> ('k, 'v) jmap" where
  "map_delete k m = AList.delete k m"

definition map_get :: "('k, 'v) jmap \<Rightarrow> 'k \<Rightarrow> 'v option" where
  "map_get m k = map_of m k"

definition map_keys :: "('k, 'v) jmap \<Rightarrow> 'k list" where
  "map_keys m = map fst m"

definition map_has :: "('k, 'v) jmap \<Rightarrow> 'k \<Rightarrow> bool" where
  "map_has m k = (k \<in> set (map_keys m))"

text \<open>A JavaScript Map never holds a key twice.\<close>

definition map_ok :: "('k, 'v) jmap \<Rightarrow> bool" where
  "map_ok m = distinct (map_keys m)"

lemmas map_defs = map_set_def map_delete_def map_get_def map_keys_def map_has_def map_ok_def

lemma map_get_set [map_rules, simp]:
  "map_get (map_set k v m) k' = (if k' = k then Some v else map_get m k')"
  by (simp add: map_defs update_conv')

lemma map_get_delete [map_rules, simp]:
  "map_get (map_delete k m) k' = (if k' = k then None else map_get m k')"
  by (simp add: map_defs delete_conv')

lemma map_keys_set [map_rules]:
  "map_keys (map_set k v m) = (if k \<in> set (map_keys m) then map_keys m else map_keys m @ [k])"
  by (simp add: map_defs update_keys)

lemma map_keys_delete [map_rules]: "map_keys (map_delete k m) = removeAll k (map_keys m)"
  by (simp add: map_defs delete_keys)

lemma map_ok_set [simp, inv_rules]: "map_ok m \<Longrightarrow> map_ok (map_set k v m)"
  by (simp add: map_defs distinct_update)

lemma map_ok_delete [simp, inv_rules]: "map_ok m \<Longrightarrow> map_ok (map_delete k m)"
  by (simp add: map_defs distinct_delete)

lemma map_ok_Nil [simp, inv_rules]: "map_ok []"
  by (simp add: map_defs)

lemma map_has_get [map_rules]: "map_has m k \<longleftrightarrow> map_get m k \<noteq> None"
  by (auto simp: map_defs map_of_eq_None_iff image_iff)

lemma map_get_Nil [simp]: "map_get [] k = None"
  by (simp add: map_defs)

lemma length_map_keys [simp]: "length (map_keys m) = length m"
  by (simp add: map_defs)

lemma length_map_set:
  "length (map_set k v m) = (if map_has m k then length m else Suc (length m))"
  using arg_cong [OF map_keys_set, of length k v m] by (simp add: map_has_def)

lemma length_map_delete_le: "length (map_delete k m) \<le> length m"
  by (simp add: map_delete_def length_delete_le)

lemma map_get_in_set: "map_get m k = Some v \<Longrightarrow> (k, v) \<in> set m"
  by (simp add: map_get_def map_of_SomeD)

lemma map_get_iff: "map_ok m \<Longrightarrow> map_get m k = Some v \<longleftrightarrow> (k, v) \<in> set m"
  by (simp add: map_defs)

lemma map_set_new: "\<not> map_has m k \<Longrightarrow> map_set k v m = m @ [(k, v)]"
  by (induction m) (auto simp: map_defs)

text \<open>The sum of a quantity over the values of a Map.\<close>

definition map_sum :: "('v \<Rightarrow> 'a::comm_monoid_add) \<Rightarrow> ('k, 'v) jmap \<Rightarrow> 'a" where
  "map_sum f m = sum_list (map (\<lambda>x. f (snd x)) m)"

lemma map_sum_set:
  "map_sum f (map_set k w m) + (case map_get m k of None \<Rightarrow> 0 | Some v \<Rightarrow> f v) = map_sum f m + f w"
  by (induction m) (auto simp: map_sum_def map_set_def map_get_def ac_simps)

lemma map_sum_delete:
  "map_ok m \<Longrightarrow> map_sum f (map_delete k m) + (case map_get m k of None \<Rightarrow> 0 | Some v \<Rightarrow> f v) = map_sum f m"
proof (induction m)
  case (Cons x m)
  then have "map_ok m" and x: "fst x \<notin> fst ` set m" by (auto simp: map_ok_def map_keys_def)
  moreover have "map_delete (fst x) m = m"
    using x by (simp add: map_delete_def delete_id)
  ultimately show ?case
    using Cons.IH by (auto simp: map_sum_def map_delete_def map_get_def ac_simps)
qed (simp add: map_sum_def map_delete_def)

lemma balance_swap:
  fixes s t v k e n :: "'a multiset"
  assumes "t + v = s + k" "e + k = v + n"
  shows "e + t = s + n"
proof -
  have "(e + t) + v = e + (s + k)" using assms(1) by (simp add: add.assoc)
  also have "\<dots> = s + (e + k)" by (simp add: ac_simps)
  also have "\<dots> = (s + n) + v" using assms(2) by (simp add: ac_simps)
  finally show ?thesis by simp
qed

section \<open>JavaScript Set: a list in insertion order\<close>

definition set_add :: "'a \<Rightarrow> 'a list \<Rightarrow> 'a list" where
  "set_add x s = (if x \<in> set s then s else s @ [x])"

definition set_delete :: "'a \<Rightarrow> 'a list \<Rightarrow> 'a list" where
  "set_delete x s = removeAll x s"

lemma set_set_add [simp]: "set (set_add x s) = insert x (set s)"
  by (auto simp: set_add_def)

lemma set_set_delete [simp]: "set (set_delete x s) = set s - {x}"
  by (simp add: set_delete_def)

lemma distinct_set_add [simp, inv_rules]: "distinct s \<Longrightarrow> distinct (set_add x s)"
  by (simp add: set_add_def)

lemma distinct_set_delete [simp, inv_rules]: "distinct s \<Longrightarrow> distinct (set_delete x s)"
  by (simp add: set_delete_def distinct_removeAll)

section \<open>Interface: an ordered store that evicts its oldest entry\<close>

text \<open>
  Several components keep a bounded table in the same way: insert, then, when
  the table exceeds its cap, delete the key that was inserted first. The
  interface asks for the laws of insertion and deletion on the key order; the
  client lemmas bound the table and say what the eviction leaves.
\<close>

locale ordered_store =
  fixes put :: "'k \<Rightarrow> 'v \<Rightarrow> 'm \<Rightarrow> 'm"
    and del :: "'k \<Rightarrow> 'm \<Rightarrow> 'm"
    and keys :: "'m \<Rightarrow> 'k list"
    and ok :: "'m \<Rightarrow> bool"
  assumes ok_put: "ok m \<Longrightarrow> ok (put k v m)"
    and ok_del: "ok m \<Longrightarrow> ok (del k m)"
    and ok_distinct: "ok m \<Longrightarrow> distinct (keys m)"
    and keys_put: "ok m \<Longrightarrow> keys (put k v m) = (if k \<in> set (keys m) then keys m else keys m @ [k])"
    and keys_del: "ok m \<Longrightarrow> keys (del k m) = removeAll k (keys m)"
begin

definition evict :: "nat \<Rightarrow> 'm \<Rightarrow> 'm" where
  "evict cap m = (if cap < length (keys m) then del (hd (keys m)) m else m)"

lemma ok_evict: "ok m \<Longrightarrow> ok (evict cap m)"
  by (simp add: evict_def ok_del)

lemma length_put: "ok m \<Longrightarrow> length (keys (put k v m)) \<le> Suc (length (keys m))"
  by (simp add: keys_put)

lemma keys_evict:
  assumes "ok m" "cap < length (keys m)"
  shows "keys (evict cap m) = tl (keys m)"
proof -
  obtain k ks where ks: "keys m = k # ks"
    using assms(2) by (cases "keys m") auto
  with ok_distinct [OF assms(1)] have "removeAll k ks = ks"
    by (simp add: removeAll_id)
  with assms ks show ?thesis by (simp add: evict_def keys_del)
qed

lemma put_evict_bounded:
  assumes "ok m" "length (keys m) \<le> cap"
  shows "length (keys (evict cap (put k v m))) \<le> cap"
proof (cases "cap < length (keys (put k v m))")
  case True
  then show ?thesis
    using keys_evict [OF ok_put [OF assms(1)] True] length_put [OF assms(1), of k v] assms(2)
    by simp
next
  case False
  then show ?thesis by (simp add: evict_def)
qed

lemma put_evict_keeps_new:
  assumes "ok m" "length (keys m) \<le> cap" "0 < cap"
  shows "k \<in> set (keys (evict cap (put k v m)))"
proof (cases "cap < length (keys (put k v m))")
  case True
  with assms have new: "keys (put k v m) = keys m @ [k]" "keys m \<noteq> []"
    by (auto simp: keys_put split: if_splits)
  then show ?thesis
    using keys_evict [OF ok_put [OF assms(1)] True] by simp
next
  case False
  with assms show ?thesis by (simp add: evict_def keys_put)
qed

end

interpretation jmap_store: ordered_store map_set map_delete map_keys map_ok
  by unfold_locales (auto simp: map_rules map_ok_def distinct_removeAll)

interpretation jset_store: ordered_store "\<lambda>x (_::unit). set_add x" set_delete "\<lambda>s. s" distinct
  by unfold_locales (auto simp: set_add_def set_delete_def distinct_removeAll)

section \<open>Interface: an event machine and its invariant\<close>

locale event_machine =
  fixes step :: "'s \<Rightarrow> 'e \<Rightarrow> 's"
    and inv :: "'s \<Rightarrow> bool"
  assumes inv_step: "inv s \<Longrightarrow> inv (step s e)"
begin

lemma inv_run: "inv s \<Longrightarrow> inv (foldl step s es)"
  by (induction es arbitrary: s) (auto intro: inv_step)

end

text \<open>
  A machine with a work measure: every event of a distinguished class uses up
  at least one unit, and other events add at most a fixed number of units. Then
  the number of distinguished events is bounded along every run.
\<close>

locale work_machine = event_machine step inv
  for step :: "'s \<Rightarrow> 'e \<Rightarrow> 's" and inv :: "'s \<Rightarrow> bool" +
  fixes work :: "'s \<Rightarrow> nat"
    and uses :: "'s \<Rightarrow> 'e \<Rightarrow> bool"
    and adds :: "'e \<Rightarrow> nat"
  assumes work_step: "inv s \<Longrightarrow> work (step s e) + (if uses s e then 1 else 0) \<le> work s + adds e"
begin

fun uses_count :: "'s \<Rightarrow> 'e list \<Rightarrow> nat" where
  "uses_count s [] = 0"
| "uses_count s (e # es) = (if uses s e then 1 else 0) + uses_count (step s e) es"

lemma uses_bounded:
  "inv s \<Longrightarrow> work (foldl step s es) + uses_count s es \<le> work s + sum_list (map adds es)"
proof (induction es arbitrary: s)
  case Nil
  then show ?case by simp
next
  case (Cons e es)
  have "work (foldl step (step s e) es) + uses_count (step s e) es
      \<le> work (step s e) + sum_list (map adds es)"
    by (rule Cons.IH) (rule inv_step [OF Cons.prems])
  with work_step [OF Cons.prems, of e] show ?case by simp
qed

end

text \<open>
  A machine with a balance: what an account holds changes by exactly what each event
  brings in. \<open>inflows\<close> adds up what the events of a run bring.
\<close>

fun inflows :: "('s \<Rightarrow> 'e \<Rightarrow> 's) \<Rightarrow> ('s \<Rightarrow> 'e \<Rightarrow> 'a::comm_monoid_add) \<Rightarrow> 's \<Rightarrow> 'e list \<Rightarrow> 'a" where
  "inflows step inflow s [] = 0"
| "inflows step inflow s (e # es) = inflow s e + inflows step inflow (step s e) es"

locale balance_machine = event_machine step inv
  for step :: "'s \<Rightarrow> 'e \<Rightarrow> 's" and inv :: "'s \<Rightarrow> bool" +
  fixes balance :: "'s \<Rightarrow> 'a::comm_monoid_add"
    and inflow :: "'s \<Rightarrow> 'e \<Rightarrow> 'a"
  assumes balance_step: "inv s \<Longrightarrow> balance (step s e) = balance s + inflow s e"
begin

lemma balance_run: "inv s \<Longrightarrow> balance (foldl step s es) = balance s + inflows step inflow s es"
  by (induction es arbitrary: s) (simp_all add: balance_step inv_step ac_simps)

end

section \<open>Lists\<close>

lemma sum_list_update_add:
  fixes f :: "'a \<Rightarrow> 'b multiset"
  shows "i < length xs \<Longrightarrow> f y = f (xs ! i) + d \<Longrightarrow> sum_list (map f (xs[i := y])) = sum_list (map f xs) + d"
  by (induction xs arbitrary: i) (auto simp: less_Suc_eq_0_disj)

lemma removeAll_hd_distinct: "distinct xs \<Longrightarrow> removeAll (hd xs) xs = tl xs"
  by (cases xs) auto

text \<open>A list cut into pieces of \<open>n\<close> elements; the reference for every chunking loop.\<close>

function pieces :: "nat \<Rightarrow> 'a list \<Rightarrow> 'a list list" where
  "pieces n xs = (if n = 0 \<or> xs = [] then [] else take n xs # pieces n (drop n xs))"
  by pat_completeness auto
termination
  by (relation "measure (\<lambda>(n, xs). length xs)") auto

declare pieces.simps [simp del]

lemma pieces_Nil [simp]: "pieces n [] = []"
  by (subst pieces.simps) simp

lemma pieces_step: "0 < n \<Longrightarrow> xs \<noteq> [] \<Longrightarrow> pieces n xs = take n xs # pieces n (drop n xs)"
  by (subst pieces.simps) simp

lemma concat_pieces: "0 < n \<Longrightarrow> concat (pieces n xs) = xs"
proof (induction n xs rule: pieces.induct)
  case (1 n xs)
  then show ?case by (cases "xs = []") (simp_all add: pieces_step)
qed

lemma div_one_piece: "m \<le> n \<Longrightarrow> 0 < m \<Longrightarrow> (m + n - 1) div n = (1 :: nat)"
  by (intro div_nat_eqI) auto

lemma length_pieces: "0 < n \<Longrightarrow> length (pieces n xs) = (length xs + n - 1) div n"
proof (induction n xs rule: pieces.induct)
  case (1 n xs)
  show ?case
  proof (cases "xs = []")
    case False
    have "(length xs + n - 1) div n = Suc ((length xs - n + n - 1) div n)"
    proof (cases "length xs \<le> n")
      case True
      moreover have "0 < length xs" using False by simp
      ultimately have "(length xs + n - 1) div n = 1"
        by (rule div_one_piece)
      with True \<open>0 < n\<close> show ?thesis by simp
    next
      case less: False
      then have "length xs + n - 1 = (length xs - n + n - 1) + n" using \<open>0 < n\<close> by simp
      then show ?thesis using \<open>0 < n\<close> by (simp only: div_add_self2)
    qed
    with 1 False show ?thesis by (simp add: pieces_step)
  qed (use 1 in simp)
qed

lemma piece_bounds: "0 < n \<Longrightarrow> p \<in> set (pieces n xs) \<Longrightarrow> 0 < length p \<and> length p \<le> n"
proof (induction n xs rule: pieces.induct)
  case (1 n xs)
  then show ?case by (cases "xs = []") (auto simp: pieces_step)
qed

lemma nth_pieces: "0 < n \<Longrightarrow> k < length (pieces n xs) \<Longrightarrow> pieces n xs ! k = take n (drop (k * n) xs)"
proof (induction n xs arbitrary: k rule: pieces.induct)
  case (1 n xs)
  then show ?case
    by (cases "xs = []"; cases k) (auto simp: pieces_step add.commute)
qed

end
