(* ===== verification/JsLang.thy ===== *)
theory JsLang
  imports Prelude
begin

text \<open>
  The part of JavaScript that the sources use: JSON values with truthiness,
  property reads and coercions, \<open>JSON.stringify\<close> and \<open>JSON.parse\<close> on text,
  and the string functions \<open>split\<close>, \<open>trim\<close>, \<open>slice\<close>, \<open>startsWith\<close> and
  \<open>encodeURIComponent\<close>.

  A JavaScript string is represented by its UTF-8 bytes (\<open>string\<close>), so lengths
  and slices agree with the source's counts on ASCII text. A number is an integer, \<open>JNum n\<close>, or
  the decimal fraction \<open>JDec m k\<close>, which is \<open>m\<close> divided by \<open>10 ^ k\<close> for a positive \<open>k\<close>, with
  \<open>m\<close> no multiple of ten. It keeps the value of its literal: integers up to \<open>2 ^ 53\<close> and decimals
  of up to fifteen digits are what the language prints and compares; what it computes with
  other numbers is in \<open>Doubles\<close>. \<open>undefined\<close> is \<open>None\<close>; a thrown exception is \<open>Inl\<close> of an error value.
\<close>

datatype json =
    JNull
  | JBool bool
  | JNum int
  | JDec int nat
  | JStr string
  | JArr "json list"
  | JObj "(string \<times> json) list"

datatype js_error = TypeError | RangeError | SyntaxError | InvalidURL | ErrorMsg string

text \<open>\<open>err.message\<close>; the texts of built-in exceptions are cut down to their class.\<close>

fun error_text :: "js_error \<Rightarrow> string" where
  "error_text (ErrorMsg m) = m"
| "error_text TypeError = ''TypeError''"
| "error_text RangeError = ''RangeError''"
| "error_text SyntaxError = ''SyntaxError''"
| "error_text InvalidURL = ''Invalid URL''"

section \<open>Values\<close>

fun truthy :: "json option \<Rightarrow> bool" where
  "truthy None = False"
| "truthy (Some JNull) = False"
| "truthy (Some (JBool b)) = b"
| "truthy (Some (JNum n)) = (n \<noteq> 0)"
| "truthy (Some (JDec m k)) = (m \<noteq> 0)"
| "truthy (Some (JStr s)) = (s \<noteq> [])"
| "truthy (Some (JArr _)) = True"
| "truthy (Some (JObj _)) = True"

text \<open>\<open>a || b\<close> on values.\<close>

definition js_or :: "json option \<Rightarrow> json option \<Rightarrow> json option" where
  "js_or a b = (if truthy a then a else b)"

text \<open>A property read \<open>v.name\<close>; reading from \<open>null\<close> or \<open>undefined\<close> throws.\<close>

fun js_get :: "json \<Rightarrow> string \<Rightarrow> json option" where
  "js_get (JObj fs) k = map_get fs k"
| "js_get (JArr xs) k = (if k = ''length'' then Some (JNum (int (length xs))) else None)"
| "js_get (JStr s) k = (if k = ''length'' then Some (JNum (int (length s))) else None)"
| "js_get _ k = None"

fun js_read :: "json option \<Rightarrow> string \<Rightarrow> js_error + json option" where
  "js_read None k = Inl TypeError"
| "js_read (Some JNull) k = Inl TypeError"
| "js_read (Some v) k = Inr (js_get v k)"

text \<open>\<open>typeof v === 'object'\<close> (also for \<open>null\<close> and arrays, as in the language).\<close>

fun is_object :: "json option \<Rightarrow> bool" where
  "is_object (Some JNull) = True"
| "is_object (Some (JArr _)) = True"
| "is_object (Some (JObj _)) = True"
| "is_object _ = False"

fun is_string :: "json option \<Rightarrow> bool" where
  "is_string (Some (JStr _)) = True"
| "is_string _ = False"

text \<open>An object literal: fields whose value is \<open>undefined\<close> are left out by \<open>JSON.stringify\<close>.\<close>

fun js_object :: "(string \<times> json option) list \<Rightarrow> json" where
  "js_object fs = JObj (List.map_filter (\<lambda>(k, v). map_option (Pair k) v) fs)"

section \<open>Strings\<close>

definition em_dash :: string where
  "em_dash = [CHR 0xE2, CHR 0x80, CHR 0x94]"

definition is_ws :: "char \<Rightarrow> bool" where
  "is_ws c = (c \<in> {CHR 0x09, CHR 0x0A, CHR 0x0B, CHR 0x0C, CHR 0x0D, CHR 0x20})"

definition js_trim :: "string \<Rightarrow> string" where
  "js_trim s = rev (dropWhile is_ws (rev (dropWhile is_ws s)))"

fun js_split :: "char \<Rightarrow> string \<Rightarrow> string list" where
  "js_split c [] = [[]]"
| "js_split c (x # xs) =
     (if x = c then [] # js_split c xs
      else (case js_split c xs of [] \<Rightarrow> [[x]] | y # ys \<Rightarrow> (x # y) # ys))"

definition js_startsWith :: "string \<Rightarrow> string \<Rightarrow> bool" where
  "js_startsWith s p = (take (length p) s = p)"

text \<open>\<open>s.slice(i, j)\<close> for \<open>0 \<le> i\<close>, on strings and typed arrays.\<close>

definition js_slice :: "'a list \<Rightarrow> nat \<Rightarrow> nat \<Rightarrow> 'a list" where
  "js_slice s i j = take (j - i) (drop i s)"

definition hex_digit :: "nat \<Rightarrow> char" where
  "hex_digit n = char_of (if n < 10 then 48 + n else 87 + n)"

definition hex_digit_upper :: "nat \<Rightarrow> char" where
  "hex_digit_upper n = char_of (if n < 10 then 48 + n else 55 + n)"

definition uri_unreserved :: "char \<Rightarrow> bool" where
  "uri_unreserved c =
     (let n = (of_char c :: nat) in
        (48 \<le> n \<and> n \<le> 57) \<or> (65 \<le> n \<and> n \<le> 90) \<or> (97 \<le> n \<and> n \<le> 122)
        \<or> c \<in> set ''-_.!~*'' \<or> n \<in> {39, 40, 41})"

definition encodeURIComponent :: "string \<Rightarrow> string" where
  "encodeURIComponent s =
     concat (map (\<lambda>c. if uri_unreserved c then [c]
       else [CHR ''%'', hex_digit_upper (of_char c div 16), hex_digit_upper (of_char c mod 16)]) s)"

fun show_nat :: "nat \<Rightarrow> string" where
  "show_nat n = (if n < 10 then [char_of (48 + n)] else show_nat (n div 10) @ [char_of (48 + n mod 10)])"

declare show_nat.simps [simp del]

definition show_int :: "int \<Rightarrow> string" where
  "show_int i = (if i < 0 then CHR ''-'' # show_nat (nat (- i)) else show_nat (nat i))"

text \<open>The shortest text of a fraction: with an exponent below a millionth.\<close>

definition show_dec :: "int \<Rightarrow> nat \<Rightarrow> string" where
  "show_dec m k =
     (let ds = show_nat (nat \<bar>m\<bar>); n = length ds;
          text = (if k < n then take (n - k) ds @ CHR ''.'' # drop (n - k) ds
                  else if k - n < 6 then ''0.'' @ replicate (k - n) CHR ''0'' @ ds
                  else hd ds # (if n = 1 then [] else CHR ''.'' # tl ds) @ ''e-'' @ show_nat (Suc (k - n)))
      in if m < 0 then CHR ''-'' # text else text)"

text \<open>\<open>String(v)\<close>, as a template literal or \<open>encodeURIComponent\<close> applies it.\<close>

fun js_join :: "string list \<Rightarrow> string" where
  "js_join [] = []"
| "js_join [s] = s"
| "js_join (s # ss) = s @ CHR '','' # js_join ss"

fun js_to_string :: "json \<Rightarrow> string" where
  "js_to_string JNull = ''null''"
| "js_to_string (JBool b) = (if b then ''true'' else ''false'')"
| "js_to_string (JNum n) = show_int n"
| "js_to_string (JDec m k) = show_dec m k"
| "js_to_string (JStr s) = s"
| "js_to_string (JArr xs) = js_join (map (\<lambda>x. if x = JNull then [] else js_to_string x) xs)"
| "js_to_string (JObj fs) = ''[object Object]''"

definition js_string :: "json option \<Rightarrow> string" where
  "js_string v = (case v of None \<Rightarrow> ''undefined'' | Some x \<Rightarrow> js_to_string x)"

section \<open>Numbers\<close>

definition is_digit :: "char \<Rightarrow> bool" where
  "is_digit c = (let n = (of_char c :: nat) in 48 \<le> n \<and> n \<le> 57)"

definition all_digits :: "string \<Rightarrow> bool" where
  "all_digits s = (s \<noteq> [] \<and> (\<forall>c\<in>set s. is_digit c))"

definition read_nat :: "string \<Rightarrow> nat" where
  "read_nat ds = foldl (\<lambda>a c. a * 10 + (of_char c - 48)) 0 ds"

text \<open>A number as a pair: the value \<open>m / 10 ^ k\<close> is \<open>(m, k)\<close>, with the least \<open>k\<close>.\<close>

type_synonym dec = "int \<times> nat"

definition dec_less :: "dec \<Rightarrow> dec \<Rightarrow> bool" where
  "dec_less a b = (fst a * 10 ^ snd b < fst b * 10 ^ snd a)"

text \<open>The integer part, towards zero.\<close>

definition dec_trunc :: "dec \<Rightarrow> int" where
  "dec_trunc a = sgn (fst a) * (\<bar>fst a\<bar> div 10 ^ snd a)"

definition dec_json :: "dec \<Rightarrow> json" where
  "dec_json a = (if snd a = 0 then JNum (fst a) else JDec (fst a) (snd a))"

fun strip_zeros :: "int \<Rightarrow> nat \<Rightarrow> dec" where
  "strip_zeros m 0 = (m, 0)"
| "strip_zeros m (Suc k) = (if m mod 10 = 0 then strip_zeros (m div 10) k else (m, Suc k))"

text \<open>The value of a sign, integer digits, fraction digits and an exponent.\<close>

definition decimal :: "bool \<Rightarrow> string \<Rightarrow> string \<Rightarrow> int \<Rightarrow> dec" where
  "decimal neg ds fs ex =
     (let n = int (read_nat (ds @ fs)); m = (if neg then - n else n); e = ex - int (length fs)
      in if 0 \<le> e then (m * 10 ^ nat e, 0) else strip_zeros m (nat (- e)))"

text \<open>A point and digits, if there are any; a letter, a sign and digits, if there are any.\<close>

definition scan_fraction :: "string \<Rightarrow> string \<times> string" where
  "scan_fraction s =
     (case s of
        [] \<Rightarrow> ([], [])
      | c # r \<Rightarrow> if c = CHR ''.'' then (takeWhile is_digit r, dropWhile is_digit r) else ([], s))"

definition scan_exponent :: "string \<Rightarrow> (int \<times> string) option" where
  "scan_exponent s =
     (case s of
        [] \<Rightarrow> Some (0, [])
      | c # r \<Rightarrow>
          if c = CHR ''e'' \<or> c = CHR ''E'' then
            (let signed = r \<noteq> [] \<and> (hd r = CHR ''+'' \<or> hd r = CHR ''-'');
                 r1 = (if signed then tl r else r);
                 ds = takeWhile is_digit r1;
                 n = int (read_nat ds)
             in if ds = [] then None
                else Some (if signed \<and> hd r = CHR ''-'' then - n else n, dropWhile is_digit r1))
          else Some (0, s))"

text \<open>\<open>Number(s)\<close> on strings: decimal literals; \<open>None\<close> is \<open>NaN\<close>.\<close>

definition string_number :: "string \<Rightarrow> dec option" where
  "string_number s =
     (let t = js_trim s;
          signed = t \<noteq> [] \<and> (hd t = CHR ''+'' \<or> hd t = CHR ''-'');
          t1 = (if signed then tl t else t);
          ds = takeWhile is_digit t1
      in case scan_fraction (dropWhile is_digit t1) of (fs, r) \<Rightarrow>
           if t = [] then Some (0, 0)
           else if ds @ fs = [] then None
           else (case scan_exponent r of
                   Some (ex, []) \<Rightarrow> Some (decimal (signed \<and> hd t = CHR ''-'') ds fs ex)
                 | _ \<Rightarrow> None))"

fun js_number :: "json option \<Rightarrow> dec option" where
  "js_number None = None"
| "js_number (Some JNull) = Some (0, 0)"
| "js_number (Some (JBool b)) = Some (if b then 1 else 0, 0)"
| "js_number (Some (JNum n)) = Some (n, 0)"
| "js_number (Some (JDec m k)) = Some (m, k)"
| "js_number (Some (JStr s)) = string_number s"
| "js_number (Some v) = string_number (js_to_string v)"

text \<open>\<open>v > k\<close> for a number \<open>k\<close>: false when \<open>v\<close> is \<open>NaN\<close>.\<close>

definition js_gt :: "json option \<Rightarrow> int \<Rightarrow> bool" where
  "js_gt v k = (case js_number v of None \<Rightarrow> False | Some n \<Rightarrow> dec_less (k, 0) n)"

text \<open>
  The relational operators: objects become strings, two strings compare by their
  characters, anything else as numbers; \<open>None\<close> when a \<open>NaN\<close> takes part.
\<close>

fun string_less :: "string \<Rightarrow> string \<Rightarrow> bool" where
  "string_less [] t = (t \<noteq> [])"
| "string_less (c # s) [] = False"
| "string_less (c # s) (d # t) = ((of_char c :: nat) < of_char d \<or> (c = d \<and> string_less s t))"

fun js_prim :: "json \<Rightarrow> json" where
  "js_prim (JArr xs) = JStr (js_to_string (JArr xs))"
| "js_prim (JObj fs) = JStr (js_to_string (JObj fs))"
| "js_prim v = v"

definition js_less :: "json \<Rightarrow> json \<Rightarrow> bool option" where
  "js_less a b =
     (case (js_prim a, js_prim b) of
        (JStr s, JStr t) \<Rightarrow> Some (string_less s t)
      | (x, y) \<Rightarrow> (case (js_number (Some x), js_number (Some y)) of
                    (Some m, Some n) \<Rightarrow> Some (dec_less m n) | _ \<Rightarrow> None))"

lemma js_less_num [simp]: "js_less (JNum m) (JNum n) = Some (m < n)"
  by (simp add: js_less_def dec_less_def)

lemma js_split_not_Nil [simp]: "js_split c s \<noteq> []"
  by (cases s) (auto split: list.splits)

section \<open>JSON.stringify\<close>

definition json_escape :: "char \<Rightarrow> string" where
  "json_escape c =
     (let n = (of_char c :: nat) in
      if c = CHR 0x22 then [CHR 0x5C, CHR 0x22]
      else if c = CHR 0x5C then [CHR 0x5C, CHR 0x5C]
      else if n = 8 then [CHR 0x5C, CHR ''b'']
      else if n = 9 then [CHR 0x5C, CHR ''t'']
      else if n = 10 then [CHR 0x5C, CHR ''n'']
      else if n = 12 then [CHR 0x5C, CHR ''f'']
      else if n = 13 then [CHR 0x5C, CHR ''r'']
      else if n < 32 then [CHR 0x5C, CHR ''u'', CHR ''0'', CHR ''0'', hex_digit (n div 16), hex_digit (n mod 16)]
      else [c])"

definition json_quote :: "string \<Rightarrow> string" where
  "json_quote s = CHR 0x22 # concat (map json_escape s) @ [CHR 0x22]"

fun json_stringify :: "json \<Rightarrow> string"
  and elems_text :: "json list \<Rightarrow> string"
  and members_text :: "(string \<times> json) list \<Rightarrow> string" where
  "json_stringify JNull = ''null''"
| "json_stringify (JBool b) = (if b then ''true'' else ''false'')"
| "json_stringify (JNum n) = show_int n"
| "json_stringify (JDec m k) = show_dec m k"
| "json_stringify (JStr s) = json_quote s"
| "json_stringify (JArr xs) = CHR ''['' # elems_text xs @ '']''"
| "json_stringify (JObj ms) = CHR 0x7B # members_text ms @ [CHR 0x7D]"
| "elems_text [] = []"
| "elems_text (x # xs) = json_stringify x @ (if xs = [] then [] else CHR '','' # elems_text xs)"
| "members_text [] = []"
| "members_text ((k, v) # ms) =
     json_quote k @ CHR '':'' # json_stringify v @ (if ms = [] then [] else CHR '','' # members_text ms)"

section \<open>JSON.parse\<close>

definition json_ws :: "char \<Rightarrow> bool" where
  "json_ws c = (c \<in> {CHR 0x09, CHR 0x0A, CHR 0x0D, CHR 0x20})"

definition skip_ws :: "string \<Rightarrow> string" where
  "skip_ws s = dropWhile json_ws s"

definition hex_value :: "char \<Rightarrow> nat option" where
  "hex_value c =
     (let n = (of_char c :: nat) in
      if 48 \<le> n \<and> n \<le> 57 then Some (n - 48)
      else if 97 \<le> n \<and> n \<le> 102 then Some (n - 87)
      else if 65 \<le> n \<and> n \<le> 70 then Some (n - 55)
      else None)"

definition hex4 :: "char \<Rightarrow> char \<Rightarrow> char \<Rightarrow> char \<Rightarrow> nat option" where
  "hex4 a b c d =
     (case (hex_value a, hex_value b, hex_value c, hex_value d) of
        (Some w, Some x, Some y, Some z) \<Rightarrow> Some (((w * 16 + x) * 16 + y) * 16 + z)
      | _ \<Rightarrow> None)"

text \<open>The UTF-8 bytes of a 16-bit code unit.\<close>

definition utf8_unit :: "nat \<Rightarrow> string" where
  "utf8_unit n =
     (if n < 128 then [char_of n]
      else if n < 2048 then [char_of (192 + n div 64), char_of (128 + n mod 64)]
      else [char_of (224 + n div 4096), char_of (128 + n div 64 mod 64), char_of (128 + n mod 64)])"

definition json_unescape :: "char \<Rightarrow> char option" where
  "json_unescape e =
     (if e = CHR 0x22 \<or> e = CHR 0x5C \<or> e = CHR ''/'' then Some e
      else if e = CHR ''b'' then Some (CHR 0x08)
      else if e = CHR ''t'' then Some (CHR 0x09)
      else if e = CHR ''n'' then Some (CHR 0x0A)
      else if e = CHR ''f'' then Some (CHR 0x0C)
      else if e = CHR ''r'' then Some (CHR 0x0D)
      else None)"

fun parse_str :: "string \<Rightarrow> (string \<times> string) option" where
  "parse_str [] = None"
| "parse_str (c # r) =
     (if c = CHR 0x22 then Some ([], r)
      else if c = CHR 0x5C then
        (case r of
           [] \<Rightarrow> None
         | e # r1 \<Rightarrow>
             if e = CHR ''u'' then
               (case r1 of
                  h1 # h2 # h3 # h4 # r2 \<Rightarrow>
                    (case hex4 h1 h2 h3 h4 of
                       None \<Rightarrow> None
                     | Some n \<Rightarrow> map_option (\<lambda>(t, u). (utf8_unit n @ t, u)) (parse_str r2))
                | _ \<Rightarrow> None)
             else (case json_unescape e of
                     None \<Rightarrow> None
                   | Some x \<Rightarrow> map_option (\<lambda>(t, u). (x # t, u)) (parse_str r1)))
      else if (of_char c :: nat) < 32 then None
      else map_option (\<lambda>(t, u). (c # t, u)) (parse_str r))"

definition parse_number :: "string \<Rightarrow> (json \<times> string) option" where
  "parse_number s =
     (let neg = (case s of c # _ \<Rightarrow> c = CHR ''-'' | [] \<Rightarrow> False);
          s1 = (if neg then tl s else s);
          ds = takeWhile is_digit s1;
          r = dropWhile is_digit s1
      in if ds = [] \<or> (hd ds = CHR ''0'' \<and> 1 < length ds) then None
         else (case scan_fraction r of (fs, r1) \<Rightarrow>
                 if fs = [] \<and> r1 \<noteq> r then None
                 else map_option (\<lambda>(ex, r2). (dec_json (decimal neg ds fs ex), r2)) (scan_exponent r1)))"

definition obj_of :: "(string \<times> json) list \<Rightarrow> json" where
  "obj_of ms = JObj (foldl (\<lambda>m (k, v). map_set k v m) [] ms)"

fun parse_value :: "nat \<Rightarrow> string \<Rightarrow> (json \<times> string) option"
  and parse_elems :: "nat \<Rightarrow> string \<Rightarrow> (json list \<times> string) option"
  and parse_members :: "nat \<Rightarrow> string \<Rightarrow> ((string \<times> json) list \<times> string) option" where
  "parse_value 0 s = None"
| "parse_value (Suc n) s =
     (case skip_ws s of
        [] \<Rightarrow> None
      | c # r \<Rightarrow>
          if c = CHR 0x22 then map_option (\<lambda>(t, u). (JStr t, u)) (parse_str r)
          else if c = CHR ''['' then
            (case skip_ws r of
               [] \<Rightarrow> None
             | d # r1 \<Rightarrow> if d = CHR '']'' then Some (JArr [], r1)
                         else map_option (\<lambda>(xs, u). (JArr xs, u)) (parse_elems n r))
          else if c = CHR 0x7B then
            (case skip_ws r of
               [] \<Rightarrow> None
             | d # r1 \<Rightarrow> if d = CHR 0x7D then Some (JObj [], r1)
                         else map_option (\<lambda>(ms, u). (obj_of ms, u)) (parse_members n r))
          else if take 4 (c # r) = ''null'' then Some (JNull, drop 4 (c # r))
          else if take 4 (c # r) = ''true'' then Some (JBool True, drop 4 (c # r))
          else if take 5 (c # r) = ''false'' then Some (JBool False, drop 5 (c # r))
          else parse_number (c # r))"
| "parse_elems 0 s = None"
| "parse_elems (Suc n) s =
     (case parse_value n s of
        None \<Rightarrow> None
      | Some (v, r) \<Rightarrow>
          (case skip_ws r of
             [] \<Rightarrow> None
           | d # r1 \<Rightarrow>
               if d = CHR '','' then map_option (\<lambda>(xs, u). (v # xs, u)) (parse_elems n r1)
               else if d = CHR '']'' then Some ([v], r1)
               else None))"
| "parse_members 0 s = None"
| "parse_members (Suc n) s =
     (case skip_ws s of
        [] \<Rightarrow> None
      | c # r \<Rightarrow>
          if c \<noteq> CHR 0x22 then None
          else (case parse_str r of
                  None \<Rightarrow> None
                | Some (k, r1) \<Rightarrow>
                    (case skip_ws r1 of
                       [] \<Rightarrow> None
                     | d # r2 \<Rightarrow>
                         if d \<noteq> CHR '':'' then None
                         else (case parse_value n r2 of
                                 None \<Rightarrow> None
                               | Some (v, r3) \<Rightarrow>
                                   (case skip_ws r3 of
                                      [] \<Rightarrow> None
                                    | e # r4 \<Rightarrow>
                                        if e = CHR '','' then
                                          map_option (\<lambda>(ms, u). ((k, v) # ms, u)) (parse_members n r4)
                                        else if e = CHR 0x7D then Some ([(k, v)], r4)
                                        else None)))))"

text \<open>Every nesting level and every element costs at least one character and two units of fuel.\<close>

definition json_parse :: "string \<Rightarrow> json option" where
  "json_parse s =
     (case parse_value (2 * length s + 2) s of
        None \<Rightarrow> None
      | Some (v, r) \<Rightarrow> if skip_ws r = [] then Some v else None)"

text \<open>\<open>typeof p === 'string' ? JSON.parse(p) : p\<close>, the way every handler reads a payload.\<close>

fun read_payload :: "json option \<Rightarrow> js_error + json option" where
  "read_payload (Some (JStr s)) = (case json_parse s of None \<Rightarrow> Inl SyntaxError | Some v \<Rightarrow> Inr (Some v))"
| "read_payload p = Inr p"

end
