(* ===== verification/JobQueue.thy ===== *)
theory JobQueue
  imports JsLang
begin

text \<open>
  The worker's job queue (\<^verbatim>\<open>services/worker/src/queue.js\<close>): a FIFO list of jobs
  that skips jobs in retry backoff, a retry counter per job, and a bounded list
  of dead letters. \<open>Date.now()\<close> and \<open>randomUUID()\<close> are arguments of the
  operations that call them.
\<close>

section \<open>State\<close>

definition MAX_DEAD_LETTERS :: nat where
  "MAX_DEAD_LETTERS = 1000"

text \<open>
  A job object. \<open>_retryAfter\<close> is set by the manager; \<open>error\<close>, \<open>lastError\<close>,
  \<open>queuedAt\<close> and \<open>scheduledAt\<close> are read by \<open>failed\<close> and are \<open>undefined\<close> on the
  jobs that \<open>enqueue\<close> creates.
\<close>

record job =
  job_id :: uuid
  job_type :: string
  job_data :: "json option"
  createdAt :: time
  attempts :: nat
  maxAttempts :: nat
  retryAfter :: "time option"
  job_error :: "json option"
  lastError :: "json option"
  queuedAt :: "json option"
  scheduledAt :: "json option"

record dead_letter =
  dl_id :: uuid
  dl_type :: string
  dl_attempts :: nat
  dl_maxAttempts :: nat
  dl_queuedAt :: "json option"
  dl_scheduledAt :: "json option"
  failedAt :: time
  dl_error :: "json option"

record queue =
  items :: "job list"
  dead :: "dead_letter list"

definition empty_queue :: queue where
  "empty_queue = \<lparr>items = [], dead = []\<rparr>"

section \<open>Operations\<close>

definition new_job :: "uuid \<Rightarrow> time \<Rightarrow> string \<Rightarrow> json option \<Rightarrow> job" where
  "new_job uid now ty dat =
     \<lparr>job_id = uid, job_type = ty, job_data = dat, createdAt = now, attempts = 0, maxAttempts = 3,
      retryAfter = None, job_error = None, lastError = None, queuedAt = None, scheduledAt = None\<rparr>"

definition enqueue :: "uuid \<Rightarrow> time \<Rightarrow> string \<Rightarrow> json option \<Rightarrow> queue \<Rightarrow> queue \<times> uuid" where
  "enqueue uid now ty dat q = (q\<lparr>items := items q @ [new_job uid now ty dat]\<rparr>, uid)"

text \<open>\<open>!job._retryAfter || Date.now() >= job._retryAfter\<close>\<close>

definition eligible :: "time \<Rightarrow> job \<Rightarrow> bool" where
  "eligible now j = (case retryAfter j of None \<Rightarrow> True | Some t \<Rightarrow> t = 0 \<or> t \<le> now)"

text \<open>The index loop of \<open>dequeue\<close>: the first eligible entry and the list with it spliced out.\<close>

fun dequeue_scan :: "time \<Rightarrow> job list \<Rightarrow> (job \<times> job list) option" where
  "dequeue_scan now [] = None"
| "dequeue_scan now (j # js) =
     (if eligible now j then Some (j, js)
      else map_option (\<lambda>(x, rest). (x, j # rest)) (dequeue_scan now js))"

definition dequeue :: "time \<Rightarrow> queue \<Rightarrow> queue \<times> job option" where
  "dequeue now q =
     (case dequeue_scan now (items q) of
        None \<Rightarrow> (q, None)
      | Some (j, rest) \<Rightarrow> (q\<lparr>items := rest\<rparr>, Some j))"

definition queue_size :: "queue \<Rightarrow> nat" where
  "queue_size q = length (items q)"

definition peek :: "queue \<Rightarrow> job option" where
  "peek q = (case items q of [] \<Rightarrow> None | j # _ \<Rightarrow> Some j)"

text \<open>\<open>v && typeof v === 'object' && 'message' in v && v.message\<close>: the message when it is truthy.\<close>

definition message_of :: "json option \<Rightarrow> json option" where
  "message_of v = (case v of Some (JObj fs) \<Rightarrow> map_get fs ''message'' | _ \<Rightarrow> None)"

definition string_or_undefined :: "json option \<Rightarrow> json option" where
  "string_or_undefined v = (if is_string v then v else None)"

definition error_summary :: "job \<Rightarrow> json option" where
  "error_summary j =
     js_or (message_of (job_error j))
       (js_or (message_of (lastError j))
          (js_or (string_or_undefined (job_error j)) (string_or_undefined (lastError j))))"

text \<open>\<open>while (deadLetters.length > MAX_DEAD_LETTERS) deadLetters.shift()\<close>\<close>

function evict_dead :: "'a list \<Rightarrow> 'a list" where
  "evict_dead ds = (if MAX_DEAD_LETTERS < length ds then evict_dead (tl ds) else ds)"
  by pat_completeness auto
termination
  by (relation "measure length") auto

declare evict_dead.simps [simp del]

definition failed :: "time \<Rightarrow> job \<Rightarrow> queue \<Rightarrow> queue" where
  "failed now j q =
     q\<lparr>dead := evict_dead (dead q @
        [\<lparr>dl_id = job_id j, dl_type = job_type j, dl_attempts = attempts j, dl_maxAttempts = maxAttempts j,
          dl_queuedAt = queuedAt j, dl_scheduledAt = scheduledAt j, failedAt = now,
          dl_error = error_summary j\<rparr>])\<rparr>"

text \<open>\<open>requeue\<close> returns the queue, the job it mutated and whether it was put back.\<close>

definition requeue :: "time \<Rightarrow> job \<Rightarrow> queue \<Rightarrow> queue \<times> job \<times> bool" where
  "requeue now j q =
     (let j' = j\<lparr>attempts := Suc (attempts j)\<rparr> in
      if maxAttempts j' \<le> attempts j' then (failed now j' q, j', False)
      else (q\<lparr>items := items q @ [j']\<rparr>, j', True))"

definition deadLetters :: "queue \<Rightarrow> dead_letter list" where
  "deadLetters q = dead q"

section \<open>Lemmas\<close>

lemma evict_dead_drop: "evict_dead ds = drop (length ds - MAX_DEAD_LETTERS) ds"
proof (induction ds rule: evict_dead.induct)
  case (1 ds)
  show ?case
  proof (cases "MAX_DEAD_LETTERS < length ds")
    case True
    then obtain d es where "ds = d # es" by (cases ds) auto
    with True 1 show ?thesis
      by (subst evict_dead.simps) (simp add: Suc_diff_le)
  qed (subst evict_dead.simps, simp)
qed

lemma evict_dead_length: "length (evict_dead ds) \<le> MAX_DEAD_LETTERS"
  by (simp add: evict_dead_drop)

lemma evict_dead_id: "length ds \<le> MAX_DEAD_LETTERS \<Longrightarrow> evict_dead ds = ds"
  by (simp add: evict_dead_drop)

lemma dequeue_scan_Some:
  "dequeue_scan now js = Some (j, rest) \<longleftrightarrow>
     (\<exists>pre post. js = pre @ j # post \<and> rest = pre @ post \<and> eligible now j
        \<and> (\<forall>x\<in>set pre. \<not> eligible now x))"
proof (induction js arbitrary: rest)
  case Nil
  then show ?case by simp
next
  case (Cons x js)
  show ?case
  proof (cases "eligible now x")
    case True
    have "\<exists>pre post. x # js = pre @ x # post \<and> js = pre @ post \<and> eligible now x
        \<and> (\<forall>y\<in>set pre. \<not> eligible now y)"
      using True by (intro exI [of _ "[]"] exI [of _ js]) simp
    with True show ?thesis
      by (auto simp: Cons_eq_append_conv)
  next
    case False
    then show ?thesis
      by (auto simp: Cons.IH Cons_eq_append_conv split: prod.splits) (metis append_Cons set_ConsD, blast)
  qed
qed

lemma dequeue_scan_None: "dequeue_scan now js = None \<longleftrightarrow> (\<forall>x\<in>set js. \<not> eligible now x)"
  by (induction js) auto

lemma dequeue_scan_mset: "dequeue_scan now js = Some (j, rest) \<Longrightarrow> mset js = add_mset j (mset rest)"
  by (auto simp: dequeue_scan_Some)

lemma dequeue_scan_set: "dequeue_scan now js = Some (j, rest) \<Longrightarrow> set js = insert j (set rest)"
  by (auto simp: dequeue_scan_Some)

section \<open>Invariant\<close>

text \<open>Every queued job has attempts left, and the dead letters stay within their cap.\<close>

definition queue_inv :: "queue \<Rightarrow> bool" where
  "queue_inv q = ((\<forall>j\<in>set (items q). attempts j < maxAttempts j) \<and> length (dead q) \<le> MAX_DEAD_LETTERS)"

lemma queue_inv_empty [simp, inv_rules]: "queue_inv empty_queue"
  by (simp add: queue_inv_def empty_queue_def)

lemma queue_inv_enqueue [inv_rules]: "queue_inv q \<Longrightarrow> queue_inv (fst (enqueue uid now ty dat q))"
  by (auto simp: queue_inv_def enqueue_def new_job_def)

lemma queue_inv_dequeue [inv_rules]: "queue_inv q \<Longrightarrow> queue_inv (fst (dequeue now q))"
  by (auto simp: queue_inv_def dequeue_def dest: dequeue_scan_set split: option.splits)

lemma dequeue_attempts: "queue_inv q \<Longrightarrow> dequeue now q = (q', Some j) \<Longrightarrow> attempts j < maxAttempts j"
  by (auto simp: queue_inv_def dequeue_def dest: dequeue_scan_set split: option.splits)

lemma queue_inv_failed [inv_rules]: "queue_inv q \<Longrightarrow> queue_inv (failed now j q)"
  by (simp add: queue_inv_def failed_def evict_dead_length)

lemma queue_inv_requeue [inv_rules]: "queue_inv q \<Longrightarrow> queue_inv (fst (requeue now j q))"
  using queue_inv_failed [of q now "j\<lparr>attempts := Suc (attempts j)\<rparr>"]
  by (auto simp: requeue_def Let_def queue_inv_def)

section \<open>Interface: a queue whose entries have a retry budget\<close>

text \<open>
  What a client that takes jobs and puts failed ones back relies on: nothing is
  lost or duplicated, a job that is put back keeps its identity and has a smaller
  budget, and a job that is not put back leaves the queue as it was.
\<close>

locale retry_queue =
  fixes waiting :: "'q \<Rightarrow> 'j multiset"
    and take_one :: "time \<Rightarrow> 'q \<Rightarrow> 'q \<times> 'j option"
    and put_back :: "time \<Rightarrow> 'j \<Rightarrow> 'q \<Rightarrow> 'q \<times> 'j \<times> bool"
    and key :: "'j \<Rightarrow> 'k"
    and budget :: "'j \<Rightarrow> nat"
  assumes take_Some: "take_one now q = (q', Some j) \<Longrightarrow> waiting q = add_mset j (waiting q')"
    and take_None: "take_one now q = (q', None) \<Longrightarrow> waiting q' = waiting q"
    and put_back_True: "put_back now j q = (q', j', True) \<Longrightarrow>
      waiting q' = add_mset j' (waiting q) \<and> key j' = key j \<and> budget j' < budget j"
    and put_back_False: "put_back now j q = (q', j', False) \<Longrightarrow> waiting q' = waiting q \<and> key j' = key j"
begin

definition share :: "'k \<Rightarrow> 'j \<Rightarrow> nat" where
  "share u j = (if key j = u then budget j else 0)"

definition work :: "'k \<Rightarrow> 'j multiset \<Rightarrow> nat" where
  "work u M = sum_mset (image_mset (share u) M)"

lemma work_empty [simp]: "work u {#} = 0"
  by (simp add: work_def)

lemma work_add [simp]: "work u (add_mset j M) = share u j + work u M"
  by (simp add: work_def)

lemma work_union [simp]: "work u (M + N) = work u M + work u N"
  by (simp add: work_def)

lemma work_put_back:
  assumes "put_back now j q = (q', j', ok)" "0 < budget j"
  shows "work u (waiting q') + (if key j = u then 1 else 0) \<le> work u (waiting q) + share u j"
proof (cases ok)
  case True
  with assms(1) put_back_True [of now j q q' j'] show ?thesis by (auto simp: share_def)
next
  case False
  with assms put_back_False [of now j q q' j'] show ?thesis by (auto simp: share_def)
qed

end

interpretation jq: retry_queue "\<lambda>q. mset (items q)" dequeue requeue job_id "\<lambda>j. maxAttempts j - attempts j"
proof unfold_locales
  fix now q q' j
  assume "dequeue now q = (q', Some j)"
  then show "mset (items q) = add_mset j (mset (items q'))"
    by (auto simp: dequeue_def dest: dequeue_scan_mset split: option.splits)
next
  fix now q q'
  assume "dequeue now q = (q', None)"
  then show "mset (items q') = mset (items q)"
    by (auto simp: dequeue_def split: option.splits)
next
  fix now j q q' j'
  assume "requeue now j q = (q', j', True)"
  then show "mset (items q') = add_mset j' (mset (items q)) \<and> job_id j' = job_id j
      \<and> maxAttempts j' - attempts j' < maxAttempts j - attempts j"
    by (auto simp: requeue_def Let_def split: if_splits)
next
  fix now j q q' j'
  assume "requeue now j q = (q', j', False)"
  then show "mset (items q') = mset (items q) \<and> job_id j' = job_id j"
    by (auto simp: requeue_def Let_def failed_def split: if_splits)
qed

end
