(* ===== verification/Manager.thy ===== *)
theory Manager
  imports JobQueue
begin

text \<open>
  The worker manager (\<^verbatim>\<open>services/worker/src/manager.js\<close>): its poll loop drains the
  queue, runs one job at a time, retries failed jobs with exponential backoff and
  sleeps between polls.

  The loop is an async function, so other code runs at its two \<open>await\<close>s. Each
  activation of \<open>#poll\<close> is an entry of \<open>loops\<close> that says where it is
  suspended; a step of the model is the code from one suspension point to the
  next. \<open>clearTimeout\<close> removes a timer, after which the loop that awaits it
  never resumes.
\<close>

section \<open>State\<close>

definition POLL_INTERVAL :: int where
  "POLL_INTERVAL = 500"

datatype phase =
    Processing job
  | Sleeping nat
  | Exited

datatype log_entry =
    LStarted
  | LJobFailed uuid nat nat js_error
  | LRequeued uuid int
  | LDead uuid nat

record 'r manager =
  mqueue :: queue
  running :: bool
  timer :: "nat option"
  onResult :: bool
  loops :: "phase list"
  pending_timers :: "nat list"
  next_timer :: nat
  calls :: "(job \<times> 'r) list"
  mlog :: "log_entry list"

definition new_manager :: "queue \<Rightarrow> bool \<Rightarrow> 'r manager" where
  "new_manager q cb =
     \<lparr>mqueue = q, running = False, timer = None, onResult = cb, loops = [], pending_timers = [],
      next_timer = 0, calls = [], mlog = []\<rparr>"

section \<open>Operations\<close>

text \<open>\<open>Math.min(1000 * Math.pow(2, job.attempts - 1), 30000)\<close>\<close>

definition retry_delay :: "nat \<Rightarrow> int" where
  "retry_delay n = min (1000 * 2 ^ (n - 1)) 30000"

text \<open>
  \<open>job._retryAfter = t\<close> after \<open>requeue\<close> pushed this very object: the last entry
  of the queue.
\<close>

definition set_retryAfter :: "time \<Rightarrow> queue \<Rightarrow> queue" where
  "set_retryAfter t q =
     q\<lparr>items := (items q)[length (items q) - 1 := last (items q)\<lparr>retryAfter := Some t\<rparr>]\<rparr>"

text \<open>The inner loop up to its next suspension: take a job, or set the poll timer.\<close>

definition poll_drain :: "time \<Rightarrow> nat \<Rightarrow> 'r manager \<Rightarrow> 'r manager" where
  "poll_drain now i m =
     (case dequeue now (mqueue m) of
        (q, Some j) \<Rightarrow> m\<lparr>mqueue := q, loops := (loops m)[i := Processing j]\<rparr>
      | (q, None) \<Rightarrow>
          m\<lparr>mqueue := q, timer := Some (next_timer m), loops := (loops m)[i := Sleeping (next_timer m)],
            pending_timers := pending_timers m @ [next_timer m], next_timer := Suc (next_timer m)\<rparr>)"

definition poll_top :: "time \<Rightarrow> nat \<Rightarrow> 'r manager \<Rightarrow> 'r manager" where
  "poll_top now i m = (if running m then poll_drain now i m else m\<lparr>loops := (loops m)[i := Exited]\<rparr>)"

definition manager_start :: "time \<Rightarrow> 'r manager \<Rightarrow> 'r manager" where
  "manager_start now m =
     (if running m then m
      else poll_top now (length (loops m))
        (m\<lparr>running := True, mlog := mlog m @ [LStarted], loops := loops m @ [Exited]\<rparr>))"

definition manager_stop :: "'r manager \<Rightarrow> 'r manager" where
  "manager_stop m =
     (let m' = m\<lparr>running := False\<rparr> in
      case timer m' of
        None \<Rightarrow> m'
      | Some t \<Rightarrow> m'\<lparr>pending_timers := removeAll t (pending_timers m'), timer := None\<rparr>)"

text \<open>\<open>processJob\<close> returned a result.\<close>

definition job_succeeded :: "time \<Rightarrow> nat \<Rightarrow> job \<Rightarrow> 'r \<Rightarrow> 'r manager \<Rightarrow> 'r manager" where
  "job_succeeded now i j r m =
     poll_drain now i (if onResult m then m\<lparr>calls := calls m @ [(j, r)]\<rparr> else m)"

text \<open>\<open>processJob\<close> threw.\<close>

definition job_failed :: "time \<Rightarrow> nat \<Rightarrow> job \<Rightarrow> js_error \<Rightarrow> 'r manager \<Rightarrow> 'r manager" where
  "job_failed now i j err m =
     (let m1 = m\<lparr>mlog := mlog m @ [LJobFailed (job_id j) (attempts j + 1) (maxAttempts j) err]\<rparr>
      in case requeue now j (mqueue m1) of
           (q, j', True) \<Rightarrow>
             let delay = retry_delay (attempts j') in
             poll_drain now i
               (m1\<lparr>mqueue := set_retryAfter (now + delay) q, mlog := mlog m1 @ [LRequeued (job_id j') delay]\<rparr>)
         | (q, j', False) \<Rightarrow>
             poll_drain now i
               (m1\<lparr>mqueue := q, mlog := mlog m1 @ [LDead (job_id j') (maxAttempts j')]\<rparr>))"

datatype 'r mgr_event =
    MStart time
  | MStop
  | MEnqueue uuid time string "json option"
  | MFinished time nat "js_error + 'r"
  | MTimer time nat

text \<open>The job that poll loop \<open>i\<close> is running, if any.\<close>

definition in_flight :: "'r manager \<Rightarrow> nat \<Rightarrow> job option" where
  "in_flight m i =
     (if i < length (loops m) then (case loops m ! i of Processing j \<Rightarrow> Some j | _ \<Rightarrow> None) else None)"

fun sleeper :: "nat \<Rightarrow> phase list \<Rightarrow> nat option" where
  "sleeper t [] = None"
| "sleeper t (p # ps) = (if p = Sleeping t then Some 0 else map_option Suc (sleeper t ps))"

definition timer_fires :: "time \<Rightarrow> nat \<Rightarrow> 'r manager \<Rightarrow> 'r manager" where
  "timer_fires now t m =
     (if t \<in> set (pending_timers m) then
        (let m' = m\<lparr>pending_timers := removeAll t (pending_timers m)\<rparr> in
         case sleeper t (loops m') of None \<Rightarrow> m' | Some i \<Rightarrow> poll_top now i m')
      else m)"

fun mgr_step :: "'r manager \<Rightarrow> 'r mgr_event \<Rightarrow> 'r manager" where
  "mgr_step m (MStart now) = manager_start now m"
| "mgr_step m MStop = manager_stop m"
| "mgr_step m (MEnqueue uid now ty dat) = m\<lparr>mqueue := fst (enqueue uid now ty dat (mqueue m))\<rparr>"
| "mgr_step m (MFinished now i res) =
     (case in_flight m i of
        None \<Rightarrow> m
      | Some j \<Rightarrow> (case res of Inl err \<Rightarrow> job_failed now i j err m | Inr r \<Rightarrow> job_succeeded now i j r m))"
| "mgr_step m (MTimer now t) = timer_fires now t m"

abbreviation mgr_run :: "'r manager \<Rightarrow> 'r mgr_event list \<Rightarrow> 'r manager" where
  "mgr_run \<equiv> foldl mgr_step"

section \<open>Where the jobs are\<close>

fun phase_jobs :: "phase \<Rightarrow> job multiset" where
  "phase_jobs (Processing j) = {#j#}"
| "phase_jobs _ = {#}"

definition flying :: "phase list \<Rightarrow> job multiset" where
  "flying ps = sum_list (map phase_jobs ps)"

definition all_jobs :: "'r manager \<Rightarrow> job multiset" where
  "all_jobs m = mset (items (mqueue m)) + flying (loops m)"

lemma flying_snoc [simp]: "flying (ps @ [p]) = flying ps + phase_jobs p"
  by (simp add: flying_def)

lemma flying_update:
  "i < length ps \<Longrightarrow> flying (ps[i := p]) + phase_jobs (ps ! i) = flying ps + phase_jobs p"
proof (induction ps arbitrary: i)
  case (Cons q ps)
  then show ?case by (cases i) (auto simp: flying_def ac_simps)
qed simp

lemma in_flight_Some: "in_flight m i = Some j \<longleftrightarrow> i < length (loops m) \<and> loops m ! i = Processing j"
  by (auto simp: in_flight_def split: phase.splits)

lemma sleeper_Some: "sleeper t ps = Some i \<Longrightarrow> i < length ps \<and> ps ! i = Sleeping t"
  by (induction ps arbitrary: i) (auto split: if_splits)

lemma all_jobs_poll_drain:
  assumes "i < length (loops m)"
  shows "all_jobs (poll_drain now i m) + phase_jobs (loops m ! i) = all_jobs m"
  using flying_update [OF assms, of "Processing _"] flying_update [OF assms, of "Sleeping (next_timer m)"]
  by (auto simp: poll_drain_def all_jobs_def jq.take_Some jq.take_None ac_simps split: prod.splits option.splits)

lemma all_jobs_poll_top:
  assumes "i < length (loops m)"
  shows "all_jobs (poll_top now i m) + phase_jobs (loops m ! i) = all_jobs m"
  using assms flying_update [OF assms, of Exited]
  by (simp add: poll_top_def all_jobs_poll_drain) (simp add: all_jobs_def)

lemma all_jobs_start: "all_jobs (manager_start now m) = all_jobs m"
  using all_jobs_poll_top [of "length (loops m)"
      "m\<lparr>running := True, mlog := mlog m @ [LStarted], loops := loops m @ [Exited]\<rparr>" now]
  by (simp add: manager_start_def) (simp add: all_jobs_def)

lemma all_jobs_stop: "all_jobs (manager_stop m) = all_jobs m"
  by (simp add: manager_stop_def all_jobs_def Let_def split: option.splits)

lemma all_jobs_timer: "all_jobs (timer_fires now t m) = all_jobs m"
proof (cases "sleeper t (loops m)")
  case None
  then show ?thesis by (simp add: timer_fires_def all_jobs_def)
next
  case (Some i)
  then have "i < length (loops m)" "loops m ! i = Sleeping t" by (auto dest: sleeper_Some)
  with Some show ?thesis
    using all_jobs_poll_top [of i "m\<lparr>pending_timers := removeAll t (pending_timers m)\<rparr>" now]
    by (simp add: timer_fires_def) (simp add: all_jobs_def)
qed

lemma all_jobs_enqueue: "all_jobs (mgr_step m (MEnqueue uid now ty dat)) = add_mset (new_job uid now ty dat) (all_jobs m)"
  by (simp add: all_jobs_def enqueue_def)

lemma all_jobs_succeeded:
  assumes "in_flight m i = Some j"
  shows "add_mset j (all_jobs (job_succeeded now i j r m)) = all_jobs m"
  using assms all_jobs_poll_drain [of i "if onResult m then m\<lparr>calls := calls m @ [(j, r)]\<rparr> else m" now]
  by (auto simp: in_flight_Some job_succeeded_def all_jobs_def split: if_splits)

lemma requeue_items:
  "requeue now j q = (q', j', True) \<Longrightarrow> items q' = items q @ [j'] \<and> j' = j\<lparr>attempts := Suc (attempts j)\<rparr>"
  by (auto simp: requeue_def Let_def split: if_splits)

lemma set_retryAfter_snoc:
  "items q = js @ [j] \<Longrightarrow> items (set_retryAfter t q) = js @ [j\<lparr>retryAfter := Some t\<rparr>]"
  by (simp add: set_retryAfter_def)

text \<open>After a failure the job is back in the queue with one more attempt, or gone for good.\<close>

definition retried :: "time \<Rightarrow> job \<Rightarrow> job" where
  "retried now j =
     j\<lparr>attempts := Suc (attempts j), retryAfter := Some (now + retry_delay (Suc (attempts j)))\<rparr>"

definition gives_up :: "job \<Rightarrow> bool" where
  "gives_up j = (maxAttempts j \<le> Suc (attempts j))"

lemma all_jobs_failed:
  assumes "in_flight m i = Some j"
  shows "add_mset j (all_jobs (job_failed now i j err m)) =
    (if gives_up j then all_jobs m else add_mset (retried now j) (all_jobs m))"
proof -
  obtain q j' ok where rq: "requeue now j (mqueue m) = (q, j', ok)" by (cases "requeue now j (mqueue m)") auto
  have ok: "ok = (\<not> gives_up j)"
    using rq by (auto simp: requeue_def gives_up_def Let_def split: if_splits)
  have fl: "i < length (loops m)" "loops m ! i = Processing j"
    using assms by (auto simp: in_flight_Some)
  show ?thesis
  proof (cases ok)
    case True
    have q: "items q = items (mqueue m) @ [j\<lparr>attempts := Suc (attempts j)\<rparr>]" "j' = j\<lparr>attempts := Suc (attempts j)\<rparr>"
      using requeue_items rq True by auto
    then have "items (set_retryAfter (now + retry_delay (attempts j')) q) = items (mqueue m) @ [retried now j]"
      by (simp add: set_retryAfter_snoc retried_def)
    moreover obtain m' where "job_failed now i j err m = poll_drain now i m'"
      "mqueue m' = set_retryAfter (now + retry_delay (attempts j')) q" "loops m' = loops m"
      using rq True by (simp add: job_failed_def Let_def)
    ultimately show ?thesis
      using True ok fl all_jobs_poll_drain [of i m' now] by (simp add: all_jobs_def)
  next
    case False
    then have "mset (items q) = mset (items (mqueue m))" using jq.put_back_False [of now j "mqueue m" q j'] rq by simp
    moreover obtain m' where "job_failed now i j err m = poll_drain now i m'" "mqueue m' = q" "loops m' = loops m"
      using rq False by (simp add: job_failed_def Let_def)
    ultimately show ?thesis
      using False ok fl all_jobs_poll_drain [of i m' now] by (simp add: all_jobs_def)
  qed
qed

section \<open>Invariant\<close>

definition mgr_inv :: "'r manager \<Rightarrow> bool" where
  "mgr_inv m =
     ((\<forall>j\<in>#all_jobs m. attempts j < maxAttempts j) \<and> length (dead (mqueue m)) \<le> MAX_DEAD_LETTERS)"

lemma dead_poll_drain [simp]: "dead (mqueue (poll_drain now i m)) = dead (mqueue m)"
  by (auto simp: poll_drain_def dequeue_def split: prod.splits option.splits)

lemma dead_poll_top [simp]: "dead (mqueue (poll_top now i m)) = dead (mqueue m)"
  by (simp add: poll_top_def)

lemma dead_set_retryAfter [simp]: "dead (set_retryAfter t q) = dead q"
  by (simp add: set_retryAfter_def)

lemma dead_failed_step:
  "dead (mqueue (job_failed now i j err m)) =
     (if gives_up j then dead (failed now (j\<lparr>attempts := Suc (attempts j)\<rparr>) (mqueue m)) else dead (mqueue m))"
  by (simp add: job_failed_def requeue_def gives_up_def Let_def)

lemma dead_bound_failed: "length (dead (failed now j q)) \<le> MAX_DEAD_LETTERS"
  by (simp add: failed_def evict_dead_length)

lemma dead_start: "dead (mqueue (manager_start now m)) = dead (mqueue m)"
  by (simp add: manager_start_def)

lemma dead_stop: "dead (mqueue (manager_stop m)) = dead (mqueue m)"
  by (simp add: manager_stop_def Let_def split: option.splits)

lemma dead_timer: "dead (mqueue (timer_fires now t m)) = dead (mqueue m)"
  by (simp add: timer_fires_def Let_def split: option.splits)

lemma dead_succeeded: "dead (mqueue (job_succeeded now i j r m)) = dead (mqueue m)"
  by (simp add: job_succeeded_def)

lemmas dead_rules = dead_start dead_stop dead_timer dead_succeeded dead_failed_step
lemmas all_jobs_rules = all_jobs_start all_jobs_stop all_jobs_timer all_jobs_enqueue

lemma flying_mem: "in_flight m i = Some j \<Longrightarrow> j \<in># all_jobs m"
  using all_jobs_succeeded [of m i j 0 undefined] by (metis union_single_eq_member add_mset_add_single union_commute)

lemma mgr_inv_finished:
  assumes "mgr_inv m" "in_flight m i = Some j"
  shows "mgr_inv (job_succeeded now i j r m)" and "mgr_inv (job_failed now i j err m)"
proof -
  have succ: "set_mset (all_jobs (job_succeeded now i j r m)) \<subseteq> set_mset (all_jobs m)"
    using arg_cong [OF all_jobs_succeeded [OF assms(2)], of set_mset] by auto
  then show "mgr_inv (job_succeeded now i j r m)"
    using assms(1) by (auto simp: mgr_inv_def dead_succeeded)
  have "set_mset (all_jobs (job_failed now i j err m)) \<subseteq>
      (if gives_up j then set_mset (all_jobs m) else insert (retried now j) (set_mset (all_jobs m)))"
    using arg_cong [OF all_jobs_failed [OF assms(2)], of set_mset now err] by (auto split: if_splits)
  moreover have "\<not> gives_up j \<Longrightarrow> attempts (retried now j) < maxAttempts (retried now j)"
    by (simp add: gives_up_def retried_def)
  ultimately show "mgr_inv (job_failed now i j err m)"
    using assms(1) by (auto simp: mgr_inv_def dead_failed_step dead_bound_failed split: if_splits)
qed

lemma mgr_inv_step: "mgr_inv m \<Longrightarrow> mgr_inv (mgr_step m e)"
proof (cases e)
  case (MEnqueue uid now ty dat)
  assume "mgr_inv m"
  then have "\<forall>j\<in>#all_jobs (mgr_step m e). attempts j < maxAttempts j"
    unfolding MEnqueue all_jobs_enqueue by (auto simp: mgr_inv_def new_job_def)
  moreover have "dead (mqueue (mgr_step m e)) = dead (mqueue m)"
    by (simp add: MEnqueue enqueue_def)
  ultimately show ?thesis using \<open>mgr_inv m\<close> by (simp add: mgr_inv_def)
next
  case (MFinished now i res)
  assume "mgr_inv m"
  with MFinished show ?thesis
    by (auto split: option.splits sum.splits intro: mgr_inv_finished)
qed (auto simp: mgr_inv_def all_jobs_rules dead_rules)

lemma mgr_inv_new [simp]: "mgr_inv (new_manager empty_queue cb)"
  by (simp add: mgr_inv_def new_manager_def all_jobs_def flying_def empty_queue_def)

interpretation mgr: event_machine mgr_step mgr_inv
  by unfold_locales (rule mgr_inv_step)

section \<open>Work: how often a job can still run\<close>

definition runs_job :: "uuid \<Rightarrow> 'r manager \<Rightarrow> 'r mgr_event \<Rightarrow> bool" where
  "runs_job u m e =
     (case e of MFinished now i res \<Rightarrow> (case in_flight m i of Some j \<Rightarrow> job_id j = u | None \<Rightarrow> False) | _ \<Rightarrow> False)"

definition enqueues_job :: "uuid \<Rightarrow> 'r mgr_event \<Rightarrow> nat" where
  "enqueues_job u e = (case e of MEnqueue uid now ty dat \<Rightarrow> (if uid = u then 3 else 0) | _ \<Rightarrow> 0)"

lemma work_finished:
  assumes "mgr_inv m" "in_flight m i = Some j"
  shows "jq.work u (all_jobs (job_succeeded now i j r m)) + (if job_id j = u then 1 else 0) \<le> jq.work u (all_jobs m)"
    and "jq.work u (all_jobs (job_failed now i j err m)) + (if job_id j = u then 1 else 0) \<le> jq.work u (all_jobs m)"
proof -
  have budget: "attempts j < maxAttempts j"
    using assms flying_mem by (auto simp: mgr_inv_def)
  have "jq.work u (all_jobs m) = jq.share u j + jq.work u (all_jobs (job_succeeded now i j r m))"
    by (simp flip: all_jobs_succeeded [OF assms(2), of now r])
  then show "jq.work u (all_jobs (job_succeeded now i j r m)) + (if job_id j = u then 1 else 0) \<le> jq.work u (all_jobs m)"
    using budget by (auto simp: jq.share_def)
  have "jq.share u j + jq.work u (all_jobs (job_failed now i j err m)) =
      (if gives_up j then 0 else jq.share u (retried now j)) + jq.work u (all_jobs m)"
    using arg_cong [OF all_jobs_failed [OF assms(2), of now err], of "jq.work u"] by (simp split: if_splits)
  then show "jq.work u (all_jobs (job_failed now i j err m)) + (if job_id j = u then 1 else 0) \<le> jq.work u (all_jobs m)"
    using budget by (auto simp: jq.share_def retried_def gives_up_def split: if_splits)
qed

interpretation job_runs: work_machine mgr_step mgr_inv "\<lambda>m. jq.work u (all_jobs m)" "runs_job u" "enqueues_job u" for u
proof unfold_locales
  fix m :: "'a manager" and e
  assume inv: "mgr_inv m"
  show "jq.work u (all_jobs (mgr_step m e)) + (if runs_job u m e then 1 else 0) \<le> jq.work u (all_jobs m) + enqueues_job u e"
  proof (cases e)
    case (MEnqueue uid now ty dat)
    then show ?thesis
      unfolding MEnqueue all_jobs_enqueue
      by (simp add: runs_job_def enqueues_job_def jq.share_def new_job_def)
  next
    case (MFinished now i res)
    show ?thesis
    proof (cases "in_flight m i")
      case (Some j)
      then show ?thesis
        using MFinished work_finished [OF inv Some, of u now]
        by (cases res) (simp_all add: runs_job_def enqueues_job_def)
    qed (simp add: MFinished runs_job_def enqueues_job_def)
  qed (auto simp: runs_job_def enqueues_job_def all_jobs_rules)
qed

text \<open>How often \<open>processJob\<close> ended (with a result or an error) on the job \<open>u\<close> along a run.\<close>

fun job_run_count :: "uuid \<Rightarrow> 'r manager \<Rightarrow> 'r mgr_event list \<Rightarrow> nat" where
  "job_run_count u m [] = 0"
| "job_run_count u m (e # es) = (if runs_job u m e then 1 else 0) + job_run_count u (mgr_step m e) es"

fun enqueued :: "'r mgr_event list \<Rightarrow> uuid list" where
  "enqueued [] = []"
| "enqueued (MEnqueue uid now ty dat # es) = uid # enqueued es"
| "enqueued (_ # es) = enqueued es"

lemma job_run_count_eq: "job_run_count u m es = job_runs.uses_count u m es"
  by (induction es arbitrary: m) auto

lemma enqueues_count: "sum_list (map (enqueues_job u) es) = 3 * count_list (enqueued es) u"
  by (induction es rule: enqueued.induct) (auto simp: enqueues_job_def)

section \<open>Accounting: no job is lost\<close>

fun dead_ids :: "log_entry list \<Rightarrow> uuid multiset" where
  "dead_ids [] = {#}"
| "dead_ids (LDead u n # ls) = add_mset u (dead_ids ls)"
| "dead_ids (_ # ls) = dead_ids ls"

lemma dead_ids_append [simp]: "dead_ids (xs @ ys) = dead_ids xs + dead_ids ys"
  by (induction xs rule: dead_ids.induct) auto

text \<open>The ids of the jobs waiting or running, of those reported to \<open>onResult\<close>, and of those given up.\<close>

definition accounted :: "'r manager \<Rightarrow> uuid multiset" where
  "accounted m =
     image_mset job_id (all_jobs m) + mset (map (job_id \<circ> fst) (calls m)) + dead_ids (mlog m)"

lemma poll_drain_frame [simp]:
  "calls (poll_drain now i m) = calls m" "mlog (poll_drain now i m) = mlog m"
  "onResult (poll_drain now i m) = onResult m"
  by (auto simp: poll_drain_def split: prod.splits option.splits)

lemma poll_top_frame [simp]:
  "calls (poll_top now i m) = calls m" "mlog (poll_top now i m) = mlog m"
  "onResult (poll_top now i m) = onResult m"
  by (auto simp: poll_top_def)

lemma onResult_step [simp]: "onResult (mgr_step m e) = onResult m"
  by (cases e) (auto simp: manager_start_def manager_stop_def job_failed_def job_succeeded_def timer_fires_def Let_def
      split: option.splits sum.splits prod.splits bool.splits)

lemma accounted_finished:
  assumes "in_flight m i = Some j" "onResult m"
  shows "accounted (job_succeeded now i j r m) = accounted m"
    and "accounted (job_failed now i j err m) = accounted m"
proof -
  have "add_mset (job_id j) (image_mset job_id (all_jobs (job_succeeded now i j r m))) = image_mset job_id (all_jobs m)"
    using arg_cong [OF all_jobs_succeeded [OF assms(1), of now r], of "image_mset job_id"] by simp
  then show "accounted (job_succeeded now i j r m) = accounted m"
    using assms(2) by (simp add: accounted_def job_succeeded_def)
  have "add_mset (job_id j) (image_mset job_id (all_jobs (job_failed now i j err m))) =
      (if gives_up j then {#} else {#job_id j#}) + image_mset job_id (all_jobs m)"
    using arg_cong [OF all_jobs_failed [OF assms(1), of now err], of "image_mset job_id"]
    by (simp add: retried_def split: if_splits)
  moreover have "dead_ids (mlog (job_failed now i j err m)) =
      dead_ids (mlog m) + (if gives_up j then {#job_id j#} else {#})"
    by (simp add: job_failed_def requeue_def gives_up_def Let_def)
  moreover have "calls (job_failed now i j err m) = calls m"
    by (simp add: job_failed_def Let_def split: prod.splits bool.splits)
  ultimately show "accounted (job_failed now i j err m) = accounted m"
    by (auto simp: accounted_def split: if_splits)
qed

lemma accounted_step:
  assumes "onResult m"
  shows "accounted (mgr_step m e) = accounted m + mset (enqueued [e])"
proof (cases e)
  case (MEnqueue uid now ty dat)
  show ?thesis
    unfolding accounted_def MEnqueue all_jobs_enqueue by (simp add: new_job_def)
next
  case (MFinished now i res)
  with assms accounted_finished show ?thesis
    by (auto split: option.splits sum.splits)
next
  case (MStart now)
  then show ?thesis
    by (simp add: accounted_def all_jobs_start) (simp add: manager_start_def)
next
  case MStop
  then show ?thesis
    by (simp add: accounted_def all_jobs_stop) (simp add: manager_stop_def Let_def split: option.splits)
next
  case (MTimer now t)
  then show ?thesis
    by (simp add: accounted_def all_jobs_timer) (simp add: timer_fires_def Let_def split: option.splits)
qed

lemma enqueued_Cons: "mset (enqueued (e # es)) = mset (enqueued [e]) + mset (enqueued es)"
  by (cases e) auto

lemma accounted_run: "onResult m \<Longrightarrow> accounted (mgr_run m es) = accounted m + mset (enqueued es)"
proof (induction es arbitrary: m)
  case (Cons e es)
  then show ?case by (simp add: accounted_step enqueued_Cons [of e es] del: enqueued.simps)
qed simp

section \<open>Properties\<close>

text \<open>
  C1: Every job submitted to the manager is at any time in exactly one place: it
  waits in the queue or is running, or it was reported to \<open>onResult\<close>, or it was
  logged as moved to the dead letters, in every interleaving of submissions,
  completions, failures, timers, starts and stops.
\<close>

theorem manager_accounts_for_every_job:
  "accounted (mgr_run (new_manager empty_queue True) es) = mset (enqueued es)"
  by (simp add: accounted_run new_manager_def) (simp add: accounted_def all_jobs_def flying_def empty_queue_def)

text \<open>
  C16: However submissions, completions, failures and timers interleave,
  \<open>processJob\<close> ends at most three times on a job for each time it was submitted.
\<close>

theorem job_runs_at_most_three_times:
  "job_run_count u (new_manager empty_queue cb) es \<le> 3 * count_list (enqueued es) u"
  using job_runs.uses_bounded [of "new_manager empty_queue cb" u es]
  by (simp add: job_run_count_eq enqueues_count)
    (simp add: new_manager_def all_jobs_def flying_def empty_queue_def)

lemma attempts_retried [simp]: "attempts (retried now j) = Suc (attempts j)" "job_id (retried now j) = job_id j"
  by (simp_all add: retried_def)

lemma retry_delay_bounds: "1 \<le> n \<Longrightarrow> 1000 \<le> retry_delay n \<and> retry_delay n \<le> 30000"
  by (simp add: retry_delay_def)

lemma retry_delay_mono: "retry_delay n \<le> retry_delay (Suc n)"
  by (cases n) (simp_all add: retry_delay_def min_def)

lemma eligible_retried: "0 \<le> now \<Longrightarrow> eligible t (retried now j) \<longleftrightarrow> now + retry_delay (Suc (attempts j)) \<le> t"
  using retry_delay_bounds [of "Suc (attempts j)"] by (auto simp: eligible_def retried_def)

lemma retry_delay_doubles: "retry_delay (Suc (Suc n)) = min (2 * retry_delay (Suc n)) 30000"
  by (simp add: retry_delay_def min_def)

text \<open>
  C17: When a running job fails with attempts left, the same job with one more
  attempt and a retry time is among the manager's jobs again, and nothing else of it has
  changed; no \<open>dequeue\<close> takes it before its backoff is over: it becomes eligible exactly
  at the failure time plus a delay, which is between one second and thirty seconds and
  doubles with each further failure until it is thirty seconds.
\<close>

theorem failed_job_waits_for_its_backoff:
  assumes "in_flight m i = Some j" and "\<not> gives_up j" and "0 \<le> now"
  shows "retried now j \<in># all_jobs (mgr_step m (MFinished now i (Inl err)))
    \<and> attempts (retried now j) = Suc (attempts j)
    \<and> (retried now j)\<lparr>attempts := attempts j, retryAfter := retryAfter j\<rparr> = j
    \<and> (eligible t (retried now j) \<longleftrightarrow> now + retry_delay (Suc (attempts j)) \<le> t)
    \<and> 1000 \<le> retry_delay (Suc (attempts j)) \<and> retry_delay (Suc (attempts j)) \<le> 30000
    \<and> retry_delay (Suc (Suc (attempts j))) = min (2 * retry_delay (Suc (attempts j))) 30000"
proof -
  have step: "mgr_step m (MFinished now i (Inl err)) = job_failed now i j err m"
    using assms(1) by simp
  have "add_mset j (all_jobs (job_failed now i j err m)) = add_mset (retried now j) (all_jobs m)"
    using all_jobs_failed [OF assms(1), of now err] assms(2) by simp
  then have "retried now j \<in># add_mset j (all_jobs (job_failed now i j err m))" by simp
  moreover have "retried now j \<noteq> j"
    by (metis attempts_retried n_not_Suc_n)
  ultimately show ?thesis
    unfolding step using assms(3) retry_delay_bounds [of "Suc (attempts j)"] retry_delay_doubles [of "attempts j"]
    by (simp add: eligible_retried) (simp add: retried_def)
qed

text \<open>A manager that has just started its first job.\<close>

definition demo_manager :: "nat manager" where
  "demo_manager = mgr_run (new_manager empty_queue True) [MEnqueue ''j'' 0 ''x'' None, MStart 0]"

theorem failed_job_waits_for_its_backoff_witness:
  "(let j = new_job ''j'' 0 ''x'' None in
     retried 10 j \<in># all_jobs (mgr_step demo_manager (MFinished 10 0 (Inl TypeError)))
     \<and> \<not> eligible 1009 (retried 10 j) \<and> eligible 30010 (retried 10 j))"
proof -
  have "in_flight demo_manager 0 = Some (new_job ''j'' 0 ''x'' None)" "\<not> gives_up (new_job ''j'' 0 ''x'' None)"
    by code_simp+
  from failed_job_waits_for_its_backoff [OF this, of 10 TypeError 1009]
    failed_job_waits_for_its_backoff [OF this, of 10 TypeError 30010]
  show ?thesis by (simp add: Let_def)
qed

text \<open>
  A stopped manager starts no new poll: stopping leaves every job where it is,
  and a poll timer that fires afterwards only ends its loop; the queue is untouched
  and no job starts, until \<open>start\<close> is called again.
\<close>

theorem stopped_manager_polls_nothing:
  "mqueue (timer_fires now t (manager_stop m)) = mqueue m
   \<and> flying (loops (timer_fires now t (manager_stop m))) = flying (loops m)
   \<and> \<not> running (timer_fires now t (manager_stop m))"
proof -
  let ?m = "manager_stop m"
  have stop: "mqueue ?m = mqueue m" "loops ?m = loops m" "\<not> running ?m"
    by (auto simp: manager_stop_def Let_def split: option.splits)
  have "mqueue (timer_fires now t ?m) = mqueue ?m \<and> \<not> running (timer_fires now t ?m)"
    using stop by (simp add: timer_fires_def poll_top_def Let_def split: option.splits)
  moreover from this have "flying (loops (timer_fires now t ?m)) = flying (loops ?m)"
    using all_jobs_timer [of now t ?m] by (simp add: all_jobs_def)
  ultimately show ?thesis by (simp add: stop)
qed

end
