(* ===== verification/Base64.thy ===== *)
theory Base64
  imports JsLang
begin

text \<open>
  Base64 as the runtime provides it: \<open>btoa\<close> and \<open>toString('base64')\<close> encode,
  \<open>atob\<close> decodes strictly (the forgiving-base64 algorithm of the platform: white
  space is skipped, anything else outside the alphabet is an error), and
  \<open>Buffer.from(s, 'base64')\<close> decodes leniently (both alphabets, other characters
  skipped).
\<close>

definition b64_char :: "nat \<Rightarrow> char" where
  "b64_char n =
     (if n < 26 then char_of (65 + n)
      else if n < 52 then char_of (71 + n)
      else if n < 62 then char_of (n - 4)
      else if n = 62 then CHR ''+''
      else CHR ''/'')"

definition b64_value :: "char \<Rightarrow> nat option" where
  "b64_value c =
     (let n = (of_char c :: nat) in
      if 65 \<le> n \<and> n \<le> 90 then Some (n - 65)
      else if 97 \<le> n \<and> n \<le> 122 then Some (n - 71)
      else if 48 \<le> n \<and> n \<le> 57 then Some (n + 4)
      else if n = 43 then Some 62
      else if n = 47 then Some 63
      else None)"

text \<open>The 6-bit groups of a byte string, three bytes at a time.\<close>

fun sextets :: "byte list \<Rightarrow> nat list" where
  "sextets [] = []"
| "sextets [a] = [unat a div 4, unat a mod 4 * 16]"
| "sextets [a, b] = [unat a div 4, unat a mod 4 * 16 + unat b div 16, unat b mod 16 * 4]"
| "sextets (a # b # c # r) =
     [unat a div 4, unat a mod 4 * 16 + unat b div 16, unat b mod 16 * 4 + unat c div 64, unat c mod 64]
     @ sextets r"

definition b64_padding :: "nat \<Rightarrow> string" where
  "b64_padding n = (if n mod 3 = 0 then [] else if n mod 3 = 1 then ''=='' else ''='')"

definition btoa :: "byte list \<Rightarrow> string" where
  "btoa bs = map b64_char (sextets bs) @ b64_padding (length bs)"

text \<open>Bytes from 6-bit groups; the bits of an incomplete last byte are dropped.\<close>

fun unsextets :: "nat list \<Rightarrow> byte list" where
  "unsextets (w # x # y # z # r) =
     [of_nat (w * 4 + x div 16), of_nat (x mod 16 * 16 + y div 4), of_nat (y mod 4 * 64 + z)] @ unsextets r"
| "unsextets [w, x, y] = [of_nat (w * 4 + x div 16), of_nat (x mod 16 * 16 + y div 4)]"
| "unsextets [w, x] = [of_nat (w * 4 + x div 16)]"
| "unsextets _ = []"

definition ascii_ws :: "char \<Rightarrow> bool" where
  "ascii_ws c = (c \<in> {CHR 0x09, CHR 0x0A, CHR 0x0C, CHR 0x0D, CHR 0x20})"

definition strip_padding :: "string \<Rightarrow> string" where
  "strip_padding s =
     (if length s mod 4 \<noteq> 0 then s
      else if take 2 (rev s) = ''=='' then take (length s - 2) s
      else if take 1 (rev s) = ''='' then take (length s - 1) s
      else s)"

definition atob :: "string \<Rightarrow> byte list option" where
  "atob s =
     (let t = strip_padding (filter (\<lambda>c. \<not> ascii_ws c) s) in
      if length t mod 4 = 1 \<or> None \<in> set (map b64_value t) then None
      else Some (unsextets (map (the \<circ> b64_value) t)))"

definition url_safe :: "char \<Rightarrow> char" where
  "url_safe c = (if c = CHR ''-'' then CHR ''+'' else if c = CHR ''_'' then CHR ''/'' else c)"

definition buffer_from_base64 :: "string \<Rightarrow> byte list" where
  "buffer_from_base64 s = unsextets (List.map_filter (b64_value \<circ> url_safe) s)"

section \<open>Round trips\<close>

lemma b64_value_char: "n < 64 \<Longrightarrow> b64_value (b64_char n) = Some n"
  by (auto simp: b64_value_def b64_char_def Let_def)

lemma unat_byte: "unat (b :: byte) < 256"
  using unsigned_less [where ?'a = nat, of b] by simp

lemma sextets_bound: "n \<in> set (sextets bs) \<Longrightarrow> n < 64"
proof (induction bs rule: sextets.induct)
  case (2 a)
  then show ?case using unat_byte [of a] by auto
next
  case (3 a b)
  then show ?case using unat_byte [of a] unat_byte [of b] by auto
next
  case (4 a b c r)
  then show ?case using unat_byte [of a] unat_byte [of b] unat_byte [of c] by auto
qed simp

lemma join_bits: "x < k \<Longrightarrow> (y * k + x) div k = y" "x < k \<Longrightarrow> (y * k + x) mod k = (x :: nat)"
  by (simp_all add: div_add1_eq mult.commute)

lemma unsextets_sextets: "unsextets (sextets bs) = bs"
proof (induction bs rule: sextets.induct)
  case (2 a)
  then show ?case by (simp add: mult.commute [of _ 4])
next
  case (3 a b)
  have "unat b div 16 < 16" using unat_byte [of b] by auto
  then show ?case by (simp add: join_bits mult.commute [of _ 4])
next
  case (4 a b c r)
  have "unat b div 16 < 16" "unat c div 64 < 4" using unat_byte [of b] unat_byte [of c] by auto
  with 4 show ?case by (simp add: join_bits mult.commute [of _ 4])
qed simp

lemma map_value_char: "\<forall>n\<in>set ns. n < 64 \<Longrightarrow> map (the \<circ> b64_value) (map b64_char ns) = ns"
  by (induction ns) (auto simp: b64_value_char)

lemma b64_char_plain:
  assumes "n < 64"
  shows "\<not> ascii_ws (b64_char n)" "b64_char n \<noteq> CHR ''=''" "url_safe (b64_char n) = b64_char n"
proof -
  define c where "c = b64_char n"
  have v: "b64_value c \<noteq> None" using b64_value_char [OF assms] by (simp add: c_def)
  have "\<not> ascii_ws c"
  proof
    assume "ascii_ws c"
    then have "b64_value c = None" by (auto simp: ascii_ws_def b64_value_def)
    with v show False ..
  qed
  moreover have "c \<noteq> CHR ''=''" "c \<noteq> CHR ''-''" "c \<noteq> CHR ''_''"
    using v by (auto simp: b64_value_def)
  ultimately show "\<not> ascii_ws (b64_char n)" "b64_char n \<noteq> CHR ''=''" "url_safe (b64_char n) = b64_char n"
    by (simp_all add: c_def url_safe_def)
qed

lemma length_sextets: "length (sextets bs) = length bs + (length bs + 2) div 3"
  by (induction bs rule: sextets.induct) auto

lemma length_btoa: "length (btoa bs) = 4 * ((length bs + 2) div 3)"
proof -
  have "length bs mod 3 = 0 \<or> length bs mod 3 = 1 \<or> length bs mod 3 = 2" by arith
  then show ?thesis
    by (elim disjE) (auto simp: btoa_def b64_padding_def length_sextets, presburger+)
qed

lemma strip_padding_append:
  assumes "length (xs @ p) mod 4 = 0" "p \<in> {[], ''='', ''==''}" "CHR ''='' \<notin> set xs"
  shows "strip_padding (xs @ p) = xs"
proof (cases xs rule: rev_cases)
  case Nil
  with assms show ?thesis by (auto simp: strip_padding_def)
next
  case (snoc ys y)
  with assms(3) have "y \<noteq> CHR ''=''" by auto
  with assms(1,2) snoc show ?thesis
    unfolding strip_padding_def by (elim insertE emptyE) simp_all
qed

lemma strip_padding_btoa: "strip_padding (btoa bs) = map b64_char (sextets bs)"
  unfolding btoa_def
proof (rule strip_padding_append)
  show "length (map b64_char (sextets bs) @ b64_padding (length bs)) mod 4 = 0"
    using length_btoa [of bs] by (simp add: btoa_def)
  show "b64_padding (length bs) \<in> {[], ''='', ''==''}" by (simp add: b64_padding_def)
  show "CHR ''='' \<notin> set (map b64_char (sextets bs))"
    using sextets_bound [of _ bs] b64_char_plain(2) by fastforce
qed

lemma filter_ws_btoa: "filter (\<lambda>c. \<not> ascii_ws c) (btoa bs) = btoa bs"
proof -
  have "\<not> ascii_ws c" if "c \<in> set (btoa bs)" for c
    using that sextets_bound [of _ bs] b64_char_plain(1)
    by (auto simp: btoa_def b64_padding_def ascii_ws_def split: if_splits)
  then show ?thesis by (simp add: filter_id_conv)
qed

lemma sextets_not_one_mod_4: "length (sextets bs) mod 4 \<noteq> 1"
  by (simp add: length_sextets) presburger

lemma atob_btoa: "atob (btoa bs) = Some bs"
proof -
  have "None \<notin> set (map b64_value (map b64_char (sextets bs)))"
    using sextets_bound [of _ bs] by (auto simp: b64_value_char)
  moreover have "map (the \<circ> b64_value) (map b64_char (sextets bs)) = sextets bs"
    by (rule map_value_char) (use sextets_bound in blast)
  ultimately show ?thesis
    using sextets_not_one_mod_4 [of bs]
    by (simp add: atob_def filter_ws_btoa strip_padding_btoa Let_def unsextets_sextets del: map_map)
qed

lemma padding_skipped: "List.map_filter (b64_value \<circ> url_safe) (b64_padding k) = []"
  by (simp add: map_filter_simps b64_padding_def b64_value_def url_safe_def)

lemma buffer_from_btoa: "buffer_from_base64 (btoa bs) = bs"
proof -
  have "List.map_filter (b64_value \<circ> url_safe) (map b64_char ns @ b64_padding k) = ns" if "\<forall>n\<in>set ns. n < 64" for ns k
    using that by (induction ns) (simp_all add: padding_skipped map_filter_simps b64_char_plain b64_value_char)
  then show ?thesis
    using sextets_bound [of _ bs] by (simp add: buffer_from_base64_def btoa_def unsextets_sextets)
qed

lemma btoa_ascii: "c \<in> set (btoa bs) \<Longrightarrow> (of_char c :: nat) < 128"
proof -
  have "(of_char (b64_char n) :: nat) < 128" if "n < 64" for n
    using that by (auto simp: b64_char_def of_char_of)
  then show "c \<in> set (btoa bs) \<Longrightarrow> (of_char c :: nat) < 128"
    using sextets_bound by (auto simp: btoa_def b64_padding_def split: if_splits)
qed

end
