(* ===== verification/Doubles.thy ===== *)
theory Doubles
  imports JsLang
begin

text \<open>
  Arithmetic on the non-negative finite numbers of JavaScript, which are IEEE 754 doubles. The
  pair \<open>(m, k)\<close> stands for \<open>m / 2 ^ k\<close>. A result is rounded to 53 significant bits, or to a
  multiple of \<open>2 ^ - 1074\<close> below the normal range, halves to even; a number beyond the largest
  double keeps its size instead of becoming \<open>Infinity\<close>, which makes no difference to a loop that
  it ends.
\<close>

section \<open>Rounding\<close>

type_synonym double = "int \<times> nat"

function bit_length :: "int \<Rightarrow> nat" where
  "bit_length n = (if n \<le> 0 then 0 else Suc (bit_length (n div 2)))"
  by pat_completeness auto
termination
  by (relation "measure nat") auto

declare bit_length.simps [simp del]

definition round_even :: "int \<Rightarrow> int \<Rightarrow> int" where
  "round_even a b =
     (let q = a div b; r = a mod b in
      if 2 * r < b then q else if b < 2 * r then q + 1 else if even q then q else q + 1)"

text \<open>The double nearest to \<open>p / q\<close>.\<close>

definition double_of :: "int \<Rightarrow> int \<Rightarrow> double" where
  "double_of p q =
     (let t = bit_length (p div q) in
      if p \<le> 0 then (0, 0)
      else if t = 0 then (let k = min 1074 (bit_length ((q - 1) div p) + 52) in (round_even (p * 2 ^ k) q, k))
      else if t \<le> 53 then (round_even (p * 2 ^ (53 - t)) q, 53 - t)
      else (round_even p (q * 2 ^ (t - 53)) * 2 ^ (t - 53), 0))"

definition double_add :: "double \<Rightarrow> double \<Rightarrow> double" where
  "double_add a b = double_of (fst a * 2 ^ snd b + fst b * 2 ^ snd a) (2 ^ (snd a + snd b))"

text \<open>The integer part, as \<open>subarray\<close> takes it, and the comparison with a length.\<close>

definition double_floor :: "double \<Rightarrow> nat" where
  "double_floor a = nat (fst a div 2 ^ snd a)"

definition double_below :: "double \<Rightarrow> nat \<Rightarrow> bool" where
  "double_below a n = (fst a < int n * 2 ^ snd a)"

text \<open>The double of a positive number of a JSON text, and zero for any other value.\<close>

definition number_double :: "json \<Rightarrow> double" where
  "number_double v =
     (case v of
        JNum n \<Rightarrow> double_of n 1
      | JDec m k \<Rightarrow> double_of m (10 ^ k)
      | _ \<Rightarrow> (0, 0))"

section \<open>Bounds of the rounding\<close>

lemma bit_length_bounds: "0 < n \<Longrightarrow> 2 ^ (bit_length n - 1) \<le> n \<and> n < 2 ^ bit_length n \<and> 0 < bit_length n"
proof (induction n rule: bit_length.induct)
  case (1 n)
  show ?case
  proof (cases "n = 1")
    case True
    then show ?thesis by (simp add: bit_length.simps)
  next
    case False
    with 1 have ih: "2 ^ (bit_length (n div 2) - 1) \<le> n div 2" "n div 2 < 2 ^ bit_length (n div 2)" "0 < bit_length (n div 2)"
      by auto
    then obtain l where l: "bit_length (n div 2) = Suc l" by (cases "bit_length (n div 2)") auto
    have "bit_length n = Suc (Suc l)" using 1 l by (subst bit_length.simps) simp
    with ih l show ?thesis by auto
  qed
qed

lemma bit_length_zero: "bit_length n = 0 \<longleftrightarrow> n \<le> 0"
  by (subst bit_length.simps) simp

lemma bit_length_le: "0 < n \<Longrightarrow> n < 2 ^ t \<Longrightarrow> bit_length n \<le> t"
proof (rule ccontr)
  assume "0 < n" "n < 2 ^ t" "\<not> bit_length n \<le> t"
  then have "(2 :: int) ^ t \<le> 2 ^ (bit_length n - 1)" by (intro power_increasing) auto
  moreover have "2 ^ (bit_length n - 1) \<le> n" using bit_length_bounds [OF \<open>0 < n\<close>] by blast
  ultimately show False using \<open>n < 2 ^ t\<close> by linarith
qed

lemma round_even_ge: "a div b \<le> round_even a b"
  by (simp add: round_even_def Let_def)

lemma round_even_exact: "0 < b \<Longrightarrow> round_even (n * b) b = n"
  by (simp add: round_even_def)

text \<open>Rounding does not go below an integer that a double can hold.\<close>

lemma double_of_floor_ge:
  assumes "0 \<le> n" "n < 2 ^ 53" "n * q \<le> p" "0 < q"
  shows "n \<le> int (double_floor (double_of p q))"
proof (cases "n = 0")
  case False
  with assms have pos: "0 < p" "0 < n" by (auto intro: less_le_trans [of 0 "n * q"])
  have quot: "n \<le> p div q" using assms(3,4) by (simp add: zdiv_mono1 [of "n * q" p q, simplified])
  let ?t = "bit_length (p div q)"
  have t: "?t \<noteq> 0" using quot pos by (simp add: bit_length_zero)
  show ?thesis
  proof (cases "?t \<le> 53")
    case True
    let ?k = "53 - ?t"
    have "n * 2 ^ ?k * q \<le> p * 2 ^ ?k" using assms(3) by (simp add: mult.commute mult.left_commute)
    then have "n * 2 ^ ?k \<le> (p * 2 ^ ?k) div q"
      using zdiv_mono1 [of "n * 2 ^ ?k * q" "p * 2 ^ ?k" q] assms(4) by simp
    then have "n * 2 ^ ?k \<le> round_even (p * 2 ^ ?k) q" using round_even_ge order_trans by blast
    then have "n \<le> round_even (p * 2 ^ ?k) q div 2 ^ ?k"
      using zdiv_mono1 [of "n * 2 ^ ?k" _ "2 ^ ?k"] by simp
    moreover have "double_of p q = (round_even (p * 2 ^ ?k) q, ?k)"
      using True t pos by (simp add: double_of_def Let_def)
    ultimately show ?thesis using pos by (simp add: double_floor_def)
  next
    case False
    let ?s = "?t - 53"
    have "2 ^ (?t - 1) \<le> p div q" using bit_length_bounds [of "p div q"] quot pos by auto
    then have "2 ^ (?t - 1) div 2 ^ ?s \<le> p div q div (2 ^ ?s :: int)" by (intro zdiv_mono1) auto
    moreover have "?t - 1 = 52 + ?s" using False by simp
    then have "(2 :: int) ^ (?t - 1) = 2 ^ 52 * 2 ^ ?s" by (simp only: power_add)
    moreover have "p div q div 2 ^ ?s = p div (q * 2 ^ ?s)" using assms(4) by (simp add: zdiv_zmult2_eq)
    ultimately have "2 ^ 52 \<le> p div (q * 2 ^ ?s)" by simp
    then have "2 ^ 52 \<le> round_even p (q * 2 ^ ?s)" using round_even_ge order_trans by blast
    moreover have "(2 :: int) ^ 1 \<le> 2 ^ ?s" using False by (intro power_increasing) auto
    ultimately have "2 ^ 52 * 2 \<le> round_even p (q * 2 ^ ?s) * 2 ^ ?s" by (intro mult_mono) auto
    moreover have "double_of p q = (round_even p (q * 2 ^ ?s) * 2 ^ ?s, 0)"
      using False t pos by (simp add: double_of_def Let_def)
    ultimately show ?thesis using assms(2) by (simp add: double_floor_def)
  qed
qed simp

lemma floor_times_le: "0 < b \<Longrightarrow> x div b * b \<le> (x :: int)"
  by (simp add: minus_mod_eq_div_mult [symmetric])

lemma floor_less_iff: "0 < b \<Longrightarrow> x div b < n \<longleftrightarrow> (x :: int) < n * b"
proof
  assume b: "0 < b" and "x div b < n"
  then have "(x div b + 1) * b \<le> n * b" by (intro mult_right_mono) auto
  moreover have "x - x mod b = x div b * b" by (rule minus_mod_eq_div_mult)
  moreover have "x mod b < b" using b by simp
  ultimately show "x < n * b" by (simp add: distrib_right)
next
  assume b: "0 < b" and less: "x < n * b"
  show "x div b < n"
  proof (rule ccontr)
    assume "\<not> x div b < n"
    then have "n * b \<le> x div b * b" using b by (intro mult_right_mono) auto
    with less floor_times_le [OF b, of x] show False by simp
  qed
qed

lemma double_floor_below: "0 \<le> fst a \<Longrightarrow> double_below a n \<longleftrightarrow> double_floor a < n"
  using floor_less_iff [of "2 ^ snd a" "fst a" "int n"]
  by (simp add: double_below_def double_floor_def nat_less_iff pos_imp_zdiv_nonneg_iff)

lemma double_of_nonneg: "0 < q \<Longrightarrow> 0 \<le> fst (double_of p q)"
proof -
  assume q: "0 < q"
  have "0 \<le> round_even a b" if "0 \<le> a" "0 < b" for a b
    using round_even_ge [of a b] that by (meson order_trans pos_imp_zdiv_nonneg_iff)
  then show ?thesis using q by (simp add: double_of_def Let_def)
qed

lemma double_add_floor:
  assumes "0 \<le> fst a" "0 \<le> fst b" "double_floor a < 2 ^ 53"
  shows "double_floor a \<le> double_floor (double_add a b)"
proof -
  let ?n = "fst a div 2 ^ snd a"
  have "?n * 2 ^ snd a \<le> fst a" by (rule floor_times_le) simp
  then have "?n * 2 ^ snd a * 2 ^ snd b \<le> fst a * 2 ^ snd b" by (intro mult_right_mono) auto
  then have "?n * 2 ^ (snd a + snd b) \<le> fst a * 2 ^ snd b + fst b * 2 ^ snd a"
    using assms(2) by (simp add: power_add mult.assoc add_increasing2)
  moreover have "0 \<le> ?n" using assms(1) by (simp add: pos_imp_zdiv_nonneg_iff)
  moreover have "?n < 2 ^ 53" using assms(3) calculation(2) by (simp add: double_floor_def nat_less_iff)
  ultimately have "?n \<le> int (double_floor (double_add a b))"
    unfolding double_add_def by (intro double_of_floor_ge) simp_all
  then show ?thesis by (simp add: double_floor_def nat_le_iff)
qed

section \<open>Integers\<close>

definition double_is :: "double \<Rightarrow> nat \<Rightarrow> bool" where
  "double_is a n \<longleftrightarrow> fst a = int n * 2 ^ snd a"

lemma double_is_floor: "double_is a n \<Longrightarrow> double_floor a = n"
  by (simp add: double_is_def double_floor_def)

lemma double_of_exact:
  assumes "n < 2 ^ 53" "0 < q"
  shows "double_is (double_of (int n * q) q) n"
proof (cases "n = 0")
  case False
  let ?t = "bit_length (int n)"
  have "int n < 2 ^ 53" using assms(1) by (metis of_nat_less_iff of_nat_numeral of_nat_power)
  with False have t: "?t \<noteq> 0" "?t \<le> 53" using bit_length_le [of "int n" 53] by (simp_all add: bit_length_zero)
  have "round_even (int n * q * 2 ^ (53 - ?t)) q = int n * 2 ^ (53 - ?t)"
    using round_even_exact [OF assms(2), of "int n * 2 ^ (53 - ?t)"] by (simp add: mult.commute mult.left_commute mult.assoc)
  moreover have "\<not> int n * q \<le> 0" using mult_pos_pos [of "int n" q] False assms(2) by linarith
  ultimately show ?thesis using False assms(2) t by (simp add: double_of_def double_is_def Let_def)
qed (simp add: double_of_def double_is_def)

lemma double_add_exact:
  assumes "double_is a m" "double_is b n" "m + n < 2 ^ 53"
  shows "double_is (double_add a b) (m + n)"
proof -
  have "fst a * 2 ^ snd b + fst b * 2 ^ snd a = int (m + n) * 2 ^ (snd a + snd b)"
    using assms(1,2) by (simp add: double_is_def power_add algebra_simps)
  then show ?thesis using double_of_exact [OF assms(3)] by (simp add: double_add_def)
qed

lemma number_double_nonneg: "0 \<le> fst (number_double v)"
  by (auto simp: number_double_def double_of_nonneg split: json.split)

lemma number_double_int: "0 \<le> n \<Longrightarrow> n < 2 ^ 53 \<Longrightarrow> double_is (number_double (JNum n)) (nat n)"
  using double_of_exact [of "nat n" 1] by (simp add: number_double_def nat_less_iff)

end
