(* ===== verification/Worker.thy ===== *)
theory Worker
  imports JobQueue Base64 Doubles
begin

text \<open>
  The job processor (\<^verbatim>\<open>services/worker/src/worker.js\<close>). \<open>new URL\<close>, \<open>new Date\<close>
  and \<open>fetch\<close> are the platform's: the environment record holds the parsers, and
  an oracle answers each request. The oracle's first argument is the index of the
  room whose task makes the request (the tasks of a batch run in parallel, and each
  makes any request at most once), so answers may differ from task to task. The
  requests of a job are collected in order; those of one batch are grouped by task.
\<close>

section \<open>Environment\<close>

record url =
  url_protocol :: string
  url_hostname :: string
  url_port :: string
  url_host :: string

record worker_env =
  parse_url :: "json \<Rightarrow> url option"
  parse_date :: "json option \<Rightarrow> int option"
  gateway_hosts_env :: string

record request =
  req_method :: string
  req_url :: string
  req_body :: "string option"

datatype fetch_result =
    FetchError js_error
  | Response bool int "js_error + json"

type_synonym network = "nat \<Rightarrow> request \<Rightarrow> fetch_result"

text \<open>\<open>clk i k\<close> is the \<open>k\<close>-th reading of \<open>Date.now()\<close> in task \<open>i\<close>.\<close>

type_synonym clock = "nat \<Rightarrow> nat \<Rightarrow> time"

section \<open>The gateway allowlist\<close>

definition allowlist :: "string \<Rightarrow> string list" where
  "allowlist s = map js_trim (js_split (CHR '','') (if s = [] then ''localhost,127.0.0.1'' else s))"

definition ALLOWED_GATEWAY_HOSTS :: "worker_env \<Rightarrow> string list" where
  "ALLOWED_GATEWAY_HOSTS env = allowlist (gateway_hosts_env env)"

definition ALLOWED_PORTS :: "string list" where
  "ALLOWED_PORTS = [''80'', ''443'', ''8080'']"

definition effective_port :: "url \<Rightarrow> string" where
  "effective_port u =
     (if url_port u \<noteq> [] then url_port u else if url_protocol u = ''https:'' then ''443'' else ''80'')"

definition validateGatewayURL :: "worker_env \<Rightarrow> json option \<Rightarrow> js_error + url" where
  "validateGatewayURL env gw =
     (if \<not> truthy gw then Inl (ErrorMsg ''gatewayURL is required'')
      else case parse_url env (the gw) of
        None \<Rightarrow> Inl InvalidURL
      | Some u \<Rightarrow>
          (if url_protocol u \<notin> {''http:'', ''https:''} \<or> url_hostname u \<notin> set (ALLOWED_GATEWAY_HOSTS env)
              \<or> effective_port u \<notin> set ALLOWED_PORTS
           then Inl (ErrorMsg (''disallowed gatewayURL host or port: '' @ url_host u))
           else Inr u))"

section \<open>media:chunk\<close>

record media_chunk =
  mc_seq :: nat
  mc_data :: string
  mc_total :: nat
  mc_roomId :: "json option"
  mc_transferId :: "json option"
  mc_mimeType :: "json option"
  mc_fileName :: "json option"
  mc_fileSize :: "json option"

datatype job_result =
    Chunks "media_chunk list"
  | Cleanup "json option" nat

text \<open>
  \<open>for (let i = 0; i < rawBytes.length; i += chunkSize) chunks.push(...)\<close>, for a positive
  \<open>chunkSize\<close>, which need not be an integer: \<open>subarray\<close> takes the integer part of its bounds. A
  size so small that the offset stops growing fills the array up to the largest length there
  is, where \<open>push\<close> throws (memory is not modelled, and may end first).
\<close>

definition MAX_ARRAY_LENGTH :: int where
  "MAX_ARRAY_LENGTH = 4294967295"

function chunk_loop :: "double \<Rightarrow> byte list \<Rightarrow> double \<Rightarrow> (nat \<times> string) list \<Rightarrow> js_error + (nat \<times> string) list" where
  "chunk_loop sz raw i chunks =
     (if \<not> double_below i (length raw) then Inr chunks
      else if MAX_ARRAY_LENGTH \<le> int (length chunks) then Inl RangeError
      else let next = double_add i sz in
        chunk_loop sz raw next (chunks @ [(length chunks, btoa (js_slice raw (double_floor i) (double_floor next)))]))"
  by pat_completeness auto
termination
  by (relation "measure (\<lambda>(sz, raw, i, chunks). nat (MAX_ARRAY_LENGTH - int (length chunks)))") auto

declare chunk_loop.simps [simp del]

text \<open>\<open>typeof chunkSize === 'number' && chunkSize > 0\<close>\<close>

definition chunk_size :: "json option \<Rightarrow> double option" where
  "chunk_size v =
     (case v of
        None \<Rightarrow> None
      | Some n \<Rightarrow> if 0 < fst (number_double n) then Some (number_double n) else None)"

text \<open>\<open>Buffer.from(payload, 'base64')\<close>: a number or boolean throws; other non-strings are not base64.\<close>

fun buffer_from :: "json \<Rightarrow> js_error + byte list" where
  "buffer_from (JStr s) = Inr (buffer_from_base64 s)"
| "buffer_from (JArr xs) = Inr (map (\<lambda>x. case js_number (Some x) of None \<Rightarrow> 0 | Some n \<Rightarrow> of_int (dec_trunc n)) xs)"
| "buffer_from _ = Inl TypeError"

definition forward_body :: "uuid \<Rightarrow> media_chunk \<Rightarrow> string" where
  "forward_body jid c =
     json_stringify (js_object
       [(''type'', Some (JStr ''media'')),
        (''payload'', Some (JStr (json_stringify (js_object
          [(''transferId'', js_or (mc_transferId c) (Some (JStr jid))),
           (''seq'', Some (JNum (int (mc_seq c)))),
           (''total'', Some (JNum (int (mc_total c)))),
           (''mimeType'', mc_mimeType c),
           (''fileName'', mc_fileName c),
           (''fileSize'', mc_fileSize c),
           (''chunk'', Some (JStr (mc_data c)))]))))])"

definition forward_request :: "uuid \<Rightarrow> json option \<Rightarrow> json option \<Rightarrow> media_chunk \<Rightarrow> request" where
  "forward_request jid gw roomId c =
     \<lparr>req_method = ''POST'',
      req_url = js_string gw @ ''/api/rooms/'' @ encodeURIComponent (js_string roomId) @ ''/broadcast'',
      req_body = Some (forward_body jid c)\<rparr>"

definition job_fields :: "job \<Rightarrow> string \<Rightarrow> json option" where
  "job_fields j k = (if truthy (job_data j) then js_get (the (job_data j)) k else None)"

definition process_media :: "worker_env \<Rightarrow> job \<Rightarrow> (js_error + job_result) \<times> request list" where
  "process_media env j =
     (let payload = job_fields j ''payload''; gw = job_fields j ''gatewayURL''; roomId = job_fields j ''roomId'' in
      case (if truthy payload then chunk_size (job_fields j ''chunkSize'') else None) of
        None \<Rightarrow> (Inl (ErrorMsg ''media:chunk requires payload and positive chunkSize''), [])
      | Some sz \<Rightarrow>
          (case (case buffer_from (the payload) of Inl e \<Rightarrow> Inl e | Inr raw \<Rightarrow> chunk_loop sz raw (0, 0) []) of
             Inl e \<Rightarrow> (Inl e, [])
           | Inr chunks \<Rightarrow>
               (let total = length chunks;
                    result = map (\<lambda>(s, d). \<lparr>mc_seq = s, mc_data = d, mc_total = total, mc_roomId = roomId,
                        mc_transferId = job_fields j ''transferId'', mc_mimeType = job_fields j ''mimeType'',
                        mc_fileName = job_fields j ''fileName'', mc_fileSize = job_fields j ''fileSize''\<rparr>) chunks
                in if truthy gw \<and> truthy roomId
                   then (case validateGatewayURL env gw of
                           Inl e \<Rightarrow> (Inl e, [])
                         | Inr _ \<Rightarrow> (Inr (Chunks result), map (forward_request (job_id j) gw roomId) result))
                   else (Inr (Chunks result), []))))"

section \<open>room:cleanup\<close>

definition defaultStaleThreshold :: int where
  "defaultStaleThreshold = 30 * 60 * 1000"

definition CONCURRENCY :: nat where
  "CONCURRENCY = 10"

definition get_request :: "string \<Rightarrow> request" where
  "get_request u = \<lparr>req_method = ''GET'', req_url = u, req_body = None\<rparr>"

definition room_url :: "json option \<Rightarrow> json option \<Rightarrow> string \<Rightarrow> string" where
  "room_url gw name suffix = js_string gw @ ''/api/rooms/'' @ encodeURIComponent (js_string name) @ suffix"

text \<open>The per-room TTL check; any failure of the endpoint falls through to \<open>False\<close>.\<close>

definition ttl_expired :: "fetch_result \<Rightarrow> time \<Rightarrow> bool" where
  "ttl_expired r now =
     (case r of
        Response True st (Inr v) \<Rightarrow>
          v \<noteq> JNull \<and> js_gt (js_get v ''ttlSeconds'') 0 \<and> js_gt (js_get v ''expiresAt'') 0
          \<and> (case js_number (js_get v ''expiresAt'') of None \<Rightarrow> False | Some t \<Rightarrow> dec_less t (now, 0))
      | _ \<Rightarrow> False)"

text \<open>\<open>info.peers === 0 && Date.now() - new Date(info.lastActivity).getTime() > threshold\<close>\<close>

definition room_idle :: "worker_env \<Rightarrow> json \<Rightarrow> time \<Rightarrow> bool" where
  "room_idle env info now =
     (js_get info ''peers'' = Some (JNum 0)
      \<and> (case parse_date env (js_get info ''lastActivity'') of
           None \<Rightarrow> False
         | Some t \<Rightarrow> defaultStaleThreshold < now - t))"

definition shouldCleanRoom ::
  "worker_env \<Rightarrow> network \<Rightarrow> clock \<Rightarrow> json option \<Rightarrow> nat \<Rightarrow> json \<Rightarrow> bool \<times> request list" where
  "shouldCleanRoom env net clk gw i room =
     (if room = JNull then (False, [])
      else let name = js_get room ''name'';
               info_req = get_request (room_url gw name ''/info'');
               ttl_req = get_request (room_url gw name ''/ttl'')
           in case net i info_req of
                Response True st (Inr info) \<Rightarrow>
                  if ttl_expired (net i ttl_req) (clk i 0) then (True, [info_req, ttl_req])
                  else (info \<noteq> JNull \<and> room_idle env info (clk i 1), [info_req, ttl_req])
              | _ \<Rightarrow> (False, [info_req]))"

definition clean_task ::
  "worker_env \<Rightarrow> network \<Rightarrow> clock \<Rightarrow> json option \<Rightarrow> nat \<Rightarrow> json \<Rightarrow> bool \<times> request list" where
  "clean_task env net clk gw i room =
     (case shouldCleanRoom env net clk gw i room of
        (True, rs) \<Rightarrow>
          (let req = \<lparr>req_method = ''POST'', req_url = room_url gw (js_get room ''name'') ''/cleanup'', req_body = None\<rparr>
           in (case net i req of Response ok st v \<Rightarrow> ok | FetchError e \<Rightarrow> False, rs @ [req]))
      | (False, rs) \<Rightarrow> (False, rs))"

text \<open>The batch loop: \<open>i\<close> is the loop index, \<open>cleaned\<close> the counter.\<close>

function cleanup_loop ::
  "(nat \<Rightarrow> json \<Rightarrow> bool \<times> request list) \<Rightarrow> json list \<Rightarrow> nat \<Rightarrow> nat \<Rightarrow> request list \<Rightarrow> nat \<times> request list" where
  "cleanup_loop task rooms i cleaned reqs =
     (if i < length rooms then
        (let batch = js_slice rooms i (i + CONCURRENCY);
             results = map (\<lambda>(k, room). task (i + k) room) (List.enumerate 0 batch)
         in cleanup_loop task rooms (i + CONCURRENCY)
              (cleaned + length (filter fst results)) (reqs @ concat (map snd results)))
      else (cleaned, reqs))"
  by pat_completeness auto
termination
  by (relation "measure (\<lambda>(task, rooms, i, cleaned, reqs). length rooms - i)") (auto simp: CONCURRENCY_def)

declare cleanup_loop.simps [simp del]

definition process_cleanup ::
  "worker_env \<Rightarrow> network \<Rightarrow> clock \<Rightarrow> job \<Rightarrow> (js_error + job_result) \<times> request list" where
  "process_cleanup env net clk j =
     (let gw = job_fields j ''gatewayURL'' in
      case validateGatewayURL env gw of
        Inl e \<Rightarrow> (Inl e, [])
      | Inr _ \<Rightarrow>
          (let req = get_request (js_string gw @ ''/api/rooms'') in
           case net 0 req of
             FetchError e \<Rightarrow> (Inl e, [req])
           | Response ok st body \<Rightarrow>
               (if \<not> ok then (Inl (ErrorMsg (''failed to fetch rooms: '' @ show_int st)), [req])
                else case body of
                  Inl e \<Rightarrow> (Inl e, [req])
                | Inr JNull \<Rightarrow> (Inl TypeError, [req])
                | Inr v \<Rightarrow>
                    (case js_get v ''rooms'' of
                       None \<Rightarrow> (Inl TypeError, [req])
                     | Some JNull \<Rightarrow> (Inl TypeError, [req])
                     | Some (JArr rooms) \<Rightarrow>
                         (case cleanup_loop (clean_task env net clk gw) rooms 0 0 [req] of
                            (cleaned, reqs) \<Rightarrow> (Inr (Cleanup (Some (JNum (int (length rooms)))) cleaned), reqs))
                     | Some w \<Rightarrow>
                         (if js_gt (js_get w ''length'') 0 then (Inl TypeError, [req])
                          else (Inr (Cleanup (js_get w ''length'') 0), [req]))))))"

definition processJob ::
  "worker_env \<Rightarrow> network \<Rightarrow> clock \<Rightarrow> job \<Rightarrow> (js_error + job_result) \<times> request list" where
  "processJob env net clk j =
     (if job_type j = ''media:chunk'' then process_media env j
      else if job_type j = ''room:cleanup'' then process_cleanup env net clk j
      else (Inl (ErrorMsg (''unknown job type: '' @ job_type j)), []))"

section \<open>Lemmas\<close>

text \<open>Whatever the size, the pieces are the payload from the offset on.\<close>

lemma chunk_loop_covers:
  assumes "0 \<le> fst sz" "length raw < 2 ^ 52"
  shows "0 \<le> fst i \<Longrightarrow> chunk_loop sz raw i acc = Inr cs \<Longrightarrow>
    \<exists>ps. cs = acc @ List.enumerate (length acc) (map btoa ps) \<and> concat ps = drop (double_floor i) raw"
  using assms
proof (induction sz raw i acc rule: chunk_loop.induct)
  case (1 sz raw i acc)
  let ?next = "double_add i sz"
  show ?case
  proof (cases "double_below i (length raw)")
    case True
    let ?p = "js_slice raw (double_floor i) (double_floor ?next)"
    have room: "\<not> MAX_ARRAY_LENGTH \<le> int (length acc)" using True "1.prems"(2) by (subst (asm) chunk_loop.simps) (auto split: if_splits)
    then have loop: "chunk_loop sz raw ?next (acc @ [(length acc, btoa ?p)]) = Inr cs"
      using True "1.prems"(2) by (subst (asm) chunk_loop.simps) (simp add: Let_def)
    have "0 \<le> fst ?next" by (simp add: double_add_def double_of_nonneg)
    from "1.IH" [OF _ room refl this loop "1.prems"(3,4)] True obtain ps where
      ps: "cs = (acc @ [(length acc, btoa ?p)]) @ List.enumerate (length (acc @ [(length acc, btoa ?p)])) (map btoa ps)"
        "concat ps = drop (double_floor ?next) raw"
      by blast
    have "double_floor i < 2 ^ 53" using True double_floor_below [OF "1.prems"(1)] "1.prems"(4) by simp
    then have "double_floor i \<le> double_floor ?next" by (rule double_add_floor [OF "1.prems"(1,3)])
    then have "?p @ drop (double_floor ?next) raw = drop (double_floor i) raw"
      by (metis js_slice_def append_take_drop_id drop_drop le_add_diff_inverse2)
    with ps show ?thesis by (intro exI [of _ "?p # ps"]) simp
  next
    case False
    then have "cs = acc" using "1.prems"(2) by (subst (asm) chunk_loop.simps) simp
    moreover have "length raw \<le> double_floor i" using False double_floor_below [OF "1.prems"(1)] by simp
    ultimately show ?thesis by (intro exI [of _ "[]"]) simp
  qed
qed

text \<open>For an integer they are pieces of that size.\<close>

lemma chunk_loop_pieces:
  assumes "double_is sz n" "0 < n" "n < 2 ^ 52" "length raw < 2 ^ 52"
  shows "double_is i a \<Longrightarrow> chunk_loop sz raw i acc = Inr cs \<Longrightarrow>
    cs = acc @ List.enumerate (length acc) (map btoa (pieces n (drop a raw)))"
  using assms
proof (induction sz raw i acc arbitrary: a rule: chunk_loop.induct)
  case (1 sz raw i acc)
  have below: "double_below i (length raw) \<longleftrightarrow> a < length raw"
    using "1.prems"(1) double_floor_below [of i "length raw"] double_is_floor [OF "1.prems"(1)] by (simp add: double_is_def)
  show ?case
  proof (cases "a < length raw")
    case True
    have next_is: "double_is (double_add i sz) (a + n)"
      by (rule double_add_exact [OF "1.prems"(1,3)]) (use True "1.prems" in simp)
    have room: "\<not> MAX_ARRAY_LENGTH \<le> int (length acc)"
      using True below "1.prems"(2) by (subst (asm) chunk_loop.simps) (auto split: if_splits)
    then have "chunk_loop sz raw (double_add i sz) (acc @ [(length acc, btoa (js_slice raw a (a + n)))]) = Inr cs"
      using True below "1.prems"(2) double_is_floor [OF next_is] double_is_floor [OF "1.prems"(1)]
      by (subst (asm) chunk_loop.simps) (simp add: Let_def)
    moreover have "pieces n (drop a raw) = take n (drop a raw) # pieces n (drop (a + n) raw)"
      using True "1.prems"(4) by (simp add: pieces_step add.commute)
    ultimately show ?thesis
      using "1.IH" [OF _ room refl next_is _ "1.prems"(3-6)] True below
        double_is_floor [OF next_is] double_is_floor [OF "1.prems"(1)]
      by (simp add: js_slice_def)
  next
    case False
    then show ?thesis using below "1.prems"(2) by (subst (asm) chunk_loop.simps) simp
  qed
qed

lemma enumerate_shift: "List.enumerate n xs = map (\<lambda>(k, x). (n + k, x)) (List.enumerate 0 xs)"
  by (rule nth_equalityI) (auto simp: nth_enumerate_eq)

text \<open>Running the tasks batch by batch is running them all, in the order of the list.\<close>

lemma cleanup_loop_all:
  "cleanup_loop task rooms i cleaned reqs =
     (let rs = map (\<lambda>(k, room). task k room) (List.enumerate i (drop i rooms))
      in (cleaned + length (filter fst rs), reqs @ concat (map snd rs)))"
proof (induction task rooms i cleaned reqs rule: cleanup_loop.induct)
  case (1 task rooms i cleaned reqs)
  show ?case
  proof (cases "i < length rooms")
    case True
    let ?batch = "js_slice rooms i (i + CONCURRENCY)"
    have split: "drop i rooms = ?batch @ drop (i + CONCURRENCY) rooms"
      by (simp add: js_slice_def) (metis append_take_drop_id drop_drop add.commute)
    have len: "List.enumerate (i + length ?batch) (drop (i + CONCURRENCY) rooms)
        = List.enumerate (i + CONCURRENCY) (drop (i + CONCURRENCY) rooms)"
      by (cases "i + CONCURRENCY < length rooms") (simp_all add: js_slice_def)
    have "map (\<lambda>(k, room). task k room) (List.enumerate i (drop i rooms)) =
        map (\<lambda>(k, room). task (i + k) room) (List.enumerate 0 ?batch)
        @ map (\<lambda>(k, room). task k room) (List.enumerate (i + CONCURRENCY) (drop (i + CONCURRENCY) rooms))"
      unfolding split enumerate_append_eq len map_append
      by (simp add: enumerate_shift [of i] case_prod_beta comp_def)
    with True 1 show ?thesis by (subst cleanup_loop.simps) (simp add: Let_def)
  qed (subst cleanup_loop.simps, simp)
qed

definition url_allowed :: "worker_env \<Rightarrow> url \<Rightarrow> bool" where
  "url_allowed env u =
     (url_protocol u \<in> {''http:'', ''https:''} \<and> url_hostname u \<in> set (ALLOWED_GATEWAY_HOSTS env)
      \<and> effective_port u \<in> set ALLOWED_PORTS)"

lemma validateGatewayURL_Inr:
  "validateGatewayURL env gw = Inr u \<longleftrightarrow>
     truthy gw \<and> parse_url env (the gw) = Some u \<and> url_allowed env u"
  by (auto simp: validateGatewayURL_def url_allowed_def split: option.splits)

lemma process_media_requests:
  assumes "r \<in> set (snd (process_media env j))"
  obtains u suffix where "validateGatewayURL env (job_fields j ''gatewayURL'') = Inr u"
    and "req_url r = js_string (job_fields j ''gatewayURL'') @ ''/api/rooms'' @ suffix"
  using assms
  by (auto simp: process_media_def Let_def forward_request_def
      split: option.splits json.splits sum.splits if_splits)

lemma cleanup_requests:
  assumes "r \<in> set (snd (clean_task env net clk gw i room))"
  obtains suffix where "req_url r = js_string gw @ ''/api/rooms'' @ suffix"
  using assms
  by (auto simp: clean_task_def shouldCleanRoom_def room_url_def get_request_def Let_def
      split: if_splits fetch_result.splits sum.splits bool.splits)

lemma cleanup_loop_requests:
  assumes "r \<in> set (snd (cleanup_loop (clean_task env net clk gw) rooms i n reqs))"
  shows "r \<in> set reqs \<or> (\<exists>suffix. req_url r = js_string gw @ ''/api/rooms'' @ suffix)"
  using assms by (auto simp: cleanup_loop_all Let_def elim: cleanup_requests)

lemma process_cleanup_requests:
  assumes "r \<in> set (snd (process_cleanup env net clk j))"
  obtains u suffix where "validateGatewayURL env (job_fields j ''gatewayURL'') = Inr u"
    and "req_url r = js_string (job_fields j ''gatewayURL'') @ ''/api/rooms'' @ suffix"
proof -
  obtain u where u: "validateGatewayURL env (job_fields j ''gatewayURL'') = Inr u"
    using assms by (auto simp: process_cleanup_def Let_def split: sum.splits)
  let ?gw = "job_fields j ''gatewayURL''"
  let ?req = "get_request (js_string ?gw @ ''/api/rooms'')"
  have "r = ?req \<or> (\<exists>rooms. r \<in> set (snd (cleanup_loop (clean_task env net clk ?gw) rooms 0 0 [?req])))"
    using assms u
    by (auto simp: process_cleanup_def Let_def split: fetch_result.splits if_splits sum.splits json.splits option.splits prod.splits)
      (metis snd_conv)+
  then have "\<exists>suffix. req_url r = js_string ?gw @ ''/api/rooms'' @ suffix"
    by (auto dest: cleanup_loop_requests simp: get_request_def)
  with u that show ?thesis by blast
qed

text \<open>What a media:chunk job that succeeds returns.\<close>

lemma media_job_chunks:
  assumes "processJob env net clk j = (Inr (Chunks cs), rs)" and "job_fields j ''payload'' = Some (JStr p)"
  obtains size chunks where "chunk_size (job_fields j ''chunkSize'') = Some size"
    and "chunk_loop size (buffer_from_base64 p) (0, 0) [] = Inr chunks"
    and "cs = map (\<lambda>(s, d). \<lparr>mc_seq = s, mc_data = d, mc_total = length chunks,
      mc_roomId = job_fields j ''roomId'', mc_transferId = job_fields j ''transferId'',
      mc_mimeType = job_fields j ''mimeType'', mc_fileName = job_fields j ''fileName'',
      mc_fileSize = job_fields j ''fileSize''\<rparr>) chunks"
proof -
  have "job_type j = ''media:chunk''"
    using assms(1)
    by (auto simp: processJob_def process_cleanup_def Let_def
        split: if_splits sum.splits fetch_result.splits json.splits option.splits prod.splits)
  then have "fst (process_media env j) = Inr (Chunks cs)"
    using assms(1) by (simp add: processJob_def)
  with assms(2) that show ?thesis
    by (auto simp: process_media_def Let_def split: if_splits sum.splits option.splits)
qed

section \<open>Properties\<close>

text \<open>
  C38: A media:chunk job that succeeds cuts the decoded payload into numbered pieces that give
  the payload back when they are decoded and concatenated in order, whatever positive number
  \<open>chunkSize\<close> is; every piece carries the total number of pieces. When \<open>chunkSize\<close> is an
  integer below \<open>2 ^ 52\<close> there are as many pieces as it takes, none of them empty and none longer than
  it. (The payload is to decode to less than \<open>2 ^ 52\<close> bytes.)
\<close>

theorem media_chunks_reassemble:
  assumes "processJob env net clk j = (Inr (Chunks cs), rs)"
    and "job_fields j ''payload'' = Some (JStr p)" and "length (buffer_from_base64 p) < 2 ^ 52"
  shows "concat (map (buffer_from_base64 \<circ> mc_data) cs) = buffer_from_base64 p
    \<and> map mc_seq cs = [0..<length cs] \<and> (\<forall>c\<in>set cs. mc_total c = length cs)
    \<and> (\<forall>sz. job_fields j ''chunkSize'' = Some (JNum (int sz)) \<longrightarrow> sz < 2 ^ 52 \<longrightarrow>
         length cs = (length (buffer_from_base64 p) + sz - 1) div sz
         \<and> (\<forall>c\<in>set cs. length (buffer_from_base64 (mc_data c)) \<in> {1..sz}))"
proof -
  obtain size chunks where size: "chunk_size (job_fields j ''chunkSize'') = Some size"
    and loop: "chunk_loop size (buffer_from_base64 p) (0, 0) [] = Inr chunks"
    and cs: "cs = map (\<lambda>(s, d). \<lparr>mc_seq = s, mc_data = d, mc_total = length chunks,
      mc_roomId = job_fields j ''roomId'', mc_transferId = job_fields j ''transferId'',
      mc_mimeType = job_fields j ''mimeType'', mc_fileName = job_fields j ''fileName'',
      mc_fileSize = job_fields j ''fileSize''\<rparr>) chunks"
    using assms(1,2) by (rule media_job_chunks)
  have "0 \<le> fst size" using size by (auto simp: chunk_size_def split: option.splits if_splits)
  from chunk_loop_covers [OF this assms(3) _ loop] obtain ps where
    ps: "chunks = List.enumerate 0 (map btoa ps)" "concat ps = buffer_from_base64 p"
    by (auto simp: double_floor_def)
  have dat: "map mc_data cs = map btoa ps" and seq: "map mc_seq cs = [0..<length ps]" and len: "length cs = length ps"
    by (auto simp: cs ps(1) nth_enumerate_eq intro!: nth_equalityI)
  have "map (buffer_from_base64 \<circ> mc_data) cs = map buffer_from_base64 (map mc_data cs)" by simp
  also have "\<dots> = ps" unfolding dat by (simp add: comp_def buffer_from_btoa)
  finally have bytes: "map (buffer_from_base64 \<circ> mc_data) cs = ps" .
  have integer: "length cs = (length (buffer_from_base64 p) + sz - 1) div sz
      \<and> (\<forall>c\<in>set cs. length (buffer_from_base64 (mc_data c)) \<in> {1..sz})"
    if sz: "job_fields j ''chunkSize'' = Some (JNum (int sz))" "sz < 2 ^ 52" for sz
  proof -
    have "size = number_double (JNum (int sz))" "0 < fst size"
      using size sz(1) by (auto simp: chunk_size_def split: if_splits)
    moreover from this have pos: "0 < sz" by (cases sz) (simp_all add: number_double_def double_of_def)
    moreover have "double_is (number_double (JNum (int sz))) sz" using number_double_int [of "int sz"] sz(2) by simp
    ultimately have "chunks = List.enumerate 0 (map btoa (pieces sz (buffer_from_base64 p)))"
      using chunk_loop_pieces [OF _ pos sz(2) assms(3) _ loop, of 0] by (simp add: double_is_def)
    then have "map btoa ps = map btoa (pieces sz (buffer_from_base64 p))" using ps(1) by (metis map_snd_enumerate)
    then have pieces: "ps = pieces sz (buffer_from_base64 p)" by (metis (no_types) map_map comp_def buffer_from_btoa map_idI)
    have "buffer_from_base64 (mc_data c) \<in> set ps" if "c \<in> set cs" for c
      using that unfolding bytes [symmetric] by auto
    then show ?thesis
      using piece_bounds [OF pos, of _ "buffer_from_base64 p"] length_pieces [OF pos, of "buffer_from_base64 p"] len
      unfolding pieces by (fastforce simp: Suc_le_eq)
  qed
  have "\<forall>c\<in>set cs. mc_total c = length cs" by (auto simp: cs)
  then show ?thesis using bytes seq len ps(2) integer by simp
qed

text \<open>
  C13: No request leaves the worker for a host outside the allowlist: every URL a
  job makes it fetch starts with the job's gatewayURL, and that URL parses to an
  allowed protocol, host and port; a job whose gatewayURL is not allowed makes no
  request at all.
\<close>

theorem processJob_requests_stay_on_gateway:
  assumes "r \<in> set (snd (processJob env net clk j))"
  shows "\<exists>gw u suffix. job_fields j ''gatewayURL'' = Some gw \<and> parse_url env gw = Some u
    \<and> url_allowed env u \<and> req_url r = js_to_string gw @ ''/api/rooms'' @ suffix"
proof -
  have "r \<in> set (snd (process_media env j)) \<or> r \<in> set (snd (process_cleanup env net clk j))"
    using assms by (auto simp: processJob_def split: if_splits)
  then obtain u suffix where v: "validateGatewayURL env (job_fields j ''gatewayURL'') = Inr u"
    and r: "req_url r = js_string (job_fields j ''gatewayURL'') @ ''/api/rooms'' @ suffix"
    using process_media_requests process_cleanup_requests by metis
  from v obtain gw where "job_fields j ''gatewayURL'' = Some gw"
    by (cases "job_fields j ''gatewayURL''") (auto simp: validateGatewayURL_Inr)
  with v r show ?thesis by (auto simp: validateGatewayURL_Inr js_string_def)
qed

text \<open>
  C39: Cleaning in parallel batches of ten loses no room and counts none twice. Whatever object
  with an array \<open>rooms\<close> the gateway answers (its handler sends a \<open>count\<close> beside it), a
  room:cleanup job reports as checked the length of that array and as cleaned the number of
  rooms, over the whole of it, whose task posted a cleanup that the gateway accepted; its
  requests are the list request and those of every room's task.
\<close>

theorem cleanup_batches_cover_all_rooms:
  assumes "job_type j = ''room:cleanup''"
    and "validateGatewayURL env (job_fields j ''gatewayURL'') = Inr u"
    and "net 0 (get_request (js_string (job_fields j ''gatewayURL'') @ ''/api/rooms'')) = Response True st (Inr body)"
    and "js_get body ''rooms'' = Some (JArr rooms)"
  shows "processJob env net clk j =
    (let gw = job_fields j ''gatewayURL'';
         tasks = map (\<lambda>(i, room). clean_task env net clk gw i room) (List.enumerate 0 rooms)
     in (Inr (Cleanup (Some (JNum (int (length rooms)))) (length (filter fst tasks))),
         get_request (js_string gw @ ''/api/rooms'') # concat (map snd tasks)))"
  using assms by (cases body) (simp_all add: processJob_def process_cleanup_def cleanup_loop_all Let_def split: if_splits)

text \<open>
  A room is told to clean up only when its own TTL has passed or when the
  gateway reports no peers in it and no activity for more than thirty minutes; any
  failure to learn that leaves the room alone.
\<close>

theorem cleanup_only_stale_rooms:
  assumes "r \<in> set (snd (clean_task env net clk gw i room))" and "req_method r = ''POST''"
  shows "\<exists>name st info. name = js_get room ''name'' \<and> req_url r = room_url gw name ''/cleanup''
    \<and> net i (get_request (room_url gw name ''/info'')) = Response True st (Inr info)
    \<and> (ttl_expired (net i (get_request (room_url gw name ''/ttl''))) (clk i 0)
       \<or> js_get info ''peers'' = Some (JNum 0)
         \<and> (\<exists>t. parse_date env (js_get info ''lastActivity'') = Some t \<and> 1800000 < clk i 1 - t))"
  using assms
  by (auto simp: clean_task_def shouldCleanRoom_def get_request_def room_idle_def defaultStaleThreshold_def Let_def
      split: if_splits fetch_result.splits sum.splits bool.splits option.splits)

section \<open>Witnesses\<close>

definition demo_env :: worker_env where
  "demo_env =
     \<lparr>parse_url = (\<lambda>v. if v = JStr ''http://localhost:8080''
        then Some \<lparr>url_protocol = ''http:'', url_hostname = ''localhost'', url_port = ''8080'',
                   url_host = ''localhost:8080''\<rparr>
        else None),
      parse_date = (\<lambda>_. Some 0), gateway_hosts_env = []\<rparr>"

definition demo_media_job :: job where
  "demo_media_job = new_job ''j1'' 0 ''media:chunk''
     (Some (JObj [(''payload'', JStr ''MDEyMzQ1Njc4OQ==''), (''chunkSize'', JNum 4), (''roomId'', JStr ''r 1''),
       (''gatewayURL'', JStr ''http://localhost:8080'')]))"

definition demo_cleanup_job :: job where
  "demo_cleanup_job =
     new_job ''j2'' 0 ''room:cleanup'' (Some (JObj [(''gatewayURL'', JStr ''http://localhost:8080'')]))"

text \<open>One idle room with no peers, and a gateway that accepts its cleanup.\<close>

definition demo_net :: network where
  "demo_net i r =
     (if req_url r = ''http://localhost:8080/api/rooms''
      then Response True 200 (Inr (JObj [(''rooms'', JArr [JObj [(''name'', JStr ''a''), (''count'', JNum 0)]]), (''count'', JNum 1)]))
      else if req_url r = ''http://localhost:8080/api/rooms/a/info''
      then Response True 200 (Inr (JObj [(''peers'', JNum 0), (''lastActivity'', JStr ''x'')]))
      else Response True 200 (Inr (JObj [])))"

definition demo_clock :: clock where
  "demo_clock i k = 1800001"

lemma demo_media_run:
  obtains cs rs where "processJob demo_env demo_net demo_clock demo_media_job = (Inr (Chunks cs), rs)"
    and "length cs = 3" and "length rs = 3"
proof -
  have "case processJob demo_env demo_net demo_clock demo_media_job of
      (Inr (Chunks cs), rs) \<Rightarrow> length cs = 3 \<and> length rs = 3 | _ \<Rightarrow> False"
    by code_simp
  with that show ?thesis by (auto split: prod.splits sum.splits job_result.splits)
qed

text \<open>A size with a fraction makes uneven pieces, and one below a byte makes empty ones.\<close>

definition piece_sizes :: "js_error + (nat \<times> string) list \<Rightarrow> nat list" where
  "piece_sizes r = (case r of Inl _ \<Rightarrow> [] | Inr cs \<Rightarrow> map (\<lambda>(s, d). length (buffer_from_base64 d)) cs)"

lemma fractional_chunks_are_uneven:
  "piece_sizes (chunk_loop (number_double (JDec 25 1)) [1, 2, 3, 4, 5, 6] (0, 0) []) = [2, 3, 1]"
  "piece_sizes (chunk_loop (number_double (JDec 5 1)) [1, 2] (0, 0) []) = [0, 1, 0, 1]"
  by code_simp+

theorem media_chunks_reassemble_witness:
  "\<exists>cs :: media_chunk list. concat (map (buffer_from_base64 \<circ> mc_data) cs) = buffer_from_base64 ''MDEyMzQ1Njc4OQ=='' \<and> length cs = 3"
proof -
  obtain cs rs where run: "processJob demo_env demo_net demo_clock demo_media_job = (Inr (Chunks cs), rs)"
    and three: "length cs = 3"
    by (rule demo_media_run)
  have fields: "job_fields demo_media_job ''payload'' = Some (JStr ''MDEyMzQ1Njc4OQ=='')"
    "length (buffer_from_base64 ''MDEyMzQ1Njc4OQ=='') = 10"
    by code_simp+
  show ?thesis
    using media_chunks_reassemble [OF run fields(1)] fields(2) three by (intro exI [of _ cs]) simp
qed

theorem processJob_requests_stay_on_gateway_witness:
  "\<exists>(r :: request) gw u suffix. job_fields demo_media_job ''gatewayURL'' = Some gw \<and> parse_url demo_env gw = Some u
    \<and> url_allowed demo_env u \<and> req_url r = js_to_string gw @ ''/api/rooms'' @ suffix"
proof -
  obtain cs rs where run: "processJob demo_env demo_net demo_clock demo_media_job = (Inr (Chunks cs), rs)"
    and three: "length rs = 3"
    by (rule demo_media_run)
  then have "hd rs \<in> set (snd (processJob demo_env demo_net demo_clock demo_media_job))" by (cases rs) auto
  from processJob_requests_stay_on_gateway [OF this] show ?thesis by blast
qed

lemma demo_cleanup_hyps:
  "job_type demo_cleanup_job = ''room:cleanup''"
  "validateGatewayURL demo_env (job_fields demo_cleanup_job ''gatewayURL'') =
     Inr \<lparr>url_protocol = ''http:'', url_hostname = ''localhost'', url_port = ''8080'', url_host = ''localhost:8080''\<rparr>"
  "demo_net 0 (get_request (js_string (job_fields demo_cleanup_job ''gatewayURL'') @ ''/api/rooms'')) =
     Response True 200 (Inr (JObj [(''rooms'', JArr [JObj [(''name'', JStr ''a''), (''count'', JNum 0)]]), (''count'', JNum 1)]))"
  "js_get (JObj [(''rooms'', JArr [JObj [(''name'', JStr ''a''), (''count'', JNum 0)]]), (''count'', JNum 1)]) ''rooms'' =
     Some (JArr [JObj [(''name'', JStr ''a''), (''count'', JNum 0)]])"
  by code_simp+

theorem cleanup_batches_cover_all_rooms_witness:
  "fst (processJob demo_env demo_net demo_clock demo_cleanup_job) = Inr (Cleanup (Some (JNum 1)) 1)"
proof -
  have "length (filter fst (map (\<lambda>(i, room). clean_task demo_env demo_net demo_clock
      (job_fields demo_cleanup_job ''gatewayURL'') i room)
      (List.enumerate 0 [JObj [(''name'', JStr ''a''), (''count'', JNum 0)]]))) = 1"
    by code_simp
  then show ?thesis
    using cleanup_batches_cover_all_rooms [where net = demo_net and clk = demo_clock, OF demo_cleanup_hyps] by (simp add: Let_def)
qed

theorem cleanup_only_stale_rooms_witness:
  "\<exists>st info. demo_net 0 (get_request (room_url (Some (JStr ''http://localhost:8080'')) (Some (JStr ''a'')) ''/info''))
      = Response True st (Inr info)"
proof -
  let ?r = "\<lparr>req_method = ''POST'', req_url = ''http://localhost:8080/api/rooms/a/cleanup'', req_body = None\<rparr>"
  let ?room = "JObj [(''name'', JStr ''a'')]"
  have "?r \<in> set (snd (clean_task demo_env demo_net demo_clock (Some (JStr ''http://localhost:8080'')) 0 ?room))"
    by code_simp
  moreover have "req_method ?r = ''POST''" by simp
  moreover have "js_get ?room ''name'' = Some (JStr ''a'')" by code_simp
  ultimately show ?thesis using cleanup_only_stale_rooms by metis
qed

end
