(* ===== verification/JsonRoundtrip.thy ===== *)
theory JsonRoundtrip
  imports JsLang
begin

text \<open>
  \<open>JSON.parse\<close> undoes \<open>JSON.stringify\<close> on every value whose objects have
  distinct keys: the fact behind every message the client, the media layer and
  the worker exchange as text.
\<close>

section \<open>Strings\<close>

lemma hex_value_digit: "k < 16 \<Longrightarrow> hex_value (hex_digit k) = Some k"
  by (auto simp: hex_value_def hex_digit_def Let_def)

lemma hex4_low:
  assumes "n < 256"
  shows "hex4 (CHR ''0'') (CHR ''0'') (hex_digit (n div 16)) (hex_digit (n mod 16)) = Some n"
proof -
  have "hex_value (CHR ''0'') = Some 0" by (simp add: hex_value_def)
  moreover have "n div 16 < 16" using assms by auto
  ultimately show ?thesis
    by (simp add: hex4_def hex_value_digit)
qed

lemma parse_str_escape:
  "parse_str (json_escape c @ r) = map_option (\<lambda>(t, u). (c # t, u)) (parse_str r)"
proof -
  consider "c = CHR 0x22 \<or> c = CHR 0x5C" | "c \<noteq> CHR 0x22" "c \<noteq> CHR 0x5C" "(of_char c :: nat) \<in> {8, 9, 10, 12, 13}"
    | "c \<noteq> CHR 0x22" "c \<noteq> CHR 0x5C" "(of_char c :: nat) \<notin> {8, 9, 10, 12, 13}" "(of_char c :: nat) < 32"
    | "c \<noteq> CHR 0x22" "c \<noteq> CHR 0x5C" "\<not> (of_char c :: nat) < 32"
    by auto
  then show ?thesis
  proof cases
    case 1
    then show ?thesis by (auto simp: json_escape_def json_unescape_def)
  next
    case 2
    have "(of_char c :: nat) \<in> of_char ` {CHR 0x08, CHR 0x09, CHR 0x0A, CHR 0x0C, CHR 0x0D}"
      using 2(3) by simp
    then have "c \<in> {CHR 0x08, CHR 0x09, CHR 0x0A, CHR 0x0C, CHR 0x0D}"
      by (simp only: inj_image_mem_iff [OF inj_of_char])
    then show ?thesis by (auto simp: json_escape_def json_unescape_def)
  next
    case 3
    then have "utf8_unit (of_char c) = [c]" by (simp add: utf8_unit_def)
    with 3 show ?thesis by (simp add: json_escape_def Let_def hex4_low)
  next
    case 4
    then have "json_escape c = [c]" by (auto simp: json_escape_def Let_def)
    with 4 show ?thesis by simp
  qed
qed

lemma parse_str_quote: "parse_str (concat (map json_escape s) @ CHR 0x22 # r) = Some (s, r)"
  by (induction s) (simp_all add: parse_str_escape del: parse_str.simps(2), simp)

section \<open>Numbers\<close>

lemma of_char_digit: "n < 10 \<Longrightarrow> (of_char (char_of (48 + n)) :: nat) = 48 + n"
  by simp

lemma show_nat_digits: "d \<in> set (show_nat n) \<Longrightarrow> is_digit d"
  by (induction n rule: show_nat.induct)
    (subst (asm) (2) show_nat.simps, auto simp: is_digit_def Let_def split: if_splits)

lemma show_nat_not_Nil [simp]: "show_nat n \<noteq> []"
  by (subst show_nat.simps) simp

lemma read_show_nat: "read_nat (show_nat n) = n"
proof (induction n rule: show_nat.induct)
  case (1 n)
  then show ?case
    by (subst show_nat.simps) (auto simp: read_nat_def)
qed

lemma hd_show_nat: "0 < n \<Longrightarrow> hd (show_nat n) \<noteq> CHR ''0''"
proof (induction n rule: show_nat.induct)
  case (1 n)
  show ?case
  proof (cases "n < 10")
    case True
    then have "(of_char (char_of (48 + n) :: char) :: nat) \<noteq> of_char (CHR ''0'')"
      using 1(2) by simp
    then have "char_of (48 + n) \<noteq> CHR ''0''" by metis
    with True show ?thesis by (subst show_nat.simps) simp
  next
    case False
    with 1 show ?thesis by (subst show_nat.simps) simp
  qed
qed

lemma show_nat_no_leading_zero: "\<not> (hd (show_nat n) = CHR ''0'' \<and> 1 < length (show_nat n))"
proof (cases "n = 0")
  case True
  then show ?thesis by (subst show_nat.simps) simp
qed (simp add: hd_show_nat)

definition num_end :: "string \<Rightarrow> bool" where
  "num_end r = (case r of [] \<Rightarrow> True | c # _ \<Rightarrow> \<not> is_digit c \<and> c \<notin> {CHR ''.'', CHR ''e'', CHR ''E''})"

lemma scan_num_end:
  assumes "num_end r"
  shows "scan_fraction r = ([], r)" "scan_exponent r = Some (0, r)"
  using assms by (auto simp: num_end_def scan_fraction_def scan_exponent_def split: list.splits)

lemma take_digits:
  assumes "num_end r"
  shows "takeWhile is_digit (show_nat n @ r) = show_nat n"
    and "dropWhile is_digit (show_nat n @ r) = r"
proof -
  have "takeWhile is_digit r = []" "dropWhile is_digit r = r"
    using assms by (cases r; simp add: num_end_def)+
  then show "takeWhile is_digit (show_nat n @ r) = show_nat n"
    and "dropWhile is_digit (show_nat n @ r) = r"
    by (simp_all add: takeWhile_append2 dropWhile_append2 show_nat_digits)
qed

lemma show_nat_head: obtains c t where "show_nat n = c # t" "is_digit c"
  using show_nat_digits [of _ n] by (cases "show_nat n") (simp, fastforce)

lemma digit_not_special:
  assumes "is_digit c"
  shows "c \<noteq> CHR ''-'' \<and> \<not> json_ws c \<and> c \<noteq> CHR 0x22 \<and> c \<noteq> CHR ''['' \<and> c \<noteq> CHR 0x7B
    \<and> c \<noteq> CHR ''n'' \<and> c \<noteq> CHR ''t'' \<and> c \<noteq> CHR ''f'' \<and> c \<noteq> CHR '']'' \<and> c \<noteq> CHR 0x7D"
  using assms by (auto simp: is_digit_def json_ws_def)

text \<open>Digits, and a text that does not go on with one.\<close>

lemma scan_digits:
  assumes "\<forall>c\<in>set ds. is_digit c" "r = [] \<or> \<not> is_digit (hd r)"
  shows "takeWhile is_digit (ds @ r) = ds" "dropWhile is_digit (ds @ r) = r"
proof -
  have "takeWhile is_digit r = []" "dropWhile is_digit r = r"
    using assms(2) by (cases r; simp)+
  then show "takeWhile is_digit (ds @ r) = ds" "dropWhile is_digit (ds @ r) = r"
    using assms(1) by (simp_all add: takeWhile_append2 dropWhile_append2)
qed

lemma num_end_digit: "num_end r \<Longrightarrow> r = [] \<or> \<not> is_digit (hd r)"
  by (cases r) (simp_all add: num_end_def)

lemma parse_sign:
  assumes "ds \<noteq> []" "\<forall>c\<in>set ds. is_digit c" "r = [] \<or> \<not> is_digit (hd r)" "\<not> (hd ds = CHR ''0'' \<and> 1 < length ds)"
  shows "parse_number ((if neg then [CHR ''-''] else []) @ ds @ r) =
    (case scan_fraction r of (fs, r1) \<Rightarrow>
       if fs = [] \<and> r1 \<noteq> r then None
       else map_option (\<lambda>(ex, r2). (dec_json (decimal neg ds fs ex), r2)) (scan_exponent r1))"
proof -
  obtain c t where c: "ds = c # t" "is_digit c" using assms(1,2) by (cases ds) auto
  then have "c \<noteq> CHR ''-''" using digit_not_special by blast
  then have "(case (if neg then [CHR ''-''] else []) @ ds @ r of [] \<Rightarrow> False | c # _ \<Rightarrow> c = CHR ''-'') = neg"
    by (simp add: c)
  moreover have "(if neg then tl ((if neg then [CHR ''-''] else []) @ ds @ r) else (if neg then [CHR ''-''] else []) @ ds @ r) = ds @ r"
    by simp
  ultimately show ?thesis
    using assms(1,4) scan_digits [OF assms(2,3)]
    unfolding parse_number_def Let_def by (simp only:) simp
qed

lemma parse_show_int:
  assumes "num_end r"
  shows "parse_number (show_int i @ r) = Some (JNum i, r)"
proof -
  have shown: "show_int i = (if i < 0 then [CHR ''-''] else []) @ show_nat (nat \<bar>i\<bar>)"
    by (simp add: show_int_def)
  have "decimal (i < 0) (show_nat (nat \<bar>i\<bar>)) [] 0 = (i, 0)"
    by (simp add: decimal_def read_show_nat Let_def)
  then show ?thesis
    using parse_sign [of "show_nat (nat \<bar>i\<bar>)" r "i < 0"] show_nat_digits show_nat_no_leading_zero [of "nat \<bar>i\<bar>"]
      num_end_digit [OF assms] scan_num_end [OF assms]
    unfolding shown by (auto simp: dec_json_def)
qed

section \<open>Fractions\<close>

lemma read_nat_append_digits: "read_nat (replicate n (CHR ''0'') @ ds) = read_nat ds"
  by (induction n) (simp_all add: read_nat_def)

lemma strip_zeros_least: "m mod 10 \<noteq> 0 \<Longrightarrow> strip_zeros m k = (m, k)"
  by (cases k) simp_all

definition dec_ok :: "int \<Rightarrow> nat \<Rightarrow> bool" where
  "dec_ok m k \<longleftrightarrow> 0 < k \<and> m mod 10 \<noteq> 0 \<and> k < length (show_nat (nat \<bar>m\<bar>)) + 6"

text \<open>A fraction of at least a millionth is written with its point.\<close>

lemma show_dec_point:
  assumes "dec_ok m k"
  obtains ds fs where "show_dec m k = (if m < 0 then [CHR ''-''] else []) @ ds @ CHR ''.'' # fs"
    and "ds \<noteq> []" "fs \<noteq> []" "\<forall>c\<in>set (ds @ fs). is_digit c" "\<not> (hd ds = CHR ''0'' \<and> 1 < length ds)"
    and "decimal (m < 0) ds fs 0 = (m, k)"
proof -
  let ?t = "show_nat (nat \<bar>m\<bar>)" and ?n = "length (show_nat (nat \<bar>m\<bar>))"
  have dec: "decimal (m < 0) ds fs 0 = (m, k)"
    if "read_nat (ds @ fs) = nat \<bar>m\<bar>" "length fs = k" for ds fs
    using that assms strip_zeros_least [of m k] by (auto simp: decimal_def Let_def dec_ok_def)
  have zero: "is_digit (CHR ''0'')" by (simp add: is_digit_def)
  show thesis
  proof (cases "k < ?n")
    case True
    have "decimal (m < 0) (take (?n - k) ?t) (drop (?n - k) ?t) 0 = (m, k)"
      using True by (intro dec) (simp_all add: read_show_nat)
    moreover have "\<not> (hd (take (?n - k) ?t) = CHR ''0'' \<and> 1 < length (take (?n - k) ?t))"
      using True show_nat_no_leading_zero [of "nat \<bar>m\<bar>"] by (auto simp: hd_take)
    moreover have "set (take (?n - k) ?t @ drop (?n - k) ?t) = set ?t" by simp
    moreover have "show_dec m k = (if m < 0 then [CHR ''-''] else []) @ take (?n - k) ?t @ CHR ''.'' # drop (?n - k) ?t"
      by (simp only: show_dec_def Let_def True if_True) (cases "m < 0"; simp)
    moreover have "take (?n - k) ?t \<noteq> []" "drop (?n - k) ?t \<noteq> []" using True assms by (auto simp: dec_ok_def)
    ultimately show ?thesis using that show_nat_digits by blast
  next
    case False
    let ?fs = "replicate (k - ?n) (CHR ''0'') @ ?t"
    have "read_nat (''0'' @ ?fs) = nat \<bar>m\<bar>"
      using read_nat_append_digits [of "Suc (k - ?n)" ?t] by (simp add: read_show_nat)
    then have "decimal (m < 0) ''0'' ?fs 0 = (m, k)" using False by (intro dec) simp_all
    moreover have small: "k - ?n < 6" using assms False unfolding dec_ok_def by linarith
    have "show_dec m k = (if m < 0 then [CHR ''-''] else []) @ ''0'' @ CHR ''.'' # ?fs"
      by (simp only: show_dec_def Let_def False small if_False if_True) (cases "m < 0"; simp)
    moreover have "\<forall>c\<in>set (''0'' @ ?fs). is_digit c" using show_nat_digits zero by auto
    ultimately show ?thesis using that [of "''0''" ?fs] by simp
  qed
qed

lemma parse_show_dec:
  assumes "dec_ok m k" "num_end r"
  shows "parse_number (show_dec m k @ r) = Some (JDec m k, r)"
proof -
  obtain ds fs where shown: "show_dec m k = (if m < 0 then [CHR ''-''] else []) @ ds @ CHR ''.'' # fs"
    and ne: "ds \<noteq> []" "fs \<noteq> []" and dig: "\<forall>c\<in>set (ds @ fs). is_digit c"
    and lead: "\<not> (hd ds = CHR ''0'' \<and> 1 < length ds)" and val: "decimal (m < 0) ds fs 0 = (m, k)"
    by (rule show_dec_point [OF assms(1)])
  have "scan_fraction (CHR ''.'' # fs @ r) = (fs, r)"
    using scan_digits [of fs r] dig num_end_digit [OF assms(2)] by (simp add: scan_fraction_def)
  moreover have "dec_json (m, k) = JDec m k" using assms(1) by (simp add: dec_json_def dec_ok_def)
  moreover have "\<not> is_digit (CHR ''.'')" by (simp add: is_digit_def)
  ultimately show ?thesis
    using parse_sign [of ds "CHR ''.'' # fs @ r" "m < 0"] ne dig lead val scan_num_end(2) [OF assms(2)]
    unfolding shown by simp
qed

text \<open>A fraction starts with a digit or its sign.\<close>

lemma show_dec_head: obtains c t where "show_dec m k = c # t" "is_digit c \<or> c = CHR ''-''"
proof -
  let ?t = "show_nat (nat \<bar>m\<bar>)"
  obtain c t where t: "?t = c # t" "is_digit c" by (rule show_nat_head)
  have "is_digit (CHR ''0'')" by (simp add: is_digit_def)
  with t that show thesis
    by (cases "m < 0"; cases "k < length ?t"; cases "k - length ?t < 6") (auto simp: show_dec_def Let_def take_Cons' Suc_diff_le)
qed

section \<open>Values\<close>

fun json_ok :: "json \<Rightarrow> bool"
  and elems_ok :: "json list \<Rightarrow> bool"
  and members_ok :: "(string \<times> json) list \<Rightarrow> bool" where
  "json_ok (JDec m k) = dec_ok m k"
| "json_ok (JArr xs) = elems_ok xs"
| "json_ok (JObj ms) = (distinct (map fst ms) \<and> members_ok ms)"
| "json_ok _ = True"
| "elems_ok [] = True"
| "elems_ok (x # xs) = (json_ok x \<and> elems_ok xs)"
| "members_ok [] = True"
| "members_ok ((k, v) # ms) = (json_ok v \<and> members_ok ms)"

lemma map_set_fresh: "k \<notin> fst ` set m \<Longrightarrow> map_set k v m = m @ [(k, v)]"
  by (induction m) (auto simp: map_set_def)

text \<open>Inserting the members of an object one after the other keeps them in order.\<close>

lemma foldl_map_set_distinct:
  "distinct (map fst acc @ map fst ms) \<Longrightarrow> foldl (\<lambda>m (k, v). map_set k v m) acc ms = acc @ ms"
proof (induction ms arbitrary: acc)
  case Nil
  then show ?case by simp
next
  case (Cons kv ms)
  obtain k v where kv: "kv = (k, v)" by (cases kv)
  with Cons.prems have "map_set k v acc = acc @ [(k, v)]"
    by (intro map_set_fresh) auto
  with Cons kv show ?case by simp
qed

lemma obj_of_distinct: "distinct (map fst ms) \<Longrightarrow> obj_of ms = JObj ms"
  by (simp add: obj_of_def foldl_map_set_distinct)

definition value_start :: "char \<Rightarrow> bool" where
  "value_start c = (\<not> json_ws c \<and> c \<noteq> CHR '']'' \<and> c \<noteq> CHR 0x7D)"

lemma json_text_head: obtains c t where "json_stringify v = c # t" "value_start c"
proof (cases v)
  case (JNum n)
  obtain c t where "show_nat (nat (if n < 0 then - n else n)) = c # t" "is_digit c"
    by (rule show_nat_head)
  with JNum digit_not_special that show ?thesis
    by (cases "n < 0") (auto simp: show_int_def value_start_def json_ws_def)
next
  case (JDec m k)
  obtain c t where head: "show_dec m k = c # t" "is_digit c \<or> c = CHR ''-''" by (rule show_dec_head)
  from head(2) have "value_start c"
  proof
    assume "is_digit c"
    with digit_not_special show ?thesis unfolding value_start_def by blast
  qed (simp add: value_start_def json_ws_def)
  with that [of c t] JDec head(1) show ?thesis by simp
next
  case (JBool b)
  with that show ?thesis by (cases b) (auto simp: value_start_def json_ws_def)
qed (use that in \<open>auto simp: value_start_def json_ws_def json_quote_def\<close>)

lemma skip_ws_start: "\<not> json_ws c \<Longrightarrow> skip_ws (c # r) = c # r"
  by (simp add: skip_ws_def)

lemma skip_ws_text: "skip_ws (json_stringify v @ r) = json_stringify v @ r"
  by (rule json_text_head [of v]) (simp add: skip_ws_start value_start_def)

lemma num_end_sep: "c \<in> {CHR '','', CHR '']'', CHR 0x7D} \<Longrightarrow> num_end (c # r)"
  by (auto simp: num_end_def is_digit_def)

lemma skip_ws_sep: "c \<in> {CHR '','', CHR '']'', CHR 0x7D, CHR '':'', CHR 0x22} \<Longrightarrow> skip_ws (c # r) = c # r"
  by (auto simp: skip_ws_def json_ws_def)

lemma parse_value_scalar:
  "num_end r \<Longrightarrow> parse_value (Suc n) (json_stringify JNull @ r) = Some (JNull, r)"
  "parse_value (Suc n) (json_stringify (JBool b) @ r) = Some (JBool b, r)"
  "parse_value (Suc n) (json_stringify (JStr s) @ r) = Some (JStr s, r)"
  by (simp_all add: skip_ws_def json_ws_def json_quote_def parse_str_quote)

lemma show_int_head: obtains c t where "show_int i = c # t" "is_digit c \<or> c = CHR ''-''"
proof (cases "i < 0")
  case False
  obtain c t where "show_nat (nat i) = c # t" "is_digit c" by (rule show_nat_head)
  with False that show ?thesis by (simp add: show_int_def)
qed (use that in \<open>simp add: show_int_def\<close>)

text \<open>A text that starts as a number does is read as one.\<close>

lemma parse_value_number:
  assumes "is_digit c \<or> c = CHR ''-''" "parse_number (c # t) = Some w"
  shows "parse_value (Suc n) (c # t) = Some w"
proof -
  from assms(1) have "\<not> json_ws c \<and> c \<noteq> CHR 0x22 \<and> c \<noteq> CHR ''['' \<and> c \<noteq> CHR 0x7B
      \<and> c \<noteq> CHR ''n'' \<and> c \<noteq> CHR ''t'' \<and> c \<noteq> CHR ''f''"
  proof
    assume "c = CHR ''-''"
    then show ?thesis by (simp add: json_ws_def)
  qed (use digit_not_special in blast)
  with assms(2) show ?thesis by (simp add: skip_ws_start)
qed

lemma parse_value_num:
  assumes "num_end r"
  shows "parse_value (Suc n) (json_stringify (JNum i) @ r) = Some (JNum i, r)"
proof -
  obtain c t where c: "show_int i = c # t" "is_digit c \<or> c = CHR ''-''" by (rule show_int_head)
  with parse_value_number [OF c(2), of "t @ r"] parse_show_int [OF assms, of i] show ?thesis by simp
qed

lemma parse_value_dec:
  assumes "dec_ok m k" "num_end r"
  shows "parse_value (Suc n) (json_stringify (JDec m k) @ r) = Some (JDec m k, r)"
proof -
  obtain c t where c: "show_dec m k = c # t" "is_digit c \<or> c = CHR ''-''" by (rule show_dec_head)
  with parse_value_number [OF c(2), of "t @ r"] parse_show_dec [OF assms] show ?thesis by simp
qed

lemma parse_value_array:
  assumes "xs \<noteq> []" "parse_elems n (elems_text xs @ CHR '']'' # r) = Some (xs, r)"
  shows "parse_value (Suc n) (json_stringify (JArr xs) @ r) = Some (JArr xs, r)"
proof -
  obtain x ys where xs: "xs = x # ys" using assms(1) by (cases xs) auto
  obtain c t where "json_stringify x = c # t" "value_start c" by (rule json_text_head)
  with assms xs show ?thesis
    by (simp add: skip_ws_start json_ws_def value_start_def)
qed

lemma parse_value_object:
  assumes "ms \<noteq> []" "distinct (map fst ms)"
    and "parse_members n (members_text ms @ CHR 0x7D # r) = Some (ms, r)"
  shows "parse_value (Suc n) (json_stringify (JObj ms) @ r) = Some (JObj ms, r)"
proof -
  obtain k v ns where ms: "ms = (k, v) # ns" using assms(1) by (cases ms) auto
  with assms show ?thesis
    by (simp add: skip_ws_start json_ws_def json_quote_def obj_of_distinct)
qed

lemma parse_stringify:
  "json_ok v \<Longrightarrow> 2 * length (json_stringify v) \<le> n \<Longrightarrow> num_end r \<Longrightarrow>
     parse_value n (json_stringify v @ r) = Some (v, r)"
  "elems_ok xs \<Longrightarrow> xs \<noteq> [] \<Longrightarrow> 2 * length (elems_text xs) < n \<Longrightarrow>
     parse_elems n (elems_text xs @ CHR '']'' # r) = Some (xs, r)"
  "members_ok ms \<Longrightarrow> ms \<noteq> [] \<Longrightarrow> 2 * length (members_text ms) < n \<Longrightarrow>
     parse_members n (members_text ms @ CHR 0x7D # r) = Some (ms, r)"
proof (induction v and xs and ms arbitrary: n r and n r and n r
    rule: json_stringify_elems_text_members_text.induct)
  case 1
  then show ?case using parse_value_scalar(1) by (cases n) simp_all
next
  case (2 b)
  then show ?case using parse_value_scalar(2) by (cases n) (simp_all split: if_splits)
next
  case (3 i)
  moreover have "show_int i \<noteq> []" by (simp add: show_int_def)
  ultimately have "n \<noteq> 0" by (cases "show_int i") auto
  with 3 show ?case using parse_value_num by (cases n) simp_all
next
  case (4 m k)
  moreover obtain c t where "show_dec m k = c # t" by (rule show_dec_head)
  ultimately have "n \<noteq> 0" "dec_ok m k" by auto
  with 4 show ?case using parse_value_dec by (cases n) simp_all
next
  case (5 s)
  then show ?case using parse_value_scalar(3) by (cases n) (simp_all add: json_quote_def)
next
  case (6 xs)
  then obtain m where n: "n = Suc m" by (cases n) auto
  show ?case
  proof (cases "xs = []")
    case True
    with n show ?thesis by (simp add: skip_ws_def json_ws_def)
  next
    case False
    have "parse_elems m (elems_text xs @ CHR '']'' # r) = Some (xs, r)"
      using 6 n False by simp
    with False n show ?thesis using parse_value_array by blast
  qed
next
  case (7 ms)
  then obtain m where n: "n = Suc m" by (cases n) auto
  show ?case
  proof (cases "ms = []")
    case True
    with n show ?thesis by (simp add: skip_ws_def json_ws_def)
  next
    case False
    have "parse_members m (members_text ms @ CHR 0x7D # r) = Some (ms, r)"
      using 7 n False by simp
    with False n 7(2) show ?thesis using parse_value_object by simp
  qed
next
  case (9 x xs)
  then obtain m where n: "n = Suc m" by (cases n) auto
  let ?rest = "if xs = [] then CHR '']'' # r else CHR '','' # elems_text xs @ CHR '']'' # r"
  have "parse_value m (json_stringify x @ ?rest) = Some (x, ?rest)"
    using 9(1) [of m ?rest] 9(3,5) n by (simp add: num_end_sep split: if_splits)
  moreover have "xs \<noteq> [] \<Longrightarrow> parse_elems m (elems_text xs @ CHR '']'' # r) = Some (xs, r)"
    using 9(2) [of m r] 9(3,5) n by simp
  ultimately show ?case using n by (simp add: skip_ws_sep split: if_splits)
next
  case (11 k v ms)
  then obtain m where n: "n = Suc m" by (cases n) auto
  let ?rest = "if ms = [] then CHR 0x7D # r else CHR '','' # members_text ms @ CHR 0x7D # r"
  have "parse_value m (json_stringify v @ ?rest) = Some (v, ?rest)"
    using 11(1) [of m ?rest] 11(3,5) n by (simp add: num_end_sep split: if_splits)
  moreover have "ms \<noteq> [] \<Longrightarrow> parse_members m (members_text ms @ CHR 0x7D # r) = Some (ms, r)"
    using 11(2) [of m r] 11(3,5) n by simp
  ultimately show ?case
    using n by (simp add: skip_ws_sep json_quote_def parse_str_quote split: if_splits)
qed simp_all

theorem json_roundtrip: "json_ok v \<Longrightarrow> json_parse (json_stringify v) = Some v"
  using parse_stringify(1) [of v "2 * length (json_stringify v) + 2" "[]"]
  by (simp add: json_parse_def num_end_def skip_ws_def)

lemma json_stringify_inject: "json_ok v \<Longrightarrow> json_ok w \<Longrightarrow> json_stringify v = json_stringify w \<Longrightarrow> v = w"
  by (metis json_roundtrip option.inject)

lemma read_payload_stringify: "json_ok v \<Longrightarrow> read_payload (Some (JStr (json_stringify v))) = Inr (Some v)"
  by (simp add: json_roundtrip)

lemma members_ok_append [simp]: "members_ok (xs @ ys) \<longleftrightarrow> members_ok xs \<and> members_ok ys"
  by (induction xs) auto

end
