(* ===== verification/TextCodec.thy ===== *)
theory TextCodec
  imports JsonRoundtrip
begin

text \<open>
  \<open>TextEncoder\<close> and \<open>TextDecoder\<close>: the platform's UTF-8 codec. Strings are kept as
  their UTF-8 bytes, so encoding changes the type only; decoding follows the
  platform's algorithm: a leading byte order mark is dropped and every malformed
  subsequence becomes U+FFFD. The lemmas show that well-formed text without the mark
  survives, and that JSON texts over well-formed strings are well-formed.
\<close>

definition byte_of :: "char \<Rightarrow> byte" where
  "byte_of c = of_nat (of_char c)"

definition char_of_byte :: "byte \<Rightarrow> char" where
  "char_of_byte b = char_of (unat b)"

lemma unat_byte_of [simp]: "unat (byte_of c) = of_char c"
  by (simp add: byte_of_def unat_of_nat take_bit_eq_mod)

lemma char_of_byte_of [simp]: "char_of_byte (byte_of c) = c"
  by (simp add: char_of_byte_def)

lemma byte_of_inject [simp]: "byte_of c = byte_of d \<longleftrightarrow> c = d"
  by (metis char_of_byte_of)

definition text_encode :: "string \<Rightarrow> byte list" where
  "text_encode s = map byte_of s"

lemma text_encode_append [simp]: "text_encode (s @ t) = text_encode s @ text_encode t"
  by (simp add: text_encode_def)

lemma text_encode_inject [simp]: "text_encode s = text_encode t \<longleftrightarrow> s = t"
  by (simp add: text_encode_def inj_map_eq_map inj_on_def)

lemma length_text_encode [simp]: "length (text_encode s) = length s"
  by (simp add: text_encode_def)

section \<open>The decoder\<close>

definition replacement :: string where
  "replacement = [char_of (239 :: nat), char_of (191 :: nat), char_of (189 :: nat)]"

text \<open>The continuation bytes a lead byte asks for, and the range of the first one.\<close>

definition lead_byte :: "byte \<Rightarrow> (nat \<times> nat \<times> nat) option" where
  "lead_byte b =
     (let n = unat b in
      if 194 \<le> n \<and> n \<le> 223 then Some (1, 128, 191)
      else if 224 \<le> n \<and> n \<le> 239
      then Some (2, if n = 224 then 160 else 128, if n = 237 then 159 else 191)
      else if 240 \<le> n \<and> n \<le> 244
      then Some (3, if n = 240 then 144 else 128, if n = 244 then 143 else 191)
      else None)"

text \<open>
  \<open>utf8_decode needed lo hi acc\<close>: \<open>acc\<close> is the sequence read so far, and \<open>needed\<close>
  more bytes are expected, the next between \<open>lo\<close> and \<open>hi\<close>. A byte that does not
  fit ends the sequence and is read again as the start of the next one.
\<close>

function utf8_decode :: "nat \<Rightarrow> nat \<Rightarrow> nat \<Rightarrow> byte list \<Rightarrow> byte list \<Rightarrow> string" where
  "utf8_decode needed lo hi acc [] = (if needed = 0 then [] else replacement)"
| "utf8_decode 0 lo hi acc (b # bs) =
     (if unat b < 128 then char_of_byte b # utf8_decode 0 0 0 [] bs
      else case lead_byte b of
             None \<Rightarrow> replacement @ utf8_decode 0 0 0 [] bs
           | Some (n, l, h) \<Rightarrow> utf8_decode n l h [b] bs)"
| "utf8_decode (Suc n) lo hi acc (b # bs) =
     (if lo \<le> unat b \<and> unat b \<le> hi
      then (if n = 0 then map char_of_byte (acc @ [b]) @ utf8_decode 0 0 0 [] bs
            else utf8_decode n 128 191 (acc @ [b]) bs)
      else replacement @ utf8_decode 0 0 0 [] (b # bs))"
  by pat_completeness auto
termination
  by (relation "measure (\<lambda>(needed, lo, hi, acc, bs). 2 * length bs + (if needed = 0 then 0 else 1))") auto

definition bom :: "byte list" where
  "bom = [239, 187, 191]"

definition text_decode :: "byte list \<Rightarrow> string" where
  "text_decode bs = utf8_decode 0 0 0 [] (if take 3 bs = bom then drop 3 bs else bs)"

section \<open>Well-formed text\<close>

text \<open>The UTF-8 encodings of one code point (surrogates and overlong forms excluded).\<close>

fun cont_bytes :: "nat \<Rightarrow> nat \<Rightarrow> nat \<Rightarrow> byte list \<Rightarrow> bool" where
  "cont_bytes 0 lo hi [] = True"
| "cont_bytes (Suc n) lo hi (b # bs) = (lo \<le> unat b \<and> unat b \<le> hi \<and> cont_bytes n 128 191 bs)"
| "cont_bytes _ _ _ _ = False"

definition utf8_point :: "string \<Rightarrow> bool" where
  "utf8_point s =
     (case text_encode s of
        [] \<Rightarrow> False
      | b # bs \<Rightarrow> if unat b < 128 then bs = []
                  else case lead_byte b of None \<Rightarrow> False | Some (n, lo, hi) \<Rightarrow> cont_bytes n lo hi bs)"

inductive utf8 :: "string \<Rightarrow> bool" where
  utf8_Nil: "utf8 []"
| utf8_point: "utf8_point p \<Longrightarrow> utf8 s \<Longrightarrow> utf8 (p @ s)"

lemma utf8_append: "utf8 s \<Longrightarrow> utf8 t \<Longrightarrow> utf8 (s @ t)"
  by (induction rule: utf8.induct) (auto intro: utf8.intros)

lemma utf8_ascii: "\<forall>c\<in>set s. (of_char c :: nat) < 128 \<Longrightarrow> utf8 s"
proof (induction s)
  case (Cons c s)
  then have "utf8_point [c]" by (simp add: utf8_point_def text_encode_def)
  with Cons utf8.utf8_point [of "[c]" s] show ?case by simp
qed (rule utf8_Nil)

lemma utf8_decode_cont:
  "cont_bytes n lo hi bs \<Longrightarrow> 0 < n \<Longrightarrow>
     utf8_decode n lo hi acc (bs @ r) = map char_of_byte (acc @ bs) @ utf8_decode 0 0 0 [] r"
  by (induction n lo hi bs arbitrary: acc rule: cont_bytes.induct) (auto simp: gr0_conv_Suc elim!: cont_bytes.elims)

lemma lead_byte_pos: "lead_byte b = Some (n, lo, hi) \<Longrightarrow> 0 < n"
  by (auto simp: lead_byte_def Let_def split: if_splits)

lemma utf8_decode_point:
  assumes "utf8_point p"
  shows "utf8_decode 0 0 0 [] (text_encode p @ r) = p @ utf8_decode 0 0 0 [] r"
proof -
  obtain c cs where p: "p = c # cs" using assms by (cases p) (auto simp: utf8_point_def text_encode_def)
  have chars: "map (char_of_byte \<circ> byte_of) cs = cs" by (simp add: map_idI)
  show ?thesis
    using assms p chars lead_byte_pos [of "byte_of c"]
    by (auto simp: utf8_point_def text_encode_def utf8_decode_cont split: option.splits if_splits)
qed

lemma utf8_decode_encode: "utf8 s \<Longrightarrow> utf8_decode 0 0 0 [] (text_encode s) = s"
  by (induction rule: utf8.induct) (simp_all add: utf8_decode_point text_encode_def [of "[]"])

lemma text_decode_encode:
  "utf8 s \<Longrightarrow> take 3 (text_encode s) \<noteq> bom \<Longrightarrow> text_decode (text_encode s) = s"
  by (simp add: text_decode_def utf8_decode_encode)

text \<open>Text that starts with an ASCII character has no byte order mark.\<close>

lemma unat_239: "unat (239 :: byte) = 239"
  by simp

lemma ascii_start_no_bom: "(of_char c :: nat) < 128 \<Longrightarrow> take 3 (text_encode (c # s)) \<noteq> bom"
proof
  assume c: "(of_char c :: nat) < 128" and "take 3 (text_encode (c # s)) = bom"
  then have "byte_of c = 239" by (simp add: text_encode_def bom_def numeral_3_eq_3)
  then have "of_char c = (239 :: nat)" by (metis unat_byte_of unat_239)
  with c show False by simp
qed

section \<open>JSON texts are well-formed\<close>

fun json_utf8 :: "json \<Rightarrow> bool"
  where
  "json_utf8 (JStr s) = utf8 s"
| "json_utf8 (JArr xs) = (\<forall>x\<in>set xs. json_utf8 x)"
| "json_utf8 (JObj ms) = (\<forall>(k, v)\<in>set ms. utf8 k \<and> json_utf8 v)"
| "json_utf8 _ = True"

lemma ascii_escape: "(of_char c :: nat) < 128 \<Longrightarrow> \<forall>d\<in>set (json_escape c). (of_char d :: nat) < 128"
  by (auto simp: json_escape_def hex_digit_def Let_def of_char_of)

lemma escape_high: "128 \<le> (of_char c :: nat) \<Longrightarrow> json_escape c = [c]"
  by (auto simp: json_escape_def Let_def)

lemma cont_bytes_high: "cont_bytes n lo hi bs \<Longrightarrow> 128 \<le> lo \<Longrightarrow> b \<in> set bs \<Longrightarrow> 128 \<le> unat b"
  by (induction n lo hi bs rule: cont_bytes.induct) auto

lemma lead_byte_high: "lead_byte b = Some (n, lo, hi) \<Longrightarrow> 128 \<le> unat b \<and> 128 \<le> lo"
  by (auto simp: lead_byte_def Let_def split: if_splits)

lemma utf8_escape_point:
  assumes "utf8_point p"
  shows "utf8 (concat (map json_escape p))"
proof (cases "\<exists>c. p = [c] \<and> (of_char c :: nat) < 128")
  case True
  then show ?thesis using ascii_escape by (auto intro!: utf8_ascii)
next
  case False
  then have "\<forall>c\<in>set p. 128 \<le> (of_char c :: nat)"
    using assms cont_bytes_high lead_byte_high
    by (cases p) (auto simp: utf8_point_def text_encode_def not_less split: if_splits option.splits, fastforce)
  then have "concat (map json_escape p) = p" by (induction p) (simp_all add: escape_high)
  then show ?thesis using assms utf8.utf8_point [OF assms utf8_Nil] by simp
qed

lemma utf8_quote: "utf8 s \<Longrightarrow> utf8 (json_quote s)"
proof -
  have "utf8 (concat (map json_escape s))" if "utf8 s" for s
    using that by (induction rule: utf8.induct) (auto intro: utf8_Nil utf8_append utf8_escape_point)
  then show "utf8 (json_quote s)" if "utf8 s"
    using that utf8_append [OF utf8_append [OF utf8_ascii [of "[CHR 0x22]"]] utf8_ascii [of "[CHR 0x22]"]]
    by (simp add: json_quote_def)
qed

lemma utf8_Cons: "(of_char c :: nat) < 128 \<Longrightarrow> utf8 s \<Longrightarrow> utf8 (c # s)"
  using utf8_append [OF utf8_ascii [of "[c]"]] by simp

lemma show_nat_ascii: "\<forall>c\<in>set (show_nat n). (of_char c :: nat) < 128"
proof (induction n rule: show_nat.induct)
  case (1 n)
  have "(of_char (char_of (48 + n mod 10) :: char) :: nat) < 128" by (simp add: of_char_of)
  moreover have "n < 10 \<Longrightarrow> (of_char (char_of (48 + n) :: char) :: nat) < 128" by (simp add: of_char_of)
  ultimately show ?case using 1 by (subst show_nat.simps) auto
qed

lemma utf8_show_nat: "utf8 (show_nat n)"
  by (rule utf8_ascii [OF show_nat_ascii])

lemma show_nat_nonempty: "show_nat n \<noteq> []"
  by (subst show_nat.simps) simp

lemma show_dec_ascii: "\<forall>c\<in>set (show_dec m k). (of_char c :: nat) < 128" "show_dec m k \<noteq> []"
proof -
  obtain c t where digits: "show_nat (nat \<bar>m\<bar>) = c # t"
    using show_nat_nonempty [of "nat \<bar>m\<bar>"] by (cases "show_nat (nat \<bar>m\<bar>)") auto
  have ascii: "\<forall>d\<in>set (c # t). (of_char d :: nat) < 128" using show_nat_ascii [of "nat \<bar>m\<bar>"] unfolding digits .
  then have parts: "\<forall>d\<in>set (take n (c # t)). (of_char d :: nat) < 128" "\<forall>d\<in>set (drop n (c # t)). (of_char d :: nat) < 128" for n
    by (meson in_set_takeD, meson in_set_dropD)
  have ex: "\<forall>d\<in>set (show_nat n). (of_char d :: nat) < 128" for n by (rule show_nat_ascii)
  have zeros: "\<forall>d\<in>set (replicate n (CHR ''0'')). (of_char d :: nat) < 128" for n by simp
  show "\<forall>d\<in>set (show_dec m k). (of_char d :: nat) < 128"
    unfolding show_dec_def Let_def digits
    using ascii parts ex zeros by (simp only: set_append set_simps list.sel if_split ball_Un) (simp add: ball_Un)
  show "show_dec m k \<noteq> []"
    unfolding show_dec_def Let_def digits by simp
qed

lemma utf8_stringify:
  "json_utf8 v \<Longrightarrow> utf8 (json_stringify v)"
  "\<forall>x\<in>set xs. json_utf8 x \<Longrightarrow> utf8 (elems_text xs)"
  "\<forall>(k, v)\<in>set ms. utf8 k \<and> json_utf8 v \<Longrightarrow> utf8 (members_text ms)"
  by (induction v and xs and ms rule: json_stringify_elems_text_members_text.induct)
    (auto simp: show_int_def intro!: utf8_Cons utf8_append utf8_Nil utf8_quote utf8_show_nat
      utf8_ascii [OF show_dec_ascii(1)])

text \<open>A JSON text starts with an ASCII character.\<close>

lemma stringify_start: "\<exists>c r. json_stringify v = c # r \<and> (of_char c :: nat) < 128"
proof (cases v)
  case (JNum n)
  have "\<exists>c r. show_nat k = c # r \<and> (of_char c :: nat) < 128" for k
  proof (induction k rule: show_nat.induct)
    case (1 n)
    then show ?case by (subst show_nat.simps) (auto simp: of_char_of)
  qed
  with JNum show ?thesis by (auto simp: show_int_def)
next
  case (JDec m k)
  then show ?thesis using show_dec_ascii [of m k] by (cases "show_dec m k") auto
qed (auto simp: json_quote_def)

lemma text_decode_json: "json_utf8 v \<Longrightarrow> text_decode (text_encode (json_stringify v)) = json_stringify v"
  using stringify_start [of v] ascii_start_no_bom by (auto intro: text_decode_encode utf8_stringify)

end
