(* ===== verification/Server.thy ===== *)
theory Server
  imports Manager Worker TextCodec
begin

text \<open>
  The worker's HTTP server (\<^verbatim>\<open>services/worker/src/index.js\<close>): rate limiting,
  authentication, job submission and status, result tracking with an optional
  callback, and the composition with the manager, which shares the queue.
  The configuration record holds what the process environment and the platform
  provide: the auth token, SHA-256, the callback allowlist and the DNS lookup.
\<close>

section \<open>State\<close>

definition MAX_RESULTS :: nat where "MAX_RESULTS = 1000"
definition MAX_SUBMITTED_JOBS :: nat where "MAX_SUBMITTED_JOBS = 10000"
definition RATE_LIMIT_WINDOW_MS :: int where "RATE_LIMIT_WINDOW_MS = 60000"
definition RATE_LIMIT_MAX_REQUESTS :: nat where "RATE_LIMIT_MAX_REQUESTS = 60"
definition MAX_RATE_LIMIT_IPS :: nat where "MAX_RATE_LIMIT_IPS = 10000"
definition MAX_BODY :: nat where "MAX_BODY = 1024 * 1024"

record rate_entry =
  rl_count :: nat
  rl_resetAt :: time

record result_entry =
  res_id :: uuid
  res_result :: job_result
  completedAt :: time

record server_cfg =
  AUTH_TOKEN :: string
  sha256 :: "string \<Rightarrow> byte list"
  callback_hosts_env :: string
  dns_lookup :: "string \<Rightarrow> js_error + string"
  worker_env_of :: worker_env

record server =
  rateLimitMap :: "(string, rate_entry) jmap"
  manager_of :: "job_result manager"
  results :: "(uuid, result_entry) jmap"
  submittedJobs :: "uuid list"

definition new_server :: server where
  "new_server =
     \<lparr>rateLimitMap = [], manager_of = new_manager empty_queue True, results = [], submittedJobs = []\<rparr>"

section \<open>Rate limiting\<close>

text \<open>The entry is fetched or replaced, its counter incremented in place, and the oldest key evicted.\<close>

definition checkRateLimit ::
  "time \<Rightarrow> string \<Rightarrow> (string, rate_entry) jmap \<Rightarrow> (string, rate_entry) jmap \<times> bool" where
  "checkRateLimit now ip m =
     (let entry = (case map_get m ip of
                     None \<Rightarrow> \<lparr>rl_count = 0, rl_resetAt = now + RATE_LIMIT_WINDOW_MS\<rparr>
                   | Some e \<Rightarrow> if rl_resetAt e \<le> now
                               then \<lparr>rl_count = 0, rl_resetAt = now + RATE_LIMIT_WINDOW_MS\<rparr> else e);
          entry' = entry\<lparr>rl_count := Suc (rl_count entry)\<rparr>;
          m1 = map_set ip entry' m;
          m2 = (if MAX_RATE_LIMIT_IPS < length m1 then map_delete (hd (map_keys m1)) m1 else m1)
      in (m2, rl_count entry' \<le> RATE_LIMIT_MAX_REQUESTS))"

section \<open>Authentication\<close>

definition bearer_token :: "string option \<Rightarrow> string" where
  "bearer_token header =
     (let h = (case header of None \<Rightarrow> [] | Some s \<Rightarrow> s) in
      if js_startsWith h ''Bearer '' then drop 7 h else [])"

definition checkAuth :: "server_cfg \<Rightarrow> string option \<Rightarrow> bool" where
  "checkAuth cfg header =
     (if AUTH_TOKEN cfg = [] then True
      else let token = bearer_token header in
        if token = [] then False
        else sha256 cfg token = sha256 cfg (AUTH_TOKEN cfg))"

section \<open>Results and callbacks\<close>

definition ip_part :: "string \<Rightarrow> nat \<Rightarrow> dec option" where
  "ip_part address k =
     (let parts = map string_number (js_split (CHR ''.'') address) in
      if k < length parts then parts ! k else None)"

definition isPrivate :: "string \<Rightarrow> bool" where
  "isPrivate address =
     (address = ''::1''
      \<or> ip_part address 0 = Some (127, 0)
      \<or> ip_part address 0 = Some (10, 0)
      \<or> (ip_part address 0 = Some (172, 0)
         \<and> (case ip_part address 1 of None \<Rightarrow> False | Some n \<Rightarrow> \<not> dec_less n (16, 0) \<and> \<not> dec_less (31, 0) n))
      \<or> (ip_part address 0 = Some (192, 0) \<and> ip_part address 1 = Some (168, 0))
      \<or> ip_part address 0 = Some (0, 0))"

definition callback_ports :: "string list" where
  "callback_ports = [''80'', ''443'', ''8080'', ''9100'']"

text \<open>The checks of \<open>trackResult\<close> before the callback: the URL to fetch, or why it is rejected.\<close>

definition callback_check :: "server_cfg \<Rightarrow> json \<Rightarrow> js_error + string" where
  "callback_check cfg cb =
     (let hosts = allowlist (callback_hosts_env cfg) in
      case parse_url (worker_env_of cfg) cb of
        None \<Rightarrow> Inl InvalidURL
      | Some u \<Rightarrow>
          if url_protocol u \<notin> {''http:'', ''https:''}
          then Inl (ErrorMsg (''disallowed protocol: '' @ url_protocol u))
          else if url_hostname u \<notin> set hosts \<or> effective_port u \<notin> set callback_ports
          then Inl (ErrorMsg (''disallowed callback host or port: '' @ url_host u))
          else (case dns_lookup cfg (url_hostname u) of
                  Inl e \<Rightarrow> Inl e
                | Inr address \<Rightarrow>
                    if isPrivate address \<and> ''localhost'' \<notin> set hosts \<and> ''127.0.0.1'' \<notin> set hosts
                    then Inl (ErrorMsg (''callback resolved to private IP: '' @ address))
                    else Inr (js_to_string cb)))"

text \<open>\<open>trackResult\<close>: the new results and the callback it attempts, if the job asks for one.\<close>

definition trackResult ::
  "server_cfg \<Rightarrow> time \<Rightarrow> job \<Rightarrow> job_result \<Rightarrow> (uuid, result_entry) jmap
     \<Rightarrow> (uuid, result_entry) jmap \<times> (js_error + string) option" where
  "trackResult cfg now j r rs =
     (let rs1 = map_set (job_id j) \<lparr>res_id = job_id j, res_result = r, completedAt = now\<rparr> rs;
          rs2 = (if MAX_RESULTS < length rs1 then map_delete (hd (map_keys rs1)) rs1 else rs1);
          cb = job_fields j ''callbackURL''
      in (rs2, if truthy cb then Some (callback_check cfg (the cb)) else None))"

section \<open>HTTP\<close>

record http_req =
  http_method :: string
  http_path :: string
  http_auth :: "string option"
  http_ip :: "string option"
  http_chunks :: "byte list list"

datatype http_body =
    NoBody
  | ErrorBody string
  | HealthBody nat
  | IdBody uuid
  | ResultBody result_entry
  | PendingBody uuid
  | DeadLettersBody "dead_letter list"

record http_resp =
  http_status :: nat
  http_body :: http_body

definition respond :: "nat \<Rightarrow> http_body \<Rightarrow> http_resp" where
  "respond st b = \<lparr>http_status = st, http_body = b\<rparr>"

text \<open>
  \<open>body.length\<close> counts UTF-16 code units: one for each character of the basic plane, two beyond
  it. \<open>body += chunk\<close> decodes each buffer by itself.
\<close>

definition utf16_units :: "char \<Rightarrow> nat" where
  "utf16_units c = (let n = (of_char c :: nat) in if 128 \<le> n \<and> n < 192 then 0 else if 240 \<le> n then 2 else 1)"

definition utf16_length :: "string \<Rightarrow> nat" where
  "utf16_length s = sum_list (map utf16_units s)"

definition buffer_text :: "byte list \<Rightarrow> string" where
  "buffer_text bs = utf8_decode 0 0 0 [] bs"

text \<open>The \<open>data\<close> handler: body so far and the overflow flag.\<close>

definition on_data :: "string \<times> bool \<Rightarrow> byte list \<Rightarrow> string \<times> bool" where
  "on_data st chunk =
     (case st of (body, overflow) \<Rightarrow>
        if MAX_BODY < utf16_length body + length chunk then (body, True) else (body @ buffer_text chunk, overflow))"

text \<open>
  The chunks of a request. A handler that overflows destroys the request: neither a further
  \<open>data\<close> nor an \<open>end\<close> event follows, and the connection is gone.
\<close>

fun read_body :: "string \<Rightarrow> byte list list \<Rightarrow> string option" where
  "read_body body [] = Some body"
| "read_body body (chunk # chunks) =
     (case on_data (body, False) chunk of (body', overflow) \<Rightarrow> if overflow then None else read_body body' chunks)"

definition is_plain_object :: "json option \<Rightarrow> bool" where
  "is_plain_object v = (case v of Some (JObj _) \<Rightarrow> True | _ \<Rightarrow> False)"

text \<open>Enqueue, remember the id, evict the oldest remembered id.\<close>

definition accept_job :: "time \<Rightarrow> uuid \<Rightarrow> string \<Rightarrow> json option \<Rightarrow> server \<Rightarrow> server" where
  "accept_job now uid ty dat s =
     (let m = manager_of s;
          m' = m\<lparr>mqueue := fst (enqueue uid now ty dat (mqueue m))\<rparr>;
          sub = set_add uid (submittedJobs s);
          sub' = (if MAX_SUBMITTED_JOBS < length sub then set_delete (hd sub) sub else sub)
      in s\<lparr>manager_of := m', submittedJobs := sub'\<rparr>)"

text \<open>The \<open>end\<close> handler; its first branch is there, but a destroyed request never reaches it.\<close>

definition on_end :: "time \<Rightarrow> uuid \<Rightarrow> string \<times> bool \<Rightarrow> server \<Rightarrow> server \<times> http_resp" where
  "on_end now uid st s =
     (case st of (body, overflow) \<Rightarrow>
        if overflow then (s, respond 413 (ErrorBody ''request body too large''))
        else case json_parse body of
          None \<Rightarrow> (s, respond 400 (ErrorBody ''invalid json''))
        | Some JNull \<Rightarrow> (s, respond 400 (ErrorBody ''invalid json''))
        | Some v \<Rightarrow>
            (case js_get v ''type'' of
               Some (JStr ty) \<Rightarrow>
                 if ty = [] then (s, respond 400 (ErrorBody ''type must be a non-empty string''))
                 else if js_get v ''data'' \<noteq> None \<and> \<not> is_plain_object (js_get v ''data'')
                 then (s, respond 400 (ErrorBody ''data must be an object''))
                 else (accept_job now uid ty (js_get v ''data'') s, respond 201 (IdBody uid))
             | _ \<Rightarrow> (s, respond 400 (ErrorBody ''type must be a non-empty string''))))"

text \<open>\<open>/^\/jobs\/([^/]+)$/\<close>\<close>

definition job_path :: "string \<Rightarrow> uuid option" where
  "job_path p =
     (if js_startsWith p ''/jobs/'' \<and> drop 6 p \<noteq> [] \<and> CHR ''/'' \<notin> set (drop 6 p)
      then Some (drop 6 p) else None)"

definition job_status :: "server \<Rightarrow> uuid \<Rightarrow> http_resp" where
  "job_status s jid =
     (case map_get (results s) jid of
        Some r \<Rightarrow> respond 200 (ResultBody r)
      | None \<Rightarrow> if jid \<in> set (submittedJobs s) then respond 200 (PendingBody jid)
                else respond 404 (ErrorBody ''job not found''))"

text \<open>The answer to a request; \<open>None\<close> when its connection is destroyed instead.\<close>

definition submit_request :: "time \<Rightarrow> uuid \<Rightarrow> http_req \<Rightarrow> server \<Rightarrow> server \<times> http_resp option" where
  "submit_request now uid req s =
     (let ip = (case http_ip req of None \<Rightarrow> ''unknown'' | Some a \<Rightarrow> if a = [] then ''unknown'' else a) in
      case checkRateLimit now ip (rateLimitMap s) of
        (m, False) \<Rightarrow> (s\<lparr>rateLimitMap := m\<rparr>, Some (respond 429 (ErrorBody ''rate limit exceeded'')))
      | (m, True) \<Rightarrow>
          (case read_body [] (http_chunks req) of
             None \<Rightarrow> (s\<lparr>rateLimitMap := m\<rparr>, None)
           | Some body \<Rightarrow> map_prod id Some (on_end now uid (body, False) (s\<lparr>rateLimitMap := m\<rparr>))))"

definition handle_request :: "server_cfg \<Rightarrow> time \<Rightarrow> uuid \<Rightarrow> http_req \<Rightarrow> server \<Rightarrow> server \<times> http_resp option" where
  "handle_request cfg now uid req s =
     (if http_path req = ''/health'' \<and> http_method req = ''GET''
      then (s, Some (respond 200 (HealthBody (queue_size (mqueue (manager_of s))))))
      else if \<not> checkAuth cfg (http_auth req) then (s, Some (respond 401 (ErrorBody ''unauthorized'')))
      else if http_path req = ''/jobs'' \<and> http_method req = ''POST'' then submit_request now uid req s
      else case (job_path (http_path req), http_method req = ''GET'') of
        (Some jid, True) \<Rightarrow> (s, Some (job_status s jid))
      | _ \<Rightarrow>
          if http_path req = ''/dead-letters'' \<and> http_method req = ''GET''
          then (s, Some (respond 200 (DeadLettersBody (deadLetters (mqueue (manager_of s))))))
          else (s, Some (respond 404 NoBody)))"

section \<open>The worker process\<close>

text \<open>
  HTTP requests and manager events in any order. When the manager reports a result
  (its \<open>onResult\<close> callback), \<open>trackResult\<close> runs on it; \<open>shutdown\<close> stops the manager.
\<close>

datatype worker_event =
    WHttp time uuid http_req
  | WStarted time
  | WFinished time nat "js_error + job_result"
  | WTimer time nat
  | WShutdown

definition deliver_results :: "server_cfg \<Rightarrow> time \<Rightarrow> server \<Rightarrow> job_result manager \<Rightarrow> server" where
  "deliver_results cfg now s m' =
     s\<lparr>manager_of := m',
       results := foldl (\<lambda>rs (j, r). fst (trackResult cfg now j r rs)) (results s)
                    (drop (length (calls (manager_of s))) (calls m'))\<rparr>"

fun worker_step :: "server_cfg \<Rightarrow> server \<Rightarrow> worker_event \<Rightarrow> server" where
  "worker_step cfg s (WHttp now uid req) = fst (handle_request cfg now uid req s)"
| "worker_step cfg s (WStarted now) = s\<lparr>manager_of := manager_start now (manager_of s)\<rparr>"
| "worker_step cfg s (WFinished now i res) =
     deliver_results cfg now s (mgr_step (manager_of s) (MFinished now i res))"
| "worker_step cfg s (WTimer now t) = s\<lparr>manager_of := timer_fires now t (manager_of s)\<rparr>"
| "worker_step cfg s WShutdown = s\<lparr>manager_of := manager_stop (manager_of s)\<rparr>"

abbreviation worker_run :: "server_cfg \<Rightarrow> server \<Rightarrow> worker_event list \<Rightarrow> server" where
  "worker_run cfg \<equiv> foldl (worker_step cfg)"

section \<open>Invariant\<close>

lemma checkRateLimit_evict:
  "fst (checkRateLimit now ip m) = jmap_store.evict MAX_RATE_LIMIT_IPS
     (map_set ip (let e = (case map_get m ip of
                     None \<Rightarrow> \<lparr>rl_count = 0, rl_resetAt = now + RATE_LIMIT_WINDOW_MS\<rparr>
                   | Some e \<Rightarrow> if rl_resetAt e \<le> now
                               then \<lparr>rl_count = 0, rl_resetAt = now + RATE_LIMIT_WINDOW_MS\<rparr> else e)
        in e\<lparr>rl_count := Suc (rl_count e)\<rparr>) m)"
  by (simp add: checkRateLimit_def jmap_store.evict_def Let_def)

lemma trackResult_evict:
  "fst (trackResult cfg now j r rs) = jmap_store.evict MAX_RESULTS
     (map_set (job_id j) \<lparr>res_id = job_id j, res_result = r, completedAt = now\<rparr> rs)"
  by (simp add: trackResult_def jmap_store.evict_def Let_def)

lemma accept_job_evict:
  "submittedJobs (accept_job now uid ty dat s) = jset_store.evict MAX_SUBMITTED_JOBS (set_add uid (submittedJobs s))"
  by (simp add: accept_job_def jset_store.evict_def Let_def)

definition table_inv :: "nat \<Rightarrow> ('k, 'v) jmap \<Rightarrow> bool" where
  "table_inv cap m = (map_ok m \<and> length m \<le> cap)"

lemma table_inv_put: "table_inv cap m \<Longrightarrow> table_inv cap (jmap_store.evict cap (map_set k v m))"
  using jmap_store.put_evict_bounded [of m cap k v] jmap_store.ok_evict [of "map_set k v m" cap]
  by (simp add: table_inv_def)

definition server_inv :: "server \<Rightarrow> bool" where
  "server_inv s =
     (table_inv MAX_RATE_LIMIT_IPS (rateLimitMap s) \<and> table_inv MAX_RESULTS (results s)
      \<and> distinct (submittedJobs s) \<and> length (submittedJobs s) \<le> MAX_SUBMITTED_JOBS
      \<and> mgr_inv (manager_of s))"

lemma server_inv_new: "server_inv new_server"
  by (simp add: server_inv_def new_server_def table_inv_def)

lemma server_inv_limit: "server_inv s \<Longrightarrow> server_inv (s\<lparr>rateLimitMap := fst (checkRateLimit now ip (rateLimitMap s))\<rparr>)"
  by (simp add: server_inv_def checkRateLimit_evict table_inv_put)

lemma server_inv_accept:
  assumes "server_inv s"
  shows "server_inv (accept_job now uid ty dat s)"
proof -
  have "mgr_inv (mgr_step (manager_of s) (MEnqueue uid now ty dat))"
    using assms by (intro mgr_inv_step) (simp add: server_inv_def)
  moreover have "distinct (submittedJobs (accept_job now uid ty dat s))"
    and "length (submittedJobs (accept_job now uid ty dat s)) \<le> MAX_SUBMITTED_JOBS"
    unfolding accept_job_evict
    using assms jset_store.ok_evict [of "set_add uid (submittedJobs s)"]
      jset_store.put_evict_bounded [of "submittedJobs s" MAX_SUBMITTED_JOBS uid]
    by (simp_all add: server_inv_def)
  ultimately show ?thesis
    using assms by (simp add: server_inv_def) (simp add: accept_job_def Let_def)
qed

lemma server_inv_on_end: "server_inv s \<Longrightarrow> server_inv (fst (on_end now uid st s))"
  by (auto simp: on_end_def server_inv_accept split: prod.splits option.splits json.splits)

lemma server_inv_submit: "server_inv s \<Longrightarrow> server_inv (fst (submit_request now uid req s))"
proof -
  assume inv: "server_inv s"
  define ip where "ip = (case http_ip req of None \<Rightarrow> ''unknown'' | Some a \<Rightarrow> if a = [] then ''unknown'' else a)"
  obtain m ok where m: "checkRateLimit now ip (rateLimitMap s) = (m, ok)" by fastforce
  then have "server_inv (s\<lparr>rateLimitMap := m\<rparr>)" using server_inv_limit [OF inv, of now ip] by simp
  then show ?thesis
    by (cases ok) (simp_all add: submit_request_def Let_def m server_inv_on_end flip: ip_def split: option.split)
qed

lemma server_inv_handle: "server_inv s \<Longrightarrow> server_inv (fst (handle_request cfg now uid req s))"
  by (auto simp: handle_request_def server_inv_submit split: option.splits bool.splits)

lemma table_inv_deliver:
  "table_inv MAX_RESULTS rs \<Longrightarrow> table_inv MAX_RESULTS (foldl (\<lambda>rs (j, r). fst (trackResult cfg now j r rs)) rs xs)"
  by (induction xs arbitrary: rs) (auto simp: trackResult_evict table_inv_put)

lemma server_inv_step: "server_inv s \<Longrightarrow> server_inv (worker_step cfg s e)"
proof (cases e)
  case (WHttp now uid req)
  assume "server_inv s"
  with WHttp show ?thesis by (simp add: server_inv_handle)
next
  case (WFinished now i res)
  assume "server_inv s"
  with mgr_inv_step [of "manager_of s" "MFinished now i res"] WFinished show ?thesis
    by (simp add: server_inv_def deliver_results_def table_inv_deliver)
next
  case (WStarted now)
  assume "server_inv s"
  with mgr_inv_step [of "manager_of s" "MStart now"] WStarted show ?thesis by (simp add: server_inv_def)
next
  case (WTimer now t)
  assume "server_inv s"
  with mgr_inv_step [of "manager_of s" "MTimer now t"] WTimer show ?thesis by (simp add: server_inv_def)
next
  case WShutdown
  assume "server_inv s"
  with mgr_inv_step [of "manager_of s" MStop] WShutdown show ?thesis by (simp add: server_inv_def)
qed

interpretation worker: event_machine "worker_step cfg" server_inv for cfg
  by unfold_locales (rule server_inv_step)

section \<open>The rate limit over a window\<close>

text \<open>The answers to a sequence of calls, each a time and an address.\<close>

fun rate_run :: "(string, rate_entry) jmap \<Rightarrow> (time \<times> string) list \<Rightarrow> bool list" where
  "rate_run m [] = []"
| "rate_run m ((t, ip) # cs) = (case checkRateLimit t ip m of (m', ok) \<Rightarrow> ok # rate_run m' cs)"

text \<open>The answers that one address got.\<close>

definition answers_for :: "string \<Rightarrow> (time \<times> string) list \<Rightarrow> bool list \<Rightarrow> bool list" where
  "answers_for ip cs bs = map snd (filter (\<lambda>((t, a), b). a = ip) (zip cs bs))"

lemma answers_for_Cons:
  "answers_for ip ((t, a) # cs) (b # bs) = (if a = ip then [b] else []) @ answers_for ip cs bs"
  by (simp add: answers_for_def)

text \<open>Below the cap on addresses no entry is evicted.\<close>

lemma checkRateLimit_room:
  assumes "map_ok m" "set (map_keys m) \<union> {ip} \<subseteq> S" "finite S" "card S \<le> MAX_RATE_LIMIT_IPS"
  shows "map_get (fst (checkRateLimit now ip m)) a =
      (if a = ip then Some \<lparr>rl_count = (case map_get m ip of None \<Rightarrow> 1
           | Some e \<Rightarrow> if rl_resetAt e \<le> now then 1 else Suc (rl_count e)),
         rl_resetAt = (case map_get m ip of None \<Rightarrow> now + RATE_LIMIT_WINDOW_MS
           | Some e \<Rightarrow> if rl_resetAt e \<le> now then now + RATE_LIMIT_WINDOW_MS else rl_resetAt e)\<rparr>
       else map_get m a)"
    and "map_ok (fst (checkRateLimit now ip m))"
    and "set (map_keys (fst (checkRateLimit now ip m))) \<subseteq> S"
proof -
  define e where "e = (let e = (case map_get m ip of
                     None \<Rightarrow> \<lparr>rl_count = 0, rl_resetAt = now + RATE_LIMIT_WINDOW_MS\<rparr>
                   | Some e \<Rightarrow> if rl_resetAt e \<le> now
                               then \<lparr>rl_count = 0, rl_resetAt = now + RATE_LIMIT_WINDOW_MS\<rparr> else e)
        in e\<lparr>rl_count := Suc (rl_count e)\<rparr>)"
  have keys: "set (map_keys (map_set ip e m)) \<subseteq> S" using assms(2) by (auto simp: map_keys_set)
  have "length (map_keys (map_set ip e m)) = card (set (map_keys (map_set ip e m)))"
    using assms(1) map_ok_set [of m ip e] by (simp add: map_ok_def distinct_card del: length_map_keys map_ok_set)
  also have "\<dots> \<le> card S" using keys assms(3) by (simp add: card_mono)
  finally have "\<not> MAX_RATE_LIMIT_IPS < length (map_keys (map_set ip e m))" using assms(4) by simp
  then have run: "fst (checkRateLimit now ip m) = map_set ip e m"
    by (simp only: checkRateLimit_evict jmap_store.evict_def if_False e_def)
  show "map_ok (fst (checkRateLimit now ip m))" and "set (map_keys (fst (checkRateLimit now ip m))) \<subseteq> S"
    using assms(1) keys by (simp_all add: run)
  show "map_get (fst (checkRateLimit now ip m)) a =
      (if a = ip then Some \<lparr>rl_count = (case map_get m ip of None \<Rightarrow> 1
           | Some e \<Rightarrow> if rl_resetAt e \<le> now then 1 else Suc (rl_count e)),
         rl_resetAt = (case map_get m ip of None \<Rightarrow> now + RATE_LIMIT_WINDOW_MS
           | Some e \<Rightarrow> if rl_resetAt e \<le> now then now + RATE_LIMIT_WINDOW_MS else rl_resetAt e)\<rparr>
       else map_get m a)"
    by (simp add: run e_def Let_def split: option.splits)
qed

lemma rate_run_window:
  assumes "map_ok m" "map_get m ip = Some \<lparr>rl_count = k, rl_resetAt = reset\<rparr>"
    and "set (map_keys m) \<union> snd ` set cs \<subseteq> S" "finite S" "card S \<le> MAX_RATE_LIMIT_IPS"
    and "\<forall>(t, a)\<in>set cs. a = ip \<longrightarrow> t < reset"
  shows "answers_for ip cs (rate_run m cs) =
    map (\<lambda>i. k + i < RATE_LIMIT_MAX_REQUESTS) [0..<count_list (map snd cs) ip]"
  using assms
proof (induction cs arbitrary: m k)
  case Nil
  then show ?case by (simp add: answers_for_def)
next
  case (Cons c cs)
  obtain t a where c: "c = (t, a)" by (cases c)
  obtain m' ok where run: "checkRateLimit t a m = (m', ok)" by fastforce
  have S: "set (map_keys m) \<union> {a} \<subseteq> S" using Cons.prems(3) c by auto
  note room = checkRateLimit_room [OF Cons.prems(1) S Cons.prems(4,5), of t, unfolded run fst_conv]
  have keys: "set (map_keys m') \<union> snd ` set cs \<subseteq> S" using room(3) Cons.prems(3) by auto
  have late: "\<forall>(t, a)\<in>set cs. a = ip \<longrightarrow> t < reset" using Cons.prems(6) by auto
  show ?case
  proof (cases "a = ip")
    case True
    then have t: "t < reset" using Cons.prems(6) c by auto
    have ok: "ok = (k < RATE_LIMIT_MAX_REQUESTS)"
      using arg_cong [OF run, of snd] t True Cons.prems(2) by (simp add: checkRateLimit_def Let_def Suc_le_eq)
    have "map_get m' ip = Some \<lparr>rl_count = Suc k, rl_resetAt = reset\<rparr>"
      using room(1) [of ip] True t Cons.prems(2) by simp
    from Cons.IH [OF room(2) this keys Cons.prems(4,5) late] show ?thesis
      using True run by (simp add: c answers_for_Cons ok map_upt_Suc del: upt_Suc)
  next
    case False
    then have "map_get m' ip = Some \<lparr>rl_count = k, rl_resetAt = reset\<rparr>"
      using room(1) [of ip] Cons.prems(2) by simp
    from Cons.IH [OF room(2) this keys Cons.prems(4,5) late] show ?thesis
      using False by (simp add: c run answers_for_Cons)
  qed
qed

text \<open>A configuration for the examples; its digest is the text itself.\<close>

definition demo_sha256 :: "string \<Rightarrow> byte list" where
  "demo_sha256 s = map (\<lambda>c. word_of_nat (of_char c)) s"

definition demo_cfg :: "string \<Rightarrow> string \<Rightarrow> server_cfg" where
  "demo_cfg token hosts =
     \<lparr>AUTH_TOKEN = token, sha256 = demo_sha256, callback_hosts_env = hosts,
      dns_lookup = (\<lambda>h. Inr (if h = ''localhost'' then ''127.0.0.1'' else if h = ''inner'' then ''10.1.2.3'' else ''93.184.216.34'')),
      worker_env_of = demo_env\<rparr>"

lemma demo_sha256_inject: "demo_sha256 s = demo_sha256 t \<longleftrightarrow> s = t"
proof -
  have "inj (\<lambda>c. word_of_nat (of_char c) :: byte)"
  proof (rule injI)
    fix c d :: char
    assume "(word_of_nat (of_char c) :: byte) = word_of_nat (of_char d)"
    then have "(of_char c :: nat) mod 256 = of_char d mod 256"
      by (simp add: word_of_nat_eq_iff take_bit_eq_mod)
    then show "c = d" by simp
  qed
  then show ?thesis by (simp add: demo_sha256_def inj_map_eq_map)
qed

section \<open>Authentication and submission\<close>

lemma take_eq_append: "take (length p) s = p \<Longrightarrow> s = p @ drop (length p) s"
  by (metis append_take_drop_id)

lemma bearer_token_header: "bearer_token h \<noteq> [] \<Longrightarrow> h = Some (''Bearer '' @ bearer_token h)"
  using take_eq_append [of "''Bearer ''" "the h"]
  by (auto simp: bearer_token_def js_startsWith_def Let_def eval_nat_numeral split: option.splits if_splits)

lemma bearer_token_Bearer: "bearer_token (Some (''Bearer '' @ t)) = t"
  by (simp add: bearer_token_def js_startsWith_def)

lemma on_end_status: "http_status (snd (on_end now uid st s)) \<noteq> 401"
  by (auto simp: on_end_def respond_def split: prod.splits option.splits json.splits)

lemma submit_status: "map_option http_status (snd (submit_request now uid req s)) \<noteq> Some 401"
  by (auto simp: submit_request_def respond_def on_end_status Let_def split: prod.splits bool.splits option.splits)

lemma handle_request_not_401:
  "checkAuth cfg (http_auth req) \<Longrightarrow> map_option http_status (snd (handle_request cfg now uid req s)) \<noteq> Some 401"
  using submit_status [of now uid req s]
  by (auto simp: handle_request_def job_status_def respond_def split: option.splits bool.splits)

lemma handle_request_401:
  "http_path req \<noteq> ''/health'' \<Longrightarrow> \<not> checkAuth cfg (http_auth req) \<Longrightarrow>
     handle_request cfg now uid req s = (s, Some (respond 401 (ErrorBody ''unauthorized'')))"
  by (simp add: handle_request_def)

text \<open>What a body must be to become a job.\<close>

definition valid_submission :: "string \<Rightarrow> (string \<times> json option) option" where
  "valid_submission body =
     (case json_parse body of
        Some (JObj fs) \<Rightarrow>
          (case map_get fs ''type'' of
             Some (JStr ty) \<Rightarrow>
               (case map_get fs ''data'' of
                  None \<Rightarrow> if ty = [] then None else Some (ty, None)
                | Some (JObj ds) \<Rightarrow> if ty = [] then None else Some (ty, Some (JObj ds))
                | _ \<Rightarrow> None)
           | _ \<Rightarrow> None)
      | _ \<Rightarrow> None)"

lemma on_end_valid: "valid_submission body = Some (ty, dat) \<Longrightarrow>
    on_end now uid (body, False) s = (accept_job now uid ty dat s, respond 201 (IdBody uid))"
  by (auto simp: valid_submission_def on_end_def is_plain_object_def split: option.splits json.splits if_splits)

lemma on_end_invalid: "valid_submission body = None \<Longrightarrow>
    fst (on_end now uid (body, False) s) = s \<and> http_status (snd (on_end now uid (body, False) s)) = 400"
  by (auto simp: valid_submission_def on_end_def is_plain_object_def respond_def split: option.splits json.splits if_splits)

text \<open>Decoding never makes more code units than there are bytes.\<close>

lemma utf16_length_append [simp]: "utf16_length (s @ t) = utf16_length s + utf16_length t"
  by (simp add: utf16_length_def)

lemma utf16_byte: "utf16_units (char_of_byte b) = (if 128 \<le> unat b \<and> unat b < 192 then 0 else if 240 \<le> unat b then 2 else 1)"
proof -
  have "(of_char (char_of_byte b) :: nat) = unat b" using unsigned_less [of b, where 'a = nat] by (simp add: char_of_byte_def)
  then show ?thesis by (simp add: utf16_units_def Let_def)
qed

lemma utf16_replacement: "utf16_length replacement = 1"
  by (simp add: utf16_length_def utf16_units_def replacement_def)

definition in_point :: "nat \<Rightarrow> nat \<Rightarrow> nat \<Rightarrow> byte list \<Rightarrow> bool" where
  "in_point needed lo hi acc \<longleftrightarrow>
     acc \<noteq> [] \<and> 128 \<le> lo \<and> hi \<le> 191 \<and> (\<forall>b\<in>set (tl acc). 128 \<le> unat b \<and> unat b < 192)
     \<and> (240 \<le> unat (hd acc) \<longrightarrow> needed + length acc = 4)"

lemma in_point_start: "lead_byte b = Some (n, lo, hi) \<Longrightarrow> in_point n lo hi [b]"
  by (auto simp: lead_byte_def in_point_def Let_def split: if_splits)

lemma utf16_decode:
  "needed = 0 \<or> in_point needed lo hi acc \<Longrightarrow>
     utf16_length (utf8_decode needed lo hi acc bs) \<le> (if needed = 0 then 0 else length acc) + length bs"
proof (induction needed lo hi acc bs rule: utf8_decode.induct)
  case (1 needed lo hi acc)
  have "utf16_length [] = 0" by (simp add: utf16_length_def)
  with 1 show ?case by (cases acc) (auto simp: utf16_replacement in_point_def)
next
  case (2 lo hi acc b bs)
  show ?case
  proof (cases "unat b < 128")
    case True
    with 2(1) show ?thesis by (simp add: utf16_length_def utf16_byte)
  next
    case False
    show ?thesis
    proof (cases "lead_byte b")
      case None
      with False 2(2) show ?thesis by (simp add: utf16_replacement)
    next
      case (Some x)
      obtain n l h where x: "x = (n, l, h)" by (cases x)
      have "n \<noteq> 0" using lead_byte_pos Some x by auto
      with False Some x 2(3) [OF False Some] in_point_start [of b n l h] show ?thesis by simp
    qed
  qed
next
  case (3 n lo hi acc b bs)
  then have pt: "in_point (Suc n) lo hi acc" by simp
  then obtain a as where acc: "acc = a # as" by (cases acc) (auto simp: in_point_def)
  show ?case
  proof (cases "lo \<le> unat b \<and> unat b \<le> hi")
    case True
    then have b: "128 \<le> unat b" "unat b < 192" using pt by (auto simp: in_point_def)
    show ?thesis
    proof (cases "n = 0")
      case True
      have "map (utf16_units \<circ> char_of_byte) as = map (\<lambda>_. 0) as"
        using pt acc by (auto simp: in_point_def utf16_byte)
      then have "utf16_length (map char_of_byte as) = 0" by (simp add: utf16_length_def)
      moreover have "utf16_length (map char_of_byte [b]) = 0" using b by (simp add: utf16_length_def utf16_byte)
      moreover have "utf16_length (map char_of_byte [a]) \<le> length acc + 1"
        using pt acc True by (auto simp: utf16_length_def utf16_byte in_point_def)
      moreover have "map char_of_byte (acc @ [b]) = map char_of_byte [a] @ map char_of_byte as @ map char_of_byte [b]"
        by (simp add: acc)
      ultimately have "utf16_length (map char_of_byte (acc @ [b])) \<le> length acc + 1"
        by (simp only: utf16_length_append)
      moreover have "utf16_length (utf8_decode 0 0 0 [] bs) \<le> length bs"
        using 3(1) \<open>lo \<le> unat b \<and> unat b \<le> hi\<close> True by simp
      ultimately show ?thesis using \<open>lo \<le> unat b \<and> unat b \<le> hi\<close> True
        by (simp del: map_append utf16_length_append add: utf16_length_append [of "map char_of_byte (acc @ [b])"])
    next
      case False
      have "in_point n 128 191 (acc @ [b])" using pt acc b by (auto simp: in_point_def)
      with 3(2) \<open>lo \<le> unat b \<and> unat b \<le> hi\<close> False show ?thesis by simp
    qed
  next
    case False
    then have "utf8_decode (Suc n) lo hi acc (b # bs) = replacement @ utf8_decode 0 0 0 [] (b # bs)" by auto
    moreover have "utf16_length (utf8_decode 0 0 0 [] (b # bs)) \<le> length (b # bs)" using 3(3) [OF False] by simp
    ultimately show ?thesis using acc by (simp add: utf16_replacement del: utf8_decode.simps)
  qed
qed

lemma utf16_buffer_text: "utf16_length (buffer_text bs) \<le> length bs"
  using utf16_decode [of 0 0 0 "[]" bs] by (simp add: buffer_text_def)

text \<open>A body that is read is the text of its chunks, within the limit; one that is not read was too large.\<close>

lemma read_body_Some:
  "read_body b cs = Some body \<Longrightarrow> utf16_length b \<le> MAX_BODY \<Longrightarrow>
     body = b @ concat (map buffer_text cs) \<and> utf16_length body \<le> MAX_BODY"
proof (induction cs arbitrary: b)
  case (Cons c cs)
  then have fits: "utf16_length b + length c \<le> MAX_BODY" by (auto simp: on_data_def split: if_splits)
  then have "utf16_length (b @ buffer_text c) \<le> MAX_BODY" using utf16_buffer_text [of c] by simp
  moreover have "read_body (b @ buffer_text c) cs = Some body" using Cons.prems(1) fits by (simp add: on_data_def)
  ultimately show ?case using Cons.IH [of "b @ buffer_text c"] by (auto simp del: utf16_length_append)
qed simp

lemma read_body_None: "read_body b cs = None \<Longrightarrow> MAX_BODY < utf16_length b + sum_list (map length cs)"
proof (induction cs arbitrary: b)
  case (Cons c cs)
  show ?case
  proof (cases "MAX_BODY < utf16_length b + length c")
    case False
    with Cons.prems have "read_body (b @ buffer_text c) cs = None" by (simp add: on_data_def)
    from Cons.IH [OF this] utf16_buffer_text [of c] show ?thesis by simp
  qed simp
qed simp

lemma on_end_cases:
  obtains (accepted) ty dat where "ty \<noteq> []" "on_end now uid (body, False) s = (accept_job now uid ty dat s, respond 201 (IdBody uid))"
    and "\<exists>v. json_parse body = Some v \<and> js_get v ''type'' = Some (JStr ty) \<and> js_get v ''data'' = dat"
  | (refused) resp where "on_end now uid (body, False) s = (s, resp)" "http_status resp = 400" "valid_submission body = None"
proof (cases "valid_submission body")
  case None
  with that(2) on_end_invalid [OF None, of now uid s] show ?thesis by (metis prod.collapse)
next
  case (Some x)
  obtain ty dat where x: "x = (ty, dat)" by (cases x)
  with Some have "ty \<noteq> []" "\<exists>v. json_parse body = Some v \<and> js_get v ''type'' = Some (JStr ty) \<and> js_get v ''data'' = dat"
    by (auto simp: valid_submission_def split: option.splits json.splits if_splits)
  with that(1) on_end_valid [of body ty dat now uid s] Some x show ?thesis by blast
qed

section \<open>Properties\<close>

text \<open>
  C12: In every run of the worker process, whatever requests, completions,
  failures and timers arrive in whatever order, its tables stay within their caps:
  10000 rate-limit entries, 1000 results, 10000 remembered job ids and 1000 dead
  letters; and every job that waits or runs still has attempts left.
\<close>

theorem worker_memory_is_bounded:
  fixes cfg :: server_cfg and es :: "worker_event list"
  defines "s \<equiv> worker_run cfg new_server es"
  shows "length (rateLimitMap s) \<le> 10000 \<and> length (results s) \<le> 1000 \<and> length (submittedJobs s) \<le> 10000
    \<and> length (deadLetters (mqueue (manager_of s))) \<le> 1000
    \<and> filter_mset (\<lambda>j. maxAttempts j \<le> attempts j) (all_jobs (manager_of s)) = {#}"
proof -
  have "server_inv s"
    unfolding s_def by (rule worker.inv_run) (rule server_inv_new)
  then show ?thesis
    by (auto simp: server_inv_def table_inv_def mgr_inv_def deadLetters_def MAX_RATE_LIMIT_IPS_def MAX_RESULTS_def
        MAX_SUBMITTED_JOBS_def MAX_DEAD_LETTERS_def not_le filter_mset_eq_conv [of _ _ "{#}"])
qed

text \<open>
  C35: The rate limiter gives an address sixty submissions per window. A window begins with
  the first call of an address that has no entry or an expired one, at time t0; of the calls of
  the address before t0 + 60000, exactly the first sixty are accepted, with calls of other
  addresses in between in any order. (The addresses have to fit the table of 10000 entries:
  beyond it the oldest entry is evicted, see \<open>evicted_address_starts_again\<close>.)
\<close>

theorem rate_limit_sixty_per_window:
  assumes "map_ok m" and "\<forall>e. map_get m ip = Some e \<longrightarrow> rl_resetAt e \<le> t0"
    and "card (set (map_keys m) \<union> {ip} \<union> snd ` set cs) \<le> MAX_RATE_LIMIT_IPS"
    and "\<forall>(t, a)\<in>set cs. a = ip \<longrightarrow> t < t0 + RATE_LIMIT_WINDOW_MS"
  shows "answers_for ip ((t0, ip) # cs) (rate_run m ((t0, ip) # cs)) =
    map (\<lambda>i. i < 60) [0..<Suc (count_list (map snd cs) ip)]"
proof -
  let ?S = "set (map_keys m) \<union> {ip} \<union> snd ` set cs"
  obtain m' ok where run: "checkRateLimit t0 ip m = (m', ok)" by fastforce
  have ok: "ok" using arg_cong [OF run, of snd] assms(2)
    by (auto simp: checkRateLimit_def Let_def RATE_LIMIT_MAX_REQUESTS_def split: option.splits if_splits)
  have S: "set (map_keys m) \<union> {ip} \<subseteq> ?S" "finite ?S" by auto
  note room = checkRateLimit_room [OF assms(1) S assms(3), of t0, unfolded run fst_conv]
  have "map_get m' ip = Some \<lparr>rl_count = 1, rl_resetAt = t0 + RATE_LIMIT_WINDOW_MS\<rparr>"
    using room(1) [of ip] assms(2) by (auto split: option.split)
  moreover have "set (map_keys m') \<union> snd ` set cs \<subseteq> ?S" using room(3) by auto
  ultimately have "answers_for ip cs (rate_run m' cs) =
      map (\<lambda>i. 1 + i < RATE_LIMIT_MAX_REQUESTS) [0..<count_list (map snd cs) ip]"
    by (intro rate_run_window [OF room(2) _ _ S(2) assms(3,4)]) auto
  then show ?thesis
    using run ok by (simp add: answers_for_Cons map_upt_Suc RATE_LIMIT_MAX_REQUESTS_def del: upt_Suc)
qed

theorem rate_limit_sixty_per_window_witness:
  "answers_for ''a'' ((0, ''a'') # replicate 60 (5, ''a'') @ [(6, ''b'')])
     (rate_run [] ((0, ''a'') # replicate 60 (5, ''a'') @ [(6, ''b'')])) = replicate 60 True @ [False]"
proof -
  have "count_list (map snd (replicate 60 (5 :: int, ''a'') @ [(6, ''b'')])) ''a'' = 60"
    by (simp add: map_replicate_const count_list_append eval_nat_numeral)
  moreover have "map (\<lambda>i. i < 60) [0..<Suc 60] = replicate 60 True @ [False]"
    by (simp add: map_replicate_const list_eq_iff_nth_eq nth_append del: upt_Suc)
  ultimately show ?thesis
    using rate_limit_sixty_per_window [of "[]" "''a''" 0 "replicate 60 (5, ''a'') @ [(6, ''b'')]"]
    by (simp add: MAX_RATE_LIMIT_IPS_def RATE_LIMIT_WINDOW_MS_def map_keys_def card_insert_if)
qed

text \<open>Beyond the cap the oldest address loses its entry, and with it its count.\<close>

lemma evicted_address_starts_again:
  assumes "map_ok m" "map_keys m = ip # ips" "length m = MAX_RATE_LIMIT_IPS" "a \<notin> set (map_keys m)"
  shows "map_get (fst (checkRateLimit now a m)) ip = None"
proof -
  have keys: "map_keys (map_set a e m) = ip # ips @ [a]" for e using assms(2,4) by (simp add: map_keys_set)
  have "length (map_keys m) = MAX_RATE_LIMIT_IPS" using assms(3) by simp
  then have full: "length (ip # ips @ [a]) = Suc MAX_RATE_LIMIT_IPS" unfolding assms(2) by simp
  show ?thesis unfolding checkRateLimit_evict jmap_store.evict_def keys full by simp
qed

text \<open>
  C15: With a token configured, the requests that pass authentication are exactly
  those whose header is \<open>Bearer\<close> and that token (SHA-256 being injective at the
  token); every other request is answered 401 and changes nothing, whatever its
  method and path, the health check apart.
\<close>

theorem only_the_token_authorizes:
  assumes "AUTH_TOKEN cfg \<noteq> []" and "\<forall>t. sha256 cfg t = sha256 cfg (AUTH_TOKEN cfg) \<longrightarrow> t = AUTH_TOKEN cfg"
    and "http_path req \<noteq> ''/health''"
  shows "(checkAuth cfg (http_auth req) \<longleftrightarrow> http_auth req = Some (''Bearer '' @ AUTH_TOKEN cfg))
    \<and> (if http_auth req = Some (''Bearer '' @ AUTH_TOKEN cfg)
       then map_option http_status (snd (handle_request cfg now uid req s)) \<noteq> Some 401
       else handle_request cfg now uid req s = (s, Some (respond 401 (ErrorBody ''unauthorized''))))"
proof -
  have auth: "checkAuth cfg (http_auth req) \<longleftrightarrow> http_auth req = Some (''Bearer '' @ AUTH_TOKEN cfg)"
    using assms(1,2) bearer_token_header [of "http_auth req"] bearer_token_Bearer [of "AUTH_TOKEN cfg"]
    by (auto simp: checkAuth_def Let_def)
  then show ?thesis
    using assms(3) handle_request_not_401 [of cfg req now uid s] handle_request_401 [of req cfg now uid s] by simp
qed

theorem only_the_token_authorizes_witness:
  "(let cfg = demo_cfg ''s3cret'' [];
        req = \<lparr>http_method = ''GET'', http_path = ''/dead-letters'', http_auth = Some ''Bearer guess'',
                http_ip = None, http_chunks = []\<rparr>
    in handle_request cfg 0 ''id'' req new_server = (new_server, Some (respond 401 (ErrorBody ''unauthorized''))))"
  using only_the_token_authorizes [of "demo_cfg ''s3cret'' []" "\<lparr>http_method = ''GET'',
      http_path = ''/dead-letters'', http_auth = Some ''Bearer guess'', http_ip = None, http_chunks = []\<rparr>" 0 "''id''" new_server]
  by (simp add: Let_def demo_cfg_def demo_sha256_inject)

text \<open>
  C36: A submission is taken whole or not at all. Within the rate limit, a body that parses to an
  object with a non-empty string as its \<open>type\<close> and no \<open>data\<close> or an object is answered 201, and one job with
  that type and data joins the end of the queue; every answer of 201 is of this kind: it names
  the id of the one job that was added. Any other answer is 400 and changes nothing but the
  rate-limit entry, and a request whose connection is destroyed without an answer changes no more than that
  and had more than 1 MiB; a body that is read has at most that many UTF-16 units.
\<close>

theorem submission_is_all_or_nothing:
  assumes "checkRateLimit now (case http_ip req of None \<Rightarrow> ''unknown'' | Some a \<Rightarrow> if a = [] then ''unknown'' else a)
      (rateLimitMap s) = (m, True)"
  defines "body \<equiv> concat (map buffer_text (http_chunks req))" and "s' \<equiv> s\<lparr>rateLimitMap := m\<rparr>"
  shows "case submit_request now uid req s of
     (s2, None) \<Rightarrow> s2 = s' \<and> MAX_BODY < sum_list (map length (http_chunks req))
   | (s2, Some resp) \<Rightarrow> utf16_length body \<le> MAX_BODY
       \<and> (\<forall>ty dat. valid_submission body = Some (ty, dat) \<longrightarrow> s2 = accept_job now uid ty dat s' \<and> http_status resp = 201)
       \<and> (if http_status resp = 201
          then resp = respond 201 (IdBody uid)
            \<and> (\<exists>ty dat. ty \<noteq> [] \<and> s2 = accept_job now uid ty dat s'
                 \<and> items (mqueue (manager_of s2)) = items (mqueue (manager_of s)) @ [new_job uid now ty dat])
          else s2 = s' \<and> http_status resp = 400)"
proof (cases "read_body [] (http_chunks req)")
  case None
  then show ?thesis
    using assms(1) read_body_None [OF None] by (simp add: submit_request_def Let_def s'_def utf16_length_def)
next
  case (Some b)
  have "b = body \<and> utf16_length b \<le> MAX_BODY"
    using read_body_Some [OF Some] by (auto simp: utf16_length_def [of "[]"] body_def)
  then have b: "b = body" "utf16_length body \<le> MAX_BODY" by metis+
  have run: "submit_request now uid req s = map_prod id Some (on_end now uid (body, False) s')"
    using assms(1) Some b(1) by (simp add: submit_request_def Let_def s'_def)
  have items: "items (mqueue (manager_of (accept_job now uid ty dat s'))) =
      items (mqueue (manager_of s)) @ [new_job uid now ty dat]" for ty dat
    by (simp add: accept_job_def enqueue_def s'_def Let_def)
  show ?thesis
  proof (cases rule: on_end_cases [of now uid body s'])
    case (accepted ty dat)
    then show ?thesis
      using run b(2) items on_end_valid [of body _ _ now uid s'] by (auto simp: respond_def)
  next
    case (refused resp)
    then show ?thesis using run b(2) by simp
  qed
qed

definition demo_submission :: http_req where
  "demo_submission = \<lparr>http_method = ''POST'', http_path = ''/jobs'', http_auth = None, http_ip = Some ''1.2.3.4'',
     http_chunks = [text_encode (CHR 0x7B # CHR 0x22 # ''type'' @ CHR 0x22 # '':''), text_encode (CHR 0x22 # ''x'' @ [CHR 0x22, CHR 0x7D])]\<rparr>"

lemma submission_is_all_or_nothing_witness:
  "\<exists>s2 resp. submit_request 0 ''id'' demo_submission new_server = (s2, Some resp) \<and> http_status resp = 201
     \<and> length (items (mqueue (manager_of s2))) = 1"
proof -
  have body: "valid_submission (concat (map buffer_text (http_chunks demo_submission))) = Some (''x'', None)"
    and size: "sum_list (map length (http_chunks demo_submission)) = 12" and empty: "items (mqueue (manager_of new_server)) = []"
    by code_simp+
  have limit: "checkRateLimit 0 (case http_ip demo_submission of None \<Rightarrow> ''unknown'' | Some a \<Rightarrow> if a = [] then ''unknown'' else a)
      (rateLimitMap new_server) = ([(''1.2.3.4'', \<lparr>rl_count = 1, rl_resetAt = 60000\<rparr>)], True)"
    by code_simp
  obtain s2 r2 where run: "submit_request 0 ''id'' demo_submission new_server = (s2, r2)" by fastforce
  note all = submission_is_all_or_nothing [OF limit, of "''id''", unfolded run prod.case body size empty]
  show ?thesis
  proof (cases r2)
    case None
    with all show ?thesis by (simp add: MAX_BODY_def)
  next
    case (Some resp)
    with all show ?thesis by (auto simp: run)
  qed
qed

text \<open>
  C37: A callback goes out only to a URL that parses to http or https, on an
  allowlisted host name and one of the ports 80, 443, 8080 and 9100; and when the
  allowlist names neither localhost nor 127.0.0.1, the name did not resolve to an
  address that \<open>isPrivate\<close> recognises.
\<close>

theorem callback_only_to_allowed_hosts:
  assumes "snd (trackResult cfg now j r rs) = Some (Inr target)"
  shows "\<exists>cb u address. job_fields j ''callbackURL'' = Some cb \<and> target = js_to_string cb
    \<and> parse_url (worker_env_of cfg) cb = Some u
    \<and> url_protocol u \<in> {''http:'', ''https:''} \<and> url_hostname u \<in> set (allowlist (callback_hosts_env cfg))
    \<and> effective_port u \<in> {''80'', ''443'', ''8080'', ''9100''}
    \<and> dns_lookup cfg (url_hostname u) = Inr address
    \<and> (\<not> isPrivate address \<or> ''localhost'' \<in> set (allowlist (callback_hosts_env cfg))
       \<or> ''127.0.0.1'' \<in> set (allowlist (callback_hosts_env cfg)))"
proof -
  obtain cb where cb: "job_fields j ''callbackURL'' = Some cb" "callback_check cfg cb = Inr target"
    using assms by (cases "job_fields j ''callbackURL''") (auto simp: trackResult_def Let_def split: if_splits)
  then show ?thesis
    by (auto simp: callback_check_def callback_ports_def Let_def split: option.splits sum.splits if_splits)
qed

theorem callback_only_to_allowed_hosts_witness:
  "\<exists>u. parse_url demo_env (JStr ''http://localhost:8080'') = Some u \<and> url_hostname u \<in> set (allowlist [])"
proof -
  let ?j = "new_job ''j'' 0 ''x'' (Some (JObj [(''callbackURL'', JStr ''http://localhost:8080'')]))"
  have "snd (trackResult (demo_cfg [] []) 0 ?j (Chunks []) []) = Some (Inr ''http://localhost:8080'')"
    by code_simp
  from callback_only_to_allowed_hosts [OF this]
  show ?thesis by (auto simp: job_fields_def new_job_def demo_cfg_def map_get_def)
qed

text \<open>
  A job that was given up is never reported as failed: \<open>job_status\<close> looks only at
  the results and the submitted ids, so after three failures the job is a dead letter
  and its status is still pending.
\<close>

definition demo_failing_run :: "worker_event list" where
  "demo_failing_run =
     [WStarted 0, WFinished 501 0 (Inl TypeError), WTimer 2000 0, WFinished 2001 0 (Inl TypeError),
      WTimer 5000 1, WFinished 5001 0 (Inl TypeError)]"

theorem dead_job_still_pending:
  "(let s = worker_run (demo_cfg [] []) (accept_job 0 ''j'' ''room:cleanup'' None new_server) demo_failing_run in
      map dl_id (deadLetters (mqueue (manager_of s))) = [''j'']
      \<and> job_status s ''j'' = respond 200 (PendingBody ''j''))"
  by code_simp

section \<open>The process\<close>

text \<open>
  Signals and the exit: \<open>shutdown\<close> stops the manager and closes the HTTP server; the callback of
  \<open>server.close\<close>, called when the last connection has ended, exits with 0, and a timer of ten
  seconds exits with 1. A process that has exited takes no further event.
\<close>

record process =
  pr_server :: server
  pr_closing :: bool
  pr_force_timers :: "int list"
  pr_exit :: "nat option"

definition new_process :: process where
  "new_process = \<lparr>pr_server = new_server, pr_closing = False, pr_force_timers = [], pr_exit = None\<rparr>"

definition shutdown :: "server_cfg \<Rightarrow> time \<Rightarrow> process \<Rightarrow> process" where
  "shutdown cfg now p =
     p\<lparr>pr_server := worker_step cfg (pr_server p) WShutdown, pr_closing := True,
       pr_force_timers := pr_force_timers p @ [now + 10000]\<rparr>"

datatype process_event = Work worker_event | Terminate time | Closed | Forced time

fun process_step :: "server_cfg \<Rightarrow> process \<Rightarrow> process_event \<Rightarrow> process" where
  "process_step cfg p (Work e) =
     (if pr_exit p \<noteq> None then p else p\<lparr>pr_server := worker_step cfg (pr_server p) e\<rparr>)"
| "process_step cfg p (Terminate now) = (if pr_exit p \<noteq> None then p else shutdown cfg now p)"
| "process_step cfg p Closed = (if pr_exit p \<noteq> None \<or> \<not> pr_closing p then p else p\<lparr>pr_exit := Some 0\<rparr>)"
| "process_step cfg p (Forced now) =
     (if pr_exit p \<noteq> None \<or> (\<forall>t\<in>set (pr_force_timers p). now < t) then p else p\<lparr>pr_exit := Some 1\<rparr>)"

abbreviation process_run :: "server_cfg \<Rightarrow> process \<Rightarrow> process_event list \<Rightarrow> process" where
  "process_run cfg \<equiv> foldl (process_step cfg)"

definition process_ok :: "process \<Rightarrow> bool" where
  "process_ok p \<longleftrightarrow> server_inv (pr_server p) \<and> (pr_exit p \<noteq> None \<or> pr_force_timers p \<noteq> [] \<longrightarrow> pr_closing p)"

lemma process_ok_step: "process_ok p \<Longrightarrow> process_ok (process_step cfg p e)"
  using server_inv_step [of "pr_server p" cfg]
  by (cases e) (auto simp: process_ok_def shutdown_def simp del: worker_step.simps)

interpretation process: event_machine "process_step cfg" process_ok for cfg
  by unfold_locales (rule process_ok_step)

text \<open>The process exits only after a signal, and its tables are bounded until then.\<close>

lemma process_exits_only_on_a_signal:
  assumes "pr_exit (process_run cfg new_process es) \<noteq> None"
  shows "\<exists>now. Terminate now \<in> set es"
proof (rule ccontr)
  assume "\<nexists>now. Terminate now \<in> set es"
  then have "\<not> pr_closing (process_run cfg new_process es) \<and> process_ok (process_run cfg new_process es)"
  proof (induction es rule: rev_induct)
    case Nil
    show ?case by (simp add: new_process_def process_ok_def server_inv_new)
  next
    case (snoc e es)
    then show ?case
      using process_ok_step [of "process_run cfg new_process es" cfg e]
      by (cases e) (auto simp: process_ok_def)
  qed
  with assms show False by (auto simp: process_ok_def)
qed

text \<open>
  Nothing waits for the job that is running: once the connections are closed the process exits
  with 0, and the job is neither finished nor in the queue.
\<close>

lemma shutdown_abandons_the_running_job:
  "(let p = process_run (demo_cfg [] []) (new_process\<lparr>pr_server := accept_job 0 ''j'' ''room:cleanup'' None new_server\<rparr>)
              [Work (WStarted 0), Terminate 10, Closed, Work (WFinished 20 0 (Inr (Chunks [])))] in
      pr_exit p = Some 0 \<and> map_option job_id (in_flight (manager_of (pr_server p)) 0) = Some ''j''
      \<and> items (mqueue (manager_of (pr_server p))) = [] \<and> results (pr_server p) = [])"
  by code_simp

end
