(* ===== verification/Crypto.thy ===== *)
theory Crypto
  imports TextCodec Base64
begin

text \<open>
  The client's cryptography (\<^verbatim>\<open>apps/trapchat/src/lib/crypto.js\<close>): authenticated
  encryption of texts, bytes and media envelopes, key derivation, key export and
  import, and the key rotator with its timers and its asynchronous rotations.

  The primitives of WebCrypto are the fields of the record \<open>webcrypto\<close>; what the code
  relies on is stated as named predicates on it (\<open>aes_gcm_correct\<close>,
  \<open>aes_gcm_authentic\<close>, \<open>raw_keys_correct\<close>). Random bytes are arguments.
\<close>

definition KEY_LENGTH :: nat where "KEY_LENGTH = 256"
definition IV_LENGTH :: nat where "IV_LENGTH = 12"
definition PBKDF2_ITERATIONS :: nat where "PBKDF2_ITERATIONS = 600000"
definition KDF_CONTEXT :: string where "KDF_CONTEXT = ''trapchat:pbkdf2:v1''"

section \<open>The platform\<close>

record 'k webcrypto =
  aes_encrypt :: "byte list \<Rightarrow> 'k \<Rightarrow> byte list \<Rightarrow> js_error + byte list"
  aes_decrypt :: "byte list \<Rightarrow> 'k \<Rightarrow> byte list \<Rightarrow> js_error + byte list"
  export_raw :: "'k \<Rightarrow> js_error + byte list"
  import_aes :: "byte list \<Rightarrow> js_error + 'k"
  sha256_digest :: "byte list \<Rightarrow> byte list"
  pbkdf2_derive :: "byte list \<Rightarrow> byte list \<Rightarrow> nat \<Rightarrow> nat \<Rightarrow> js_error + 'k"

text \<open>Decryption undoes encryption under the same key and initialisation vector.\<close>

definition aes_gcm_correct :: "'k webcrypto \<Rightarrow> bool" where
  "aes_gcm_correct P \<longleftrightarrow>
     (\<forall>iv k m. length iv = IV_LENGTH \<longrightarrow> (\<exists>c. aes_encrypt P iv k m = Inr c \<and> aes_decrypt P iv k c = Inr m))"

text \<open>A ciphertext made under one key is rejected under every other.\<close>

definition aes_gcm_authentic :: "'k webcrypto \<Rightarrow> bool" where
  "aes_gcm_authentic P \<longleftrightarrow>
     (\<forall>iv k k' m c. aes_encrypt P iv k m = Inr c \<and> k' \<noteq> k \<longrightarrow> (\<exists>e. aes_decrypt P iv k' c = Inl e))"

definition raw_keys_correct :: "'k webcrypto \<Rightarrow> bool" where
  "raw_keys_correct P \<longleftrightarrow> (\<forall>k. \<exists>raw. export_raw P k = Inr raw \<and> import_aes P raw = Inr k)"

text \<open>\<open>dst.set(src, offset)\<close> on typed arrays.\<close>

definition typed_set :: "byte list \<Rightarrow> byte list \<Rightarrow> nat \<Rightarrow> js_error + byte list" where
  "typed_set dst src off =
     (if length dst < off + length src then Inl RangeError
      else Inr (take off dst @ src @ drop (off + length src) dst))"

definition new_Uint8Array :: "nat \<Rightarrow> byte list" where
  "new_Uint8Array n = replicate n 0"

definition bind :: "js_error + 'a \<Rightarrow> ('a \<Rightarrow> js_error + 'b) \<Rightarrow> js_error + 'b" where
  "bind r f = (case r of Inl e \<Rightarrow> Inl e | Inr v \<Rightarrow> f v)"

lemma bind_simps [simp]: "bind (Inl e) f = Inl e" "bind (Inr v) f = f v"
  by (simp_all add: bind_def)

lemma bind_Inr: "bind r f = Inr v \<longleftrightarrow> (\<exists>x. r = Inr x \<and> f x = Inr v)"
  by (cases r) auto

section \<open>Base64 of bytes\<close>

fun binary_loop :: "byte list \<Rightarrow> nat \<Rightarrow> nat \<Rightarrow> string \<Rightarrow> string" where
  "binary_loop bytes i 0 binary = binary"
| "binary_loop bytes i (Suc n) binary = binary_loop bytes (Suc i) n (binary @ [char_of_byte (bytes ! i)])"

text \<open>The character loop makes the binary string whose code units \<open>btoa\<close> encodes.\<close>

definition uint8ToBase64 :: "byte list \<Rightarrow> string" where
  "uint8ToBase64 bytes = btoa (map byte_of (binary_loop bytes 0 (length bytes) []))"

definition base64ToUint8 :: "string \<Rightarrow> js_error + byte list" where
  "base64ToUint8 base64 =
     (case atob base64 of
        None \<Rightarrow> Inl (ErrorMsg ''InvalidCharacterError'')
      | Some binary \<Rightarrow>
          Inr (foldl (\<lambda>bytes i. bytes[i := binary ! i]) (new_Uint8Array (length binary)) [0..<length binary]))"

section \<open>Encryption\<close>

text \<open>The initialisation vector, then the ciphertext, in one fresh array.\<close>

definition prepend_iv :: "byte list \<Rightarrow> byte list \<Rightarrow> js_error + byte list" where
  "prepend_iv iv ciphertext =
     bind (typed_set (new_Uint8Array (length iv + length ciphertext)) iv 0)
       (\<lambda>result. typed_set result ciphertext (length iv))"

definition encrypt :: "'k webcrypto \<Rightarrow> byte list \<Rightarrow> 'k \<Rightarrow> string \<Rightarrow> js_error + string" where
  "encrypt P iv key plaintext =
     bind (aes_encrypt P iv key (text_encode plaintext)) (\<lambda>ciphertext.
     bind (prepend_iv iv ciphertext) (\<lambda>result. Inr (uint8ToBase64 result)))"

definition decrypt :: "'k webcrypto \<Rightarrow> 'k \<Rightarrow> string \<Rightarrow> js_error + string" where
  "decrypt P key encoded =
     bind (base64ToUint8 encoded) (\<lambda>dat.
     bind (aes_decrypt P (js_slice dat 0 IV_LENGTH) key (js_slice dat IV_LENGTH (length dat))) (\<lambda>plaintext.
     Inr (text_decode plaintext)))"

definition encryptBytes :: "'k webcrypto \<Rightarrow> byte list \<Rightarrow> 'k \<Rightarrow> byte list \<Rightarrow> js_error + string" where
  "encryptBytes P iv key bytes =
     bind (aes_encrypt P iv key bytes) (\<lambda>ciphertext.
     bind (prepend_iv iv ciphertext) (\<lambda>result. Inr (uint8ToBase64 result)))"

definition decryptBytes :: "'k webcrypto \<Rightarrow> 'k \<Rightarrow> string \<Rightarrow> js_error + byte list" where
  "decryptBytes P key encoded =
     bind (base64ToUint8 encoded) (\<lambda>dat.
     aes_decrypt P (js_slice dat 0 IV_LENGTH) key (js_slice dat IV_LENGTH (length dat)))"

section \<open>Media envelopes\<close>

text \<open>\<open>{...metadata, data: ...}\<close>: the fields of the metadata, then \<open>data\<close> (in place if it is there).\<close>

definition envelope_object :: "(string, json) jmap \<Rightarrow> byte list \<Rightarrow> json" where
  "envelope_object metadata chunkData = JObj (map_set ''data'' (JStr (uint8ToBase64 chunkData)) metadata)"

definition encryptMediaEnvelope ::
  "'k webcrypto \<Rightarrow> byte list \<Rightarrow> 'k \<Rightarrow> byte list \<Rightarrow> (string, json) jmap \<Rightarrow> js_error + string" where
  "encryptMediaEnvelope P iv key chunkData metadata =
     encrypt P iv key (json_stringify (envelope_object metadata chunkData))"

text \<open>\<open>const { data, ...metadata } = parsed\<close>: throws on null; primitives have no such fields.\<close>

definition destructure_data :: "json \<Rightarrow> js_error + (json option \<times> (string, json) jmap)" where
  "destructure_data parsed =
     (case parsed of
        JNull \<Rightarrow> Inl TypeError
      | JObj fs \<Rightarrow> Inr (map_get fs ''data'', map_delete ''data'' fs)
      | JArr xs \<Rightarrow> Inr (None, map (\<lambda>(i, x). (show_nat i, x)) (List.enumerate 0 xs))
      | _ \<Rightarrow> Inr (None, []))"

definition decryptMediaEnvelope ::
  "'k webcrypto \<Rightarrow> 'k \<Rightarrow> string \<Rightarrow> js_error + (byte list \<times> (string, json) jmap)" where
  "decryptMediaEnvelope P key ciphertext =
     bind (decrypt P key ciphertext) (\<lambda>js.
     case json_parse js of
       None \<Rightarrow> Inl SyntaxError
     | Some parsed \<Rightarrow>
         bind (destructure_data parsed) (\<lambda>(dat, metadata).
         case dat of
           Some (JStr d) \<Rightarrow> bind (base64ToUint8 d) (\<lambda>chunkData. Inr (chunkData, metadata))
         | _ \<Rightarrow> Inl (ErrorMsg ''decryptMediaEnvelope: missing or invalid data field'')))"

section \<open>Keys\<close>

definition exportKey :: "'k webcrypto \<Rightarrow> 'k \<Rightarrow> js_error + string" where
  "exportKey P key = bind (export_raw P key) (\<lambda>raw. Inr (uint8ToBase64 raw))"

definition importKey :: "'k webcrypto \<Rightarrow> string \<Rightarrow> js_error + 'k" where
  "importKey P base64 = bind (base64ToUint8 base64) (import_aes P)"

text \<open>A salt argument that is not a \<open>Uint8Array\<close> is \<open>None\<close>.\<close>

definition combined_salt :: "'k webcrypto \<Rightarrow> string \<Rightarrow> byte list \<Rightarrow> js_error + byte list" where
  "combined_salt P roomName salt =
     bind (typed_set (new_Uint8Array 64) salt 0) (\<lambda>s.
     typed_set s (sha256_digest P (text_encode (KDF_CONTEXT @ '':'' @ roomName))) 32)"

definition deriveRoomKey :: "'k webcrypto \<Rightarrow> string \<Rightarrow> string \<Rightarrow> byte list option \<Rightarrow> js_error + 'k" where
  "deriveRoomKey P roomName passphrase salt =
     (if passphrase = []
      then Inl (ErrorMsg (''deriveRoomKey requires a passphrase '' @ em_dash @ '' room name alone is not secret''))
      else case salt of
        None \<Rightarrow> Inl (ErrorMsg ''deriveRoomKey requires a 32-byte Uint8Array salt'')
      | Some s \<Rightarrow>
          if length s \<noteq> 32 then Inl (ErrorMsg ''deriveRoomKey requires a 32-byte Uint8Array salt'')
          else bind (combined_salt P roomName s) (\<lambda>combinedSalt.
            pbkdf2_derive P (text_encode (roomName @ '':'' @ passphrase)) combinedSalt PBKDF2_ITERATIONS KEY_LENGTH))"

section \<open>Key rotation\<close>

text \<open>
  The rotator's fields, the timers the platform still holds for it, the rotations
  that are suspended at one of their two \<open>await\<close>s, and the calls of \<open>onRotate\<close>
  (current key, exported key, old key) so far.
\<close>

datatype 'k rotation =
    Generating "'k option"
  | Exporting "'k option" "js_error + string"
  | Finished

record 'k rotator =
  currentKey :: "'k option"
  previousKey :: "'k option"
  rtimer :: "nat option"
  graceTimer :: "nat option"
  onRotate :: bool
  interval :: int
  live_intervals :: "nat list"
  live_graces :: "nat list"
  next_id :: nat
  rotations :: "'k rotation list"
  rotated :: "('k option \<times> string \<times> 'k option) list"

definition new_KeyRotator :: "int \<Rightarrow> bool \<Rightarrow> 'k rotator" where
  "new_KeyRotator intv cb =
     \<lparr>currentKey = None, previousKey = None, rtimer = None, graceTimer = None, onRotate = cb,
      interval = (if intv = 0 then 30 * 60 * 1000 else intv), live_intervals = [], live_graces = [], next_id = 1,
      rotations = [], rotated = []\<rparr>"

definition rotator_stop :: "'k rotator \<Rightarrow> 'k rotator" where
  "rotator_stop r =
     (let r1 = (case rtimer r of None \<Rightarrow> r
                | Some t \<Rightarrow> r\<lparr>live_intervals := removeAll t (live_intervals r), rtimer := None\<rparr>)
      in case graceTimer r1 of None \<Rightarrow> r1
         | Some t \<Rightarrow> r1\<lparr>live_graces := removeAll t (live_graces r1), graceTimer := None\<rparr>)"

text \<open>\<open>start(key)\<close>; a \<open>null\<close> key is \<open>None\<close>.\<close>

definition rotator_start :: "'k option \<Rightarrow> 'k rotator \<Rightarrow> 'k rotator" where
  "rotator_start key r =
     (let r1 = rotator_stop r;
          r2 = r1\<lparr>currentKey := key\<rparr>
      in r2\<lparr>rtimer := Some (next_id r2), live_intervals := live_intervals r2 @ [next_id r2],
            next_id := Suc (next_id r2)\<rparr>)"

text \<open>Clear the old grace timer, set a new one.\<close>

definition clear_grace :: "'k rotator \<Rightarrow> 'k rotator" where
  "clear_grace r =
     (case graceTimer r of None \<Rightarrow> r | Some t \<Rightarrow> r\<lparr>live_graces := removeAll t (live_graces r)\<rparr>)"

definition set_grace :: "'k rotator \<Rightarrow> 'k rotator" where
  "set_grace r =
     r\<lparr>graceTimer := Some (next_id r), live_graces := live_graces r @ [next_id r], next_id := Suc (next_id r)\<rparr>"

definition acceptKey :: "'k \<Rightarrow> 'k rotator \<Rightarrow> 'k rotator" where
  "acceptKey key r =
     (let r1 = clear_grace r;
          r2 = r1\<lparr>previousKey := currentKey r1\<rparr>;
          r3 = r2\<lparr>currentKey := Some key\<rparr>
      in set_grace r3)"

text \<open>\<open>#rotate\<close> up to its first \<open>await\<close>; then after \<open>generateRoomKey\<close>; then after \<open>exportKey\<close>.\<close>

definition rotate_begin :: "'k rotator \<Rightarrow> 'k rotator" where
  "rotate_begin r =
     (let oldKey = currentKey r in
      r\<lparr>previousKey := oldKey, rotations := rotations r @ [Generating oldKey]\<rparr>)"

definition rotate_generated ::
  "'k webcrypto \<Rightarrow> nat \<Rightarrow> 'k option \<Rightarrow> js_error + 'k \<Rightarrow> 'k rotator \<Rightarrow> 'k rotator" where
  "rotate_generated P i oldKey gen r =
     (case gen of
        Inl e \<Rightarrow> r\<lparr>rotations := (rotations r)[i := Finished]\<rparr>
      | Inr key \<Rightarrow> r\<lparr>currentKey := Some key, rotations := (rotations r)[i := Exporting oldKey (exportKey P key)]\<rparr>)"

definition rotate_exported :: "nat \<Rightarrow> 'k option \<Rightarrow> js_error + string \<Rightarrow> 'k rotator \<Rightarrow> 'k rotator" where
  "rotate_exported i oldKey exp r =
     (let r1 = r\<lparr>rotations := (rotations r)[i := Finished]\<rparr> in
      case exp of
        Inl e \<Rightarrow> r1
      | Inr exported \<Rightarrow>
          let r2 = (if onRotate r1 then r1\<lparr>rotated := rotated r1 @ [(currentKey r1, exported, oldKey)]\<rparr> else r1)
          in set_grace (clear_grace r2))"

definition grace_fires :: "nat \<Rightarrow> 'k rotator \<Rightarrow> 'k rotator" where
  "grace_fires t r =
     (if t \<in> set (live_graces r)
      then r\<lparr>live_graces := removeAll t (live_graces r), previousKey := None, graceTimer := None\<rparr>
      else r)"

datatype 'k rotator_event =
    RStart "'k option"
  | RStop
  | RAccept 'k
  | RInterval nat
  | RGenerated nat "js_error + 'k"
  | RExported nat
  | RGrace nat

fun rotator_step :: "'k webcrypto \<Rightarrow> 'k rotator \<Rightarrow> 'k rotator_event \<Rightarrow> 'k rotator" where
  "rotator_step P r (RStart key) = rotator_start key r"
| "rotator_step P r RStop = rotator_stop r"
| "rotator_step P r (RAccept key) = acceptKey key r"
| "rotator_step P r (RInterval t) = (if t \<in> set (live_intervals r) then rotate_begin r else r)"
| "rotator_step P r (RGenerated i gen) =
     (if i < length (rotations r) then
        (case rotations r ! i of Generating old \<Rightarrow> rotate_generated P i old gen r | _ \<Rightarrow> r)
      else r)"
| "rotator_step P r (RExported i) =
     (if i < length (rotations r) then
        (case rotations r ! i of Exporting old exp \<Rightarrow> rotate_exported i old exp r | _ \<Rightarrow> r)
      else r)"
| "rotator_step P r (RGrace t) = grace_fires t r"

text \<open>
  \<open>decrypt\<close> of the rotator: the current key, then, when that decryption was awaited
  and failed, the previous key. \<open>r\<close> is the rotator at the call and \<open>r'\<close> after the
  \<open>await\<close>. With no current key the platform rejects the call.
\<close>

definition with_key :: "'k option \<Rightarrow> ('k \<Rightarrow> js_error + 'a) \<Rightarrow> js_error + 'a" where
  "with_key k f = (case k of None \<Rightarrow> Inl TypeError | Some key \<Rightarrow> f key)"

definition try_keys :: "('k \<Rightarrow> js_error + 'a) \<Rightarrow> 'k rotator \<Rightarrow> 'k rotator \<Rightarrow> js_error + 'a" where
  "try_keys dec r r' =
     (case with_key (currentKey r) dec of
        Inr v \<Rightarrow> Inr v
      | Inl _ \<Rightarrow>
          (case previousKey r' of
             None \<Rightarrow> Inl (ErrorMsg ''decryption failed'')
           | Some k \<Rightarrow> (case dec k of Inr v \<Rightarrow> Inr v | Inl _ \<Rightarrow> Inl (ErrorMsg ''decryption failed''))))"

definition rotator_decrypt :: "'k webcrypto \<Rightarrow> 'k rotator \<Rightarrow> 'k rotator \<Rightarrow> string \<Rightarrow> js_error + string" where
  "rotator_decrypt P r r' ciphertext = try_keys (\<lambda>k. decrypt P k ciphertext) r r'"

definition rotator_decryptBytes :: "'k webcrypto \<Rightarrow> 'k rotator \<Rightarrow> 'k rotator \<Rightarrow> string \<Rightarrow> js_error + byte list" where
  "rotator_decryptBytes P r r' ciphertext = try_keys (\<lambda>k. decryptBytes P k ciphertext) r r'"

section \<open>Round trips\<close>

lemma binary_loop_eq: "i + n \<le> length bytes \<Longrightarrow>
    binary_loop bytes i n acc = acc @ map char_of_byte (take n (drop i bytes))"
proof (induction n arbitrary: i acc)
  case (Suc n)
  then have "take (Suc n) (drop i bytes) = bytes ! i # take n (drop (Suc i) bytes)"
    by (simp add: take_Suc_conv_app_nth Cons_nth_drop_Suc [symmetric] del: take_Suc)
  with Suc show ?case by simp
qed simp

lemma byte_of_char_of_byte [simp]: "byte_of (char_of_byte b) = b"
  by (simp add: byte_of_def char_of_byte_def of_char_of unat_byte)

lemma uint8ToBase64_eq: "uint8ToBase64 bytes = btoa bytes"
  by (simp add: uint8ToBase64_def binary_loop_eq comp_def)

lemma copy_loop: "n \<le> length src \<Longrightarrow> length dst = length src \<Longrightarrow>
    foldl (\<lambda>bs i. bs[i := src ! i]) dst [0..<n] = take n src @ drop n dst"
proof (induction n)
  case (Suc n)
  then show ?case
    by (simp add: list_update_append take_Suc_conv_app_nth Cons_nth_drop_Suc [symmetric])
qed simp

lemma base64ToUint8_eq:
  "base64ToUint8 s = (case atob s of None \<Rightarrow> Inl (ErrorMsg ''InvalidCharacterError'') | Some b \<Rightarrow> Inr b)"
  by (auto simp: base64ToUint8_def new_Uint8Array_def copy_loop split: option.splits)

lemma base64_roundtrip [simp]: "base64ToUint8 (uint8ToBase64 bytes) = Inr bytes"
  by (simp add: base64ToUint8_eq uint8ToBase64_eq atob_btoa)

lemma prepend_iv_eq: "prepend_iv iv ct = Inr (iv @ ct)"
  by (simp add: prepend_iv_def typed_set_def new_Uint8Array_def)

lemmas crypt_simps = prepend_iv_eq js_slice_def

lemma encryptBytes_ok:
  assumes "aes_gcm_correct P" "length iv = IV_LENGTH"
  obtains c where "aes_encrypt P iv k m = Inr c" "aes_decrypt P iv k c = Inr m"
    and "encryptBytes P iv k m = Inr (uint8ToBase64 (iv @ c))"
  using assms unfolding aes_gcm_correct_def encryptBytes_def prepend_iv_eq by (metis bind_simps(2))

lemma encrypt_as_bytes: "encrypt P iv k s = encryptBytes P iv k (text_encode s)"
  by (simp add: encrypt_def encryptBytes_def)

lemma decrypt_as_bytes: "decrypt P k c = bind (decryptBytes P k c) (\<lambda>p. Inr (text_decode p))"
  by (simp add: decrypt_def decryptBytes_def bind_def split: sum.splits)

lemma decryptBytes_encoded:
  "length iv = IV_LENGTH \<Longrightarrow> decryptBytes P k (uint8ToBase64 (iv @ c)) = aes_decrypt P iv k c"
  by (simp add: decryptBytes_def crypt_simps)

lemma decryptBytes_encryptBytes:
  assumes "aes_gcm_correct P" "length iv = IV_LENGTH"
  shows "bind (encryptBytes P iv k m) (decryptBytes P k) = Inr m"
  using encryptBytes_ok [OF assms, of k m] assms(2) by (metis bind_simps(2) decryptBytes_encoded)

lemma decrypt_encrypt:
  assumes "aes_gcm_correct P" "length iv = IV_LENGTH"
  shows "bind (encrypt P iv k s) (decrypt P k) = Inr (text_decode (text_encode s))"
  using encryptBytes_ok [OF assms, of k "text_encode s"] assms(2)
  by (metis bind_simps(2) decryptBytes_encoded decrypt_as_bytes encrypt_as_bytes)

lemma encrypt_Inr:
  assumes "aes_gcm_correct P" "length iv = IV_LENGTH"
  obtains c where "encrypt P iv k s = Inr c" and "decrypt P k c = Inr (text_decode (text_encode s))"
  using encryptBytes_ok [OF assms, of k "text_encode s"] assms(2)
  by (metis bind_simps(2) decryptBytes_encoded decrypt_as_bytes encrypt_as_bytes)

lemma decrypt_wrong_key:
  assumes "aes_gcm_authentic P" "length iv = IV_LENGTH" "encrypt P iv k s = Inr c" "k' \<noteq> k"
  shows "\<exists>e. decrypt P k' c = Inl e"
proof -
  obtain ct where ct: "aes_encrypt P iv k (text_encode s) = Inr ct" "c = uint8ToBase64 (iv @ ct)"
    using assms(3) by (auto simp: encrypt_def bind_Inr prepend_iv_eq)
  with assms obtain e where "aes_decrypt P iv k' ct = Inl e" unfolding aes_gcm_authentic_def by blast
  with ct assms(2) show ?thesis by (simp add: decrypt_as_bytes decryptBytes_encoded)
qed

lemma try_keys_cases:
  "try_keys dec r r' =
     (case bind (with_key (currentKey r) dec) Inr of
        Inr v \<Rightarrow> Inr v
      | Inl _ \<Rightarrow> (case bind (with_key (previousKey r') dec) Inr of
                    Inr v \<Rightarrow> Inr v | Inl _ \<Rightarrow> Inl (ErrorMsg ''decryption failed'')))"
  by (auto simp: try_keys_def with_key_def bind_def split: sum.splits option.splits)

text \<open>A small instance of the platform: a key is a byte, a ciphertext is the key and the text.\<close>

definition demo_crypto :: "byte webcrypto" where
  "demo_crypto =
     \<lparr>aes_encrypt = (\<lambda>iv k m. Inr (k # m)),
      aes_decrypt = (\<lambda>iv k c. case c of [] \<Rightarrow> Inl (ErrorMsg ''OperationError'')
         | t # m \<Rightarrow> if t = k then Inr m else Inl (ErrorMsg ''OperationError'')),
      export_raw = (\<lambda>k. Inr [k]),
      import_aes = (\<lambda>raw. case raw of [k] \<Rightarrow> Inr k | _ \<Rightarrow> Inl (ErrorMsg ''DataError'')),
      sha256_digest = (\<lambda>m. take 32 (m @ replicate 32 0)),
      pbkdf2_derive = (\<lambda>pw salt it len. Inr (sum_list pw + sum_list salt))\<rparr>"

lemma demo_crypto_ok:
  "aes_gcm_correct demo_crypto" "aes_gcm_authentic demo_crypto" "raw_keys_correct demo_crypto"
  by (simp_all add: demo_crypto_def aes_gcm_correct_def aes_gcm_authentic_def raw_keys_correct_def)

section \<open>Invariants of the rotator\<close>

definition rotator_inv :: "'k rotator \<Rightarrow> bool" where
  "rotator_inv r \<longleftrightarrow>
     live_graces r = (case graceTimer r of None \<Rightarrow> [] | Some t \<Rightarrow> [t])
     \<and> live_intervals r = (case rtimer r of None \<Rightarrow> [] | Some t \<Rightarrow> [t])"

lemmas rotator_defs = rotator_stop_def rotator_start_def clear_grace_def set_grace_def acceptKey_def
  rotate_begin_def rotate_generated_def rotate_exported_def grace_fires_def

lemma rotator_inv_step: "rotator_inv r \<Longrightarrow> rotator_inv (rotator_step P r e)"
  by (cases e) (auto simp: rotator_inv_def rotator_defs Let_def split: option.splits rotation.splits sum.splits)

interpretation rotator: event_machine "rotator_step P" rotator_inv for P
  by unfold_locales (rule rotator_inv_step)

text \<open>The previous key is gone, or a grace timer or a rotation in progress will take it away.\<close>

definition erasure_scheduled :: "'k rotator \<Rightarrow> bool" where
  "erasure_scheduled r \<longleftrightarrow>
     previousKey r = None \<or> live_graces r \<noteq> [] \<or> (\<exists>x\<in>set (rotations r). x \<noteq> Finished)"

fun undisturbed :: "'k rotator_event \<Rightarrow> bool" where
  "undisturbed (RStart k) = False"
| "undisturbed RStop = False"
| "undisturbed (RGenerated i (Inl e)) = False"
| "undisturbed _ = True"

definition exports_ok :: "'k rotator \<Rightarrow> bool" where
  "exports_ok r \<longleftrightarrow> (\<forall>old exp. Exporting old exp \<in> set (rotations r) \<longrightarrow> (\<exists>s. exp = Inr s))"

lemma exportKey_ok: "raw_keys_correct P \<Longrightarrow> \<exists>s. exportKey P k = Inr s"
  unfolding raw_keys_correct_def exportKey_def by (metis bind_simps(2))

lemma rotations_clear_grace [simp]: "rotations (clear_grace r) = rotations r"
  by (simp add: clear_grace_def split: option.splits)

lemma erasure_step:
  assumes "raw_keys_correct P" "undisturbed e" "erasure_scheduled r" "exports_ok r" "rotator_inv r"
  shows "erasure_scheduled (rotator_step P r e) \<and> exports_ok (rotator_step P r e)"
proof (cases e)
  case (RGenerated i gen)
  with assms exportKey_ok [OF assms(1)] show ?thesis
    by (cases gen) (auto simp: erasure_scheduled_def exports_ok_def rotate_generated_def set_update_memI
        split: rotation.splits dest!: set_update_subset_insert [THEN subsetD] intro: set_update_memI)
next
  case (RExported i)
  show ?thesis
  proof (cases "i < length (rotations r) \<and> (\<exists>old exp. rotations r ! i = Exporting old exp)")
    case True
    then obtain old exp where ph: "i < length (rotations r)" "rotations r ! i = Exporting old exp" by blast
    then obtain s where "exp = Inr s" using assms(4) unfolding exports_ok_def by (metis nth_mem)
    with ph RExported assms(4) show ?thesis
      by (auto simp: erasure_scheduled_def exports_ok_def rotate_exported_def set_grace_def Let_def
          dest!: set_update_subset_insert [THEN subsetD])
  next
    case False
    with RExported assms show ?thesis by (auto split: rotation.splits)
  qed
qed (use assms in \<open>auto simp: erasure_scheduled_def exports_ok_def rotator_defs rotator_inv_def Let_def
  split: option.splits\<close>)

lemma erasure_run:
  assumes "raw_keys_correct P"
  shows "list_all undisturbed es \<Longrightarrow> erasure_scheduled r \<Longrightarrow> exports_ok r \<Longrightarrow> rotator_inv r \<Longrightarrow>
    erasure_scheduled (foldl (rotator_step P) r es)"
proof (induction es arbitrary: r)
  case (Cons e es)
  then show ?case using erasure_step [OF assms, of e r] rotator_inv_step [of r P e] by simp
qed simp

section \<open>Envelopes\<close>

lemma envelope_fresh:
  "map_get metadata ''data'' = None \<Longrightarrow>
     envelope_object metadata chunkData = JObj (metadata @ [(''data'', JStr (uint8ToBase64 chunkData))])"
  by (simp add: envelope_object_def map_set_fresh map_get_def map_of_eq_None_iff map_keys_def)

lemma utf8_btoa: "utf8 (btoa bs)"
proof (rule utf8_ascii, rule ballI)
  fix c assume "c \<in> set (btoa bs)"
  then show "(of_char c :: nat) < 128" using btoa_ascii by blast
qed

lemma map_delete_snoc: "map_get m k = None \<Longrightarrow> map_delete k (m @ [(k, v)]) = m"
  by (simp add: map_delete_def AList.delete_eq map_get_def map_of_eq_None_iff filter_id_conv image_iff) force

lemma media_envelope_open:
  assumes "aes_gcm_correct P" "length iv = IV_LENGTH"
    and "json_ok (JObj metadata)" "json_utf8 (JObj metadata)" "map_get metadata ''data'' = None"
  obtains c where "encryptMediaEnvelope P iv key chunkData metadata = Inr c"
    and "decrypt P key c = Inr (json_stringify (envelope_object metadata chunkData))"
    and "json_parse (json_stringify (envelope_object metadata chunkData)) = Some (envelope_object metadata chunkData)"
    and "decryptMediaEnvelope P key c = Inr (chunkData, metadata)"
proof -
  let ?env = "envelope_object metadata chunkData"
  have env: "?env = JObj (metadata @ [(''data'', JStr (uint8ToBase64 chunkData))])"
    by (rule envelope_fresh [OF assms(5)])
  have "utf8 ''data''" by (rule utf8_ascii) simp
  then have "json_utf8 ?env"
    using assms(4) by (auto simp: env uint8ToBase64_eq utf8_btoa)
  moreover have parse: "json_parse (json_stringify ?env) = Some ?env"
    using assms(3,5) by (intro json_roundtrip) (auto simp: env map_get_def map_of_eq_None_iff)
  moreover obtain c where c: "encryptMediaEnvelope P iv key chunkData metadata = Inr c"
    "decrypt P key c = Inr (text_decode (text_encode (json_stringify ?env)))"
    unfolding encryptMediaEnvelope_def by (rule encrypt_Inr [OF assms(1,2)])
  ultimately have dec: "decrypt P key c = Inr (json_stringify ?env)" by (simp add: text_decode_json)
  have "destructure_data ?env = Inr (Some (JStr (uint8ToBase64 chunkData)), metadata)"
    using assms(5) by (simp add: env destructure_data_def map_delete_snoc) (simp add: map_get_def map_add_def)
  then have "decryptMediaEnvelope P key c = Inr (chunkData, metadata)"
    by (simp add: decryptMediaEnvelope_def dec parse)
  with c(1) dec parse that show ?thesis by blast
qed

section \<open>Properties\<close>

text \<open>
  C30: What \<open>encrypt\<close> makes, \<open>decrypt\<close> turns back into the plaintext, for every
  well-formed text that does not start with a byte order mark; under any other key
  the same ciphertext is rejected.
\<close>

theorem encrypt_decrypt_roundtrip:
  assumes "aes_gcm_correct P" and "aes_gcm_authentic P" and "length iv = IV_LENGTH"
    and "utf8 plaintext" and "take 3 (text_encode plaintext) \<noteq> bom"
  shows "\<exists>c. encrypt P iv key plaintext = Inr c \<and> decrypt P key c = Inr plaintext
    \<and> (\<forall>other. other \<noteq> key \<longrightarrow> (\<exists>e. decrypt P other c = Inl e))"
proof -
  obtain c where "encrypt P iv key plaintext = Inr c" "decrypt P key c = Inr (text_decode (text_encode plaintext))"
    by (rule encrypt_Inr [OF assms(1,3)])
  with decrypt_wrong_key [OF assms(2,3)] text_decode_encode [OF assms(4,5)] show ?thesis by auto
qed

theorem encrypt_decrypt_roundtrip_witness:
  "\<exists>c. encrypt demo_crypto (replicate 12 0) 7 ''hi'' = Inr c \<and> decrypt demo_crypto 7 c = Inr ''hi''
    \<and> (\<exists>e. decrypt demo_crypto 8 c = Inl e)"
  using encrypt_decrypt_roundtrip [OF demo_crypto_ok(1,2), of "replicate 12 0" "''hi''" 7]
    ascii_start_no_bom [of "CHR ''h''" "''i''"]
  by (fastforce simp: IV_LENGTH_def intro: utf8_ascii)

text \<open>A text that starts with U+FEFF loses it: \<open>TextDecoder\<close> drops a byte order mark.\<close>

theorem decrypt_drops_byte_order_mark:
  "bind (encrypt demo_crypto (replicate 12 0) 7 (map char_of_byte bom @ ''hi'')) (decrypt demo_crypto 7) = Inr ''hi''"
  by code_simp

text \<open>
  A media envelope comes back whole: \<open>decryptMediaEnvelope\<close> returns the chunk's
  bytes and the metadata that \<open>encryptMediaEnvelope\<close> was given, for any bytes and any
  metadata of distinct, well-formed fields other than \<open>data\<close>.
\<close>

theorem media_envelope_roundtrip:
  assumes "aes_gcm_correct P" and "length iv = IV_LENGTH"
    and "json_ok (JObj metadata)" and "json_utf8 (JObj metadata)" and "map_get metadata ''data'' = None"
  shows "bind (encryptMediaEnvelope P iv key chunkData metadata) (decryptMediaEnvelope P key) = Inr (chunkData, metadata)"
proof -
  obtain c where "encryptMediaEnvelope P iv key chunkData metadata = Inr c" "decryptMediaEnvelope P key c = Inr (chunkData, metadata)"
    by (rule media_envelope_open [OF assms])
  then show ?thesis by simp
qed

theorem media_envelope_roundtrip_witness:
  "bind (encryptMediaEnvelope demo_crypto (replicate 12 0) 7 [1, 2, 255] [(''mimeType'', JStr ''image/png''), (''fileSize'', JNum 3)])
     (decryptMediaEnvelope demo_crypto 7) = Inr ([1, 2, 255], [(''mimeType'', JStr ''image/png''), (''fileSize'', JNum 3)])"
  by (rule media_envelope_roundtrip [OF demo_crypto_ok(1)])
    (auto simp: IV_LENGTH_def map_get_def intro!: utf8_ascii)

text \<open>
  C31: A room key is derived only from a non-empty passphrase and a 32-byte salt.
  PBKDF2 then runs 600000 iterations over the room name and passphrase with the
  64-byte salt made of the random salt and the room's hash; and these inputs
  determine the room, the passphrase and the salt, so no two different joins share
  their inputs (SHA-256 giving 32 bytes, distinct for the two rooms).
\<close>

theorem deriveRoomKey_binds_room_and_passphrase:
  assumes "\<forall>m. length (sha256_digest P m) = 32"
    and "sha256_digest P (text_encode (KDF_CONTEXT @ '':'' @ room)) =
         sha256_digest P (text_encode (KDF_CONTEXT @ '':'' @ room')) \<longrightarrow> room = room'"
  shows "(deriveRoomKey P room pass salt =
      (if pass = [] then Inl (ErrorMsg (''deriveRoomKey requires a passphrase '' @ em_dash @ '' room name alone is not secret''))
       else case salt of
         Some s \<Rightarrow> if length s = 32
           then pbkdf2_derive P (text_encode (room @ '':'' @ pass))
                  (s @ sha256_digest P (text_encode (KDF_CONTEXT @ '':'' @ room))) 600000 256
           else Inl (ErrorMsg ''deriveRoomKey requires a 32-byte Uint8Array salt'')
       | None \<Rightarrow> Inl (ErrorMsg ''deriveRoomKey requires a 32-byte Uint8Array salt'')))
    \<and> (length s = 32 \<and> length s' = 32
       \<and> (text_encode (room @ '':'' @ pass), s @ sha256_digest P (text_encode (KDF_CONTEXT @ '':'' @ room))) =
          (text_encode (room' @ '':'' @ pass'), s' @ sha256_digest P (text_encode (KDF_CONTEXT @ '':'' @ room')))
       \<longrightarrow> room = room' \<and> pass = pass' \<and> s = s')"
proof -
  have "combined_salt P room s = Inr (s @ sha256_digest P (text_encode (KDF_CONTEXT @ '':'' @ room)))"
    if "length s = 32" for s
    using that assms(1) by (simp add: combined_salt_def typed_set_def new_Uint8Array_def)
  with assms(2) show ?thesis
    by (auto simp: deriveRoomKey_def PBKDF2_ITERATIONS_def KEY_LENGTH_def split: option.splits)
qed

theorem deriveRoomKey_binds_room_and_passphrase_witness:
  "deriveRoomKey demo_crypto ''ab'' ''pw'' (Some (replicate 32 1)) =
     pbkdf2_derive demo_crypto (text_encode ''ab:pw'')
       (replicate 32 1 @ sha256_digest demo_crypto (text_encode (KDF_CONTEXT @ '':ab''))) 600000 256"
proof -
  have "\<forall>m. length (sha256_digest demo_crypto m) = 32" by (auto simp: demo_crypto_def min_def)
  from deriveRoomKey_binds_room_and_passphrase [OF this, of "''ab''" "''ab''" "''pw''" "Some (replicate 32 1)"]
  show ?thesis by simp
qed

text \<open>
  A key that was exported is imported as the same key.
\<close>

theorem exported_key_imports:
  "raw_keys_correct P \<Longrightarrow> bind (exportKey P key) (importKey P) = Inr key"
  unfolding raw_keys_correct_def exportKey_def importKey_def by (metis base64_roundtrip bind_simps(2))

theorem exported_key_imports_witness: "bind (exportKey demo_crypto 9) (importKey demo_crypto) = Inr 9"
  by (rule exported_key_imports [OF demo_crypto_ok(3)])

text \<open>
  In every interleaving of starts, stops, accepted keys, timer ticks and
  rotations suspended at either of their awaits, the rotator holds at most one
  interval and one grace timer, exactly the ones in its fields: none leaks.
\<close>

theorem rotator_timers_never_leak:
  "live_graces (foldl (rotator_step P) (new_KeyRotator intv cb) es) =
      (case graceTimer (foldl (rotator_step P) (new_KeyRotator intv cb) es) of None \<Rightarrow> [] | Some t \<Rightarrow> [t])
   \<and> live_intervals (foldl (rotator_step P) (new_KeyRotator intv cb) es) =
      (case rtimer (foldl (rotator_step P) (new_KeyRotator intv cb) es) of None \<Rightarrow> [] | Some t \<Rightarrow> [t])"
proof -
  have "rotator_inv (foldl (rotator_step P) (new_KeyRotator intv cb) es)"
    by (rule rotator.inv_run) (simp add: rotator_inv_def new_KeyRotator_def)
  then show ?thesis by (simp add: rotator_inv_def)
qed

text \<open>
  The rotator opens exactly what was encrypted under its current key (when the
  call began) or its previous key (when the fallback runs); everything else, under
  any other key, is the error \<open>decryption failed\<close>.
\<close>

theorem rotator_opens_current_and_previous:
  assumes "aes_gcm_correct P" and "aes_gcm_authentic P" and "length iv = IV_LENGTH"
    and "utf8 m" and "take 3 (text_encode m) \<noteq> bom" and "encrypt P iv key m = Inr c"
  shows "rotator_decrypt P r r' c =
    (if currentKey r = Some key \<or> previousKey r' = Some key then Inr m else Inl (ErrorMsg ''decryption failed''))"
proof -
  have right: "decrypt P key c = Inr m"
    using encrypt_Inr [OF assms(1,3), of key m] assms(4-6) by (auto simp: text_decode_encode)
  obtain err where wrong: "\<And>k. k \<noteq> key \<Longrightarrow> decrypt P k c = Inl (err k)"
    using decrypt_wrong_key [OF assms(2,3,6)] by metis
  have key: "decrypt P k c = (if k = key then Inr m else Inl (err k))" for k
    using right wrong by simp
  show ?thesis
    by (cases "currentKey r"; cases "previousKey r'")
      (simp_all add: rotator_decrypt_def try_keys_def with_key_def key)
qed

theorem rotator_opens_current_and_previous_witness:
  "(let r = foldl (rotator_step demo_crypto) (new_KeyRotator 0 True) [RStart (Some 7), RAccept 8] in
     \<exists>c. encrypt demo_crypto (replicate 12 0) 7 ''hi'' = Inr c
       \<and> rotator_decrypt demo_crypto r r c = Inr ''hi''
       \<and> rotator_decrypt demo_crypto r (rotator_step demo_crypto r (RGrace 2)) c = Inl (ErrorMsg ''decryption failed''))"
proof -
  let ?r = "foldl (rotator_step demo_crypto) (new_KeyRotator 0 True) [RStart (Some 7), RAccept 8]"
  have iv: "length (replicate 12 0 :: byte list) = IV_LENGTH" by (simp add: IV_LENGTH_def)
  have hi: "utf8 ''hi''" "take 3 (text_encode ''hi'') \<noteq> bom"
    using ascii_start_no_bom [of "CHR ''h''" "''i''"] by (auto intro!: utf8_ascii)
  obtain c where c: "encrypt demo_crypto (replicate 12 0) 7 ''hi'' = Inr c"
    by (rule encrypt_Inr [OF demo_crypto_ok(1) iv])
  have keys: "currentKey ?r = Some 8" "previousKey ?r = Some 7" "previousKey (rotator_step demo_crypto ?r (RGrace 2)) = None"
    by code_simp+
  note opens = rotator_opens_current_and_previous [OF demo_crypto_ok(1,2) iv hi c]
  from c opens [of ?r ?r] opens [of ?r "rotator_step demo_crypto ?r (RGrace 2)"] show ?thesis
    unfolding keys Let_def by (intro exI [of _ c]) simp
qed

text \<open>
  C32: After \<open>start\<close>, while the rotator is neither stopped nor restarted and no key
  generation fails, the previous key never outlives its grace period unattended:
  whenever it is set, a live grace timer or a rotation in progress will clear it.
\<close>

theorem previous_key_erasure_is_scheduled:
  assumes "raw_keys_correct P" and "list_all undisturbed es"
  shows "erasure_scheduled (foldl (rotator_step P) (rotator_start key (new_KeyRotator intv cb)) es)"
  using assms(2) by (rule erasure_run [OF assms(1)])
    (simp_all add: erasure_scheduled_def exports_ok_def rotator_inv_def rotator_defs new_KeyRotator_def)

theorem previous_key_erasure_is_scheduled_witness:
  "erasure_scheduled (foldl (rotator_step demo_crypto) (rotator_start (Some 1) (new_KeyRotator 0 True))
     [RInterval 1, RGenerated 0 (Inr 2), RAccept 3, RExported 0])"
  by (rule previous_key_erasure_is_scheduled [OF demo_crypto_ok(3)]) simp

text \<open>
  Stopping (and so restarting) clears the grace timer but not the previous key: with
  no timer left, the rotator keeps accepting ciphertexts under it.
\<close>

theorem restart_keeps_previous_key:
  "(let r = foldl (rotator_step P) (new_KeyRotator 0 True) [RStart (Some k1), RAccept k2, RStop, RStart (Some k3)] in
     previousKey r = Some k1 \<and> live_graces r = [] \<and> \<not> erasure_scheduled r)"
  by (simp add: erasure_scheduled_def new_KeyRotator_def rotator_defs)

end
