(* ===== verification/MediaTypes.thy ===== *)
theory MediaTypes
  imports Crypto
begin

text \<open>
  File names and media types of \<^verbatim>\<open>apps/trapchat/src/lib/media.js\<close>: the sanitiser for
  untrusted file names, and the detection and validation of media types by the first
  bytes of the content.
\<close>

section \<open>File names\<close>

text \<open>\<open>replace(/\.\./g, '')\<close>: non-overlapping matches from the left.\<close>

fun strip_dotdot :: "string \<Rightarrow> string" where
  "strip_dotdot (c # d # r) =
     (if c = CHR ''.'' \<and> d = CHR ''.'' then strip_dotdot r else c # strip_dotdot (d # r))"
| "strip_dotdot s = s"

definition path_char :: "char \<Rightarrow> bool" where
  "path_char c = (c \<in> {CHR ''/'', CHR 0x5C, CHR '':'', CHR 0x00})"

definition sanitizeFileName :: "json option \<Rightarrow> string" where
  "sanitizeFileName name =
     (if \<not> truthy name \<or> \<not> is_string name then ''file''
      else case name of
        Some (JStr s) \<Rightarrow>
          (let t = js_slice (map (\<lambda>c. if path_char c then CHR ''_'' else c) (strip_dotdot s)) 0 255
           in if t = [] then ''file'' else t)
      | _ \<Rightarrow> ''file'')"

section \<open>Media types\<close>

definition MAGIC_BYTES :: "(string \<times> byte list option) list" where
  "MAGIC_BYTES =
     [(''image/png'', Some [0x89, 0x50, 0x4E, 0x47]),
      (''image/jpeg'', Some [0xFF, 0xD8, 0xFF]),
      (''image/gif'', Some [0x47, 0x49, 0x46]),
      (''image/webp'', Some [0x52, 0x49, 0x46, 0x46]),
      (''video/mp4'', None),
      (''application/pdf'', Some [0x25, 0x50, 0x44, 0x46])]"

text \<open>\<open>sig.every((b, i) => bytes[i] === b)\<close>; a read past the end is \<open>undefined\<close>.\<close>

definition has_signature :: "byte list \<Rightarrow> byte list \<Rightarrow> bool" where
  "has_signature bytes sg = (\<forall>i\<in>set [0..<length sg]. i < length bytes \<and> bytes ! i = sg ! i)"

fun magic_scan :: "(string \<times> byte list option) list \<Rightarrow> byte list \<Rightarrow> string option" where
  "magic_scan [] bytes = None"
| "magic_scan ((mime, None) # ms) bytes = magic_scan ms bytes"
| "magic_scan ((mime, Some sg) # ms) bytes = (if has_signature bytes sg then Some mime else magic_scan ms bytes)"

definition has_ftyp :: "byte list \<Rightarrow> bool" where
  "has_ftyp bytes =
     (8 \<le> length bytes \<and> bytes ! 4 = 0x66 \<and> bytes ! 5 = 0x74 \<and> bytes ! 6 = 0x79 \<and> bytes ! 7 = 0x70)"

definition detectMimeType :: "string \<Rightarrow> byte list \<Rightarrow> string" where
  "detectMimeType file_type bytes =
     (if file_type \<noteq> [] then file_type
      else case magic_scan MAGIC_BYTES bytes of
        Some mime \<Rightarrow> mime
      | None \<Rightarrow> if has_ftyp bytes then ''video/mp4'' else ''application/octet-stream'')"

definition SAFE_NO_MAGIC :: "string list" where
  "SAFE_NO_MAGIC =
     [''text/'', ''application/json'', ''application/xml'', ''image/svg+xml'', ''application/javascript'',
      ''application/x-yaml'', ''application/toml'']"

text \<open>The claimed type comes from a peer: \<open>startsWith\<close> throws when it is no string.\<close>

definition validateMimeType :: "json option \<Rightarrow> byte list \<Rightarrow> js_error + string" where
  "validateMimeType claimed bytes =
     (if \<not> truthy claimed \<or> length bytes < 8 then Inr ''application/octet-stream''
      else case magic_scan MAGIC_BYTES bytes of
        Some mime \<Rightarrow> Inr mime
      | None \<Rightarrow>
          if has_ftyp bytes then Inr ''video/mp4''
          else case claimed of
            Some (JStr c) \<Rightarrow>
              if list_ex (js_startsWith c) SAFE_NO_MAGIC then Inr c else Inr ''application/octet-stream''
          | _ \<Rightarrow> Inl TypeError)"

section \<open>Lemmas\<close>

definition has_dotdot :: "string \<Rightarrow> bool" where
  "has_dotdot s = (\<exists>pre post. s = pre @ ''..'' @ post)"

lemma has_dotdot_Cons: "has_dotdot (c # s) \<longleftrightarrow> (c = CHR ''.'' \<and> (\<exists>r. s = CHR ''.'' # r)) \<or> has_dotdot s"
  by (auto simp: has_dotdot_def Cons_eq_append_conv)

lemma has_dotdot_Nil [simp]: "\<not> has_dotdot []"
  by (simp add: has_dotdot_def)

lemma strip_dotdot_other: "c \<noteq> CHR ''.'' \<Longrightarrow> strip_dotdot (c # s) = c # strip_dotdot s"
  by (cases s) auto

text \<open>A run of dots leaves at most one, and what ends the run stays between it and the next.\<close>

lemma strip_dotdot_none: "\<not> has_dotdot (strip_dotdot s)"
  by (induction s rule: strip_dotdot.induct) (auto simp: has_dotdot_Cons strip_dotdot_other)

lemma has_dotdot_map:
  "has_dotdot (map (\<lambda>c. if path_char c then CHR ''_'' else c) s) \<Longrightarrow> has_dotdot s"
proof -
  have dot: "(if path_char c then CHR ''_'' else c) = CHR ''.'' \<longleftrightarrow> c = CHR ''.''" for c
    by (auto simp: path_char_def)
  assume "has_dotdot (map (\<lambda>c. if path_char c then CHR ''_'' else c) s)"
  then show "has_dotdot s"
    by (induction s) (auto simp: has_dotdot_Cons dot map_eq_Cons_conv Cons_eq_map_conv)
qed

lemma has_dotdot_take: "has_dotdot (take n s) \<Longrightarrow> has_dotdot s"
proof -
  assume "has_dotdot (take n s)"
  then obtain pre post where "take n s = pre @ ''..'' @ post" by (auto simp: has_dotdot_def)
  then have "s = pre @ ''..'' @ post @ drop n s" using append_take_drop_id [of n s] by simp
  then show "has_dotdot s" unfolding has_dotdot_def by blast
qed

lemma has_signature_take: "has_signature bytes sg \<longleftrightarrow> take (length sg) bytes = sg"
proof
  assume sig: "has_signature bytes sg"
  then have "length sg \<le> length bytes"
    by (cases sg rule: rev_cases) (auto simp: has_signature_def Suc_le_eq)
  with sig show "take (length sg) bytes = sg"
    by (intro nth_equalityI) (simp_all add: has_signature_def)
next
  assume eq: "take (length sg) bytes = sg"
  then have "length sg \<le> length bytes" by (metis length_take min.cobounded1)
  moreover have "bytes ! i = sg ! i" if "i < length sg" for i
    using that arg_cong [OF eq, of "\<lambda>xs. xs ! i"] by simp
  ultimately show "has_signature bytes sg" by (simp add: has_signature_def)
qed

lemma magic_scan_Some: "magic_scan ms bytes = Some mime \<Longrightarrow>
    \<exists>sg. (mime, Some sg) \<in> set ms \<and> take (length sg) bytes = sg"
  by (induction ms bytes rule: magic_scan.induct) (auto simp: has_signature_take split: if_splits)

lemma magic_scan_None: "magic_scan ms bytes = None \<Longrightarrow> (mime, Some sg) \<in> set ms \<Longrightarrow> take (length sg) bytes \<noteq> sg"
  by (induction ms bytes rule: magic_scan.induct) (auto simp: has_signature_take split: if_splits)

section \<open>Properties\<close>

text \<open>
  A sanitised file name is never empty, has at most 255 characters, holds no
  path separator, colon or null character, and holds no two dots in a row, whatever
  the peer sent.
\<close>

theorem sanitized_name_is_safe:
  "sanitizeFileName name \<noteq> [] \<and> length (sanitizeFileName name) \<le> 255
   \<and> \<not> list_ex path_char (sanitizeFileName name) \<and> \<not> has_dotdot (sanitizeFileName name)"
proof -
  have plain: "\<not> list_ex path_char ''file'' \<and> \<not> has_dotdot ''file''"
    by (simp add: path_char_def has_dotdot_Cons)
  have "\<not> has_dotdot (take n (map (\<lambda>c. if path_char c then CHR ''_'' else c) (strip_dotdot s)))" for n s
    using has_dotdot_take has_dotdot_map strip_dotdot_none by blast
  moreover have "\<not> list_ex path_char (take n (map (\<lambda>c. if path_char c then CHR ''_'' else c) s))" for n s
  proof -
    have "\<not> path_char (CHR ''_'')" by (simp add: path_char_def)
    then show ?thesis by (auto simp: list_ex_iff dest!: in_set_takeD)
  qed
  ultimately show ?thesis
    using plain by (auto simp: sanitizeFileName_def js_slice_def Let_def split: option.splits json.splits)
qed

text \<open>
  The validated type is backed by the content: a type with a known signature is
  returned exactly when the content starts with that signature; mp4 only with its
  marker; and a claimed type is taken over only when it is one of the text-like types
  and no signature matches. Anything else is \<open>application/octet-stream\<close>.
\<close>

theorem validated_type_is_backed_by_content:
  assumes "validateMimeType claimed bytes = Inr mime"
  shows "mime = ''application/octet-stream''
    \<or> (\<exists>sg. (mime, Some sg) \<in> set MAGIC_BYTES \<and> take (length sg) bytes = sg)
    \<or> (mime = ''video/mp4'' \<and> has_ftyp bytes)
    \<or> (claimed = Some (JStr mime) \<and> list_ex (js_startsWith mime) SAFE_NO_MAGIC
       \<and> (\<forall>(m, sg)\<in>set MAGIC_BYTES. case sg of None \<Rightarrow> True | Some g \<Rightarrow> take (length g) bytes \<noteq> g))"
  using assms magic_scan_Some [of MAGIC_BYTES bytes] magic_scan_None [of MAGIC_BYTES bytes]
  by (fastforce simp: validateMimeType_def split: if_splits option.splits json.splits)

theorem validated_type_is_backed_by_content_witness:
  "list_ex (js_startsWith ''text/html'') SAFE_NO_MAGIC
   \<and> validateMimeType (Some (JStr ''text/html'')) (text_encode ''<html></html>'') = Inr ''text/html''"
proof -
  have v: "validateMimeType (Some (JStr ''text/html'')) (text_encode ''<html></html>'') = Inr ''text/html''"
    by code_simp
  have "\<not> has_ftyp (text_encode ''<html></html>'')" by code_simp
  with validated_type_is_backed_by_content [OF v] v show ?thesis
    by (auto simp: MAGIC_BYTES_def)
qed

end
