(* ===== verification/Media.thy ===== *)
theory Media
  imports MediaTypes
begin

text \<open>
  Sending and assembling media (\<^verbatim>\<open>apps/trapchat/src/lib/media.js\<close>). The sender cuts a
  file into chunks, encrypts each with its metadata and hands it to the client. The
  assembler is asynchronous: \<open>handleChunk\<close> is suspended while a chunk is decrypted,
  twice, and other calls and timers run in between. It keeps references to transfer
  objects across the suspension, so transfers live in a heap and the map holds
  references, as in the source.
\<close>

definition CHUNK_SIZE :: nat where "CHUNK_SIZE = 512 * 1024"
definition MAX_FILE_SIZE :: nat where "MAX_FILE_SIZE = 25 * 1024 * 1024"
definition STALE_TIMEOUT :: int where "STALE_TIMEOUT = 30000"
definition MAX_CHUNKS :: int where "MAX_CHUNKS = 100"
definition MAX_CONCURRENT_TRANSFERS :: nat where "MAX_CONCURRENT_TRANSFERS = 10"

section \<open>Sending\<close>

record media_file =
  file_size :: nat
  file_type :: string
  file_name :: string
  file_bytes :: "byte list"

record media_sent =
  ms_transferId :: uuid
  ms_total :: nat
  ms_mimeType :: string
  ms_fileName :: string

definition chunk_payload :: "uuid \<Rightarrow> nat \<Rightarrow> nat \<Rightarrow> string \<Rightarrow> string" where
  "chunk_payload transferId sq tot chunk =
     json_stringify (JObj [(''transferId'', JStr transferId), (''seq'', JNum (int sq)), (''total'', JNum (int tot)),
       (''chunk'', JStr chunk)])"

definition chunk_metadata :: "nat \<Rightarrow> string \<Rightarrow> media_file \<Rightarrow> (string, json) jmap" where
  "chunk_metadata sq mimeType f =
     (if sq = 0 then [(''mimeType'', JStr mimeType), (''fileName'', JStr (file_name f)), (''fileSize'', JNum (int (file_size f)))]
      else [])"

text \<open>
  The send loop from chunk \<open>sq\<close> with \<open>n\<close> chunks to go: the payloads given to
  \<open>client.send\<close> and the progress calls, and whether an encryption threw. \<open>ivs\<close> are
  the initialisation vectors drawn for the chunks.
\<close>

fun send_loop :: "'k webcrypto \<Rightarrow> (nat \<Rightarrow> byte list) \<Rightarrow> 'k \<Rightarrow> uuid \<Rightarrow> string \<Rightarrow> media_file \<Rightarrow> nat \<Rightarrow> nat \<Rightarrow> nat
    \<Rightarrow> string list \<times> (nat \<times> nat) list \<times> js_error option" where
  "send_loop P ivs key transferId mimeType f tot sq 0 = ([], [], None)"
| "send_loop P ivs key transferId mimeType f tot sq (Suc n) =
     (let start = sq * CHUNK_SIZE;
          end' = min (start + CHUNK_SIZE) (length (file_bytes f));
          chunkData = js_slice (file_bytes f) start end'
      in case encryptMediaEnvelope P (ivs sq) key chunkData (chunk_metadata sq mimeType f) of
           Inl e \<Rightarrow> ([], [], Some e)
         | Inr encryptedChunk \<Rightarrow>
             (case send_loop P ivs key transferId mimeType f tot (Suc sq) n of
                (ps, pr, r) \<Rightarrow> (chunk_payload transferId sq tot encryptedChunk # ps, (Suc sq, tot) # pr, r)))"

text \<open>\<open>Math.ceil(bytes.length / CHUNK_SIZE)\<close>\<close>

definition chunk_count :: "nat \<Rightarrow> nat" where
  "chunk_count len = (len + CHUNK_SIZE - 1) div CHUNK_SIZE"

text \<open>The message of the size error, for a size rendered in megabytes by \<open>toFixed(1)\<close>.\<close>

definition sendMedia :: "'k webcrypto \<Rightarrow> (nat \<Rightarrow> byte list) \<Rightarrow> uuid \<Rightarrow> (nat \<Rightarrow> string) \<Rightarrow> 'k \<Rightarrow> media_file
    \<Rightarrow> string list \<times> (nat \<times> nat) list \<times> (js_error + media_sent)" where
  "sendMedia P ivs transferId toMB key f =
     (if MAX_FILE_SIZE < file_size f
      then ([], [], Inl (ErrorMsg (''File too large ('' @ toMB (file_size f) @ ''MB). Max is 25MB.'')))
      else let mimeType = detectMimeType (file_type f) (file_bytes f);
               tot = chunk_count (length (file_bytes f))
           in case send_loop P ivs key transferId mimeType f tot 0 tot of
                (ps, pr, Some e) \<Rightarrow> (ps, pr, Inl e)
              | (ps, pr, None) \<Rightarrow>
                  (ps, pr, Inr \<lparr>ms_transferId = transferId, ms_total = tot, ms_mimeType = mimeType,
                                ms_fileName = file_name f\<rparr>))"

text \<open>\<open>sendCanvas\<close>: \<open>toBlob\<close> gave the bytes of a PNG, or null.\<close>

definition sendCanvas :: "'k webcrypto \<Rightarrow> (nat \<Rightarrow> byte list) \<Rightarrow> uuid \<Rightarrow> (nat \<Rightarrow> string) \<Rightarrow> 'k \<Rightarrow> nat \<Rightarrow> byte list option
    \<Rightarrow> string list \<times> (nat \<times> nat) list \<times> (js_error + media_sent)" where
  "sendCanvas P ivs transferId toMB key now blob =
     (case blob of
        None \<Rightarrow> ([], [], Inl (ErrorMsg ''canvas toBlob failed''))
      | Some bs \<Rightarrow>
          sendMedia P ivs transferId toMB key
            \<lparr>file_size = length bs, file_type = ''image/png'', file_name = ''canvas-'' @ show_nat now @ ''.png'',
             file_bytes = bs\<rparr>)"

section \<open>The assembler\<close>

text \<open>
  A key of the transfer map: primitive values compare by value, objects by identity
  (every parsed message makes new ones).
\<close>

datatype tkey = PrimKey json | ObjKey nat

text \<open>
  A transfer. \<open>t_chunks\<close> are the properties of the chunk array that were assigned,
  by property name, and \<open>t_length\<close> the array's length; \<open>null\<close> fields are \<open>None\<close>.
\<close>

record transfer =
  t_chunks :: "(string, byte list) jmap"
  t_length :: nat
  t_received :: nat
  t_total :: json
  t_mimeType :: "json option"
  t_fileName :: "string option"
  t_fileSize :: "json option"

datatype outcome =
    OutNull
  | OutError json string
  | OutProgress json nat json
  | OutComplete json string "string option" "json option" "byte list"

record 'k chunk_call =
  cc_id :: json
  cc_tkey :: tkey
  cc_seq :: json
  cc_total :: json
  cc_chunk :: string
  cc_key :: 'k

datatype 'k call_phase =
    AwaitInner "'k chunk_call"
  | AwaitEnvelope "'k chunk_call" nat
  | Settled "js_error + outcome"

record 'k assembler =
  a_transfers :: "(tkey, nat) jmap"
  a_timers :: "(tkey, nat) jmap"
  a_heap :: "transfer list"
  a_live :: "(nat \<times> tkey) list"
  a_next :: nat
  a_onProgress :: bool
  a_progress :: "(json \<times> nat \<times> json) list"
  a_calls :: "'k call_phase list"

definition new_assembler :: "bool \<Rightarrow> 'k assembler" where
  "new_assembler cb =
     \<lparr>a_transfers = [], a_timers = [], a_heap = [], a_live = [], a_next = 0, a_onProgress = cb, a_progress = [],
      a_calls = []\<rparr>"

definition KEY_MISMATCH :: string where
  "KEY_MISMATCH = ''[encrypted media '' @ em_dash @ '' key mismatch]''"

text \<open>The fields of a parsed payload; destructuring \<open>null\<close> or \<open>undefined\<close> throws.\<close>

definition chunk_fields :: "json option \<Rightarrow> js_error + json option \<times> json option \<times> json option \<times> json option" where
  "chunk_fields meta =
     (case meta of
        None \<Rightarrow> Inl TypeError
      | Some JNull \<Rightarrow> Inl TypeError
      | Some v \<Rightarrow> Inr (js_get v ''transferId'', js_get v ''seq'', js_get v ''total'', js_get v ''chunk''))"

definition tkey_of :: "json \<Rightarrow> nat \<Rightarrow> tkey" where
  "tkey_of v ref = (case v of JArr _ \<Rightarrow> ObjKey ref | JObj _ \<Rightarrow> ObjKey ref | _ \<Rightarrow> PrimKey v)"

text \<open>The checks before the first \<open>await\<close>: the call to make, or what is returned or thrown.\<close>

definition chunk_checks :: "nat \<Rightarrow> json option \<Rightarrow> 'k \<Rightarrow> (js_error + outcome) + 'k chunk_call" where
  "chunk_checks ref payload key =
     (case read_payload payload of
        Inl _ \<Rightarrow> Inl (Inr OutNull)
      | Inr meta \<Rightarrow>
          (case chunk_fields meta of
             Inl e \<Rightarrow> Inl (Inl e)
           | Inr (tid, sq, tot, chunk) \<Rightarrow>
               (case (tid, sq, tot, chunk) of
                  (Some tid, Some sq, Some tot, Some chunk) \<Rightarrow>
                    if \<not> truthy (Some tid) \<or> \<not> truthy (Some tot) \<or> \<not> truthy (Some chunk) then Inl (Inr OutNull)
                    else if js_less (JNum MAX_CHUNKS) tot = Some True \<or> js_less (JNum 0) tot = Some False
                    then Inl (Inr OutNull)
                    else if js_less sq (JNum 0) = Some True \<or> js_less sq tot = Some False then Inl (Inr OutNull)
                    else Inr \<lparr>cc_id = tid, cc_tkey = tkey_of tid ref, cc_seq = sq, cc_total = tot,
                              cc_chunk = js_to_string chunk, cc_key = key\<rparr>
                | _ \<Rightarrow> Inl (Inr OutNull))))"

definition handleChunk_begin :: "json option \<Rightarrow> 'k \<Rightarrow> 'k assembler \<Rightarrow> 'k assembler" where
  "handleChunk_begin payload key a =
     (let ph = (case chunk_checks (length (a_calls a)) payload key of Inl r \<Rightarrow> Settled r | Inr c \<Rightarrow> AwaitInner c)
      in a\<lparr>a_calls := a_calls a @ [ph]\<rparr>)"

text \<open>
  \<open>new Array(total)\<close>: holes for an integer, otherwise one element holding the value; a number with a
  fraction throws.
\<close>

definition new_transfer :: "json \<Rightarrow> transfer" where
  "new_transfer tot =
     \<lparr>t_chunks = [], t_length = (case tot of JNum n \<Rightarrow> nat n | _ \<Rightarrow> 1), t_received = 0, t_total = tot,
      t_mimeType = None, t_fileName = None, t_fileSize = None\<rparr>"

definition is_fraction :: "json \<Rightarrow> bool" where
  "is_fraction v = (case v of JDec _ _ \<Rightarrow> True | _ \<Rightarrow> False)"

definition set_metadata :: "json option \<Rightarrow> json option \<Rightarrow> json option \<Rightarrow> transfer \<Rightarrow> transfer" where
  "set_metadata mime name sz t =
     t\<lparr>t_mimeType := mime, t_fileName := Some (sanitizeFileName name), t_fileSize := sz\<rparr>"

definition heap_update :: "nat \<Rightarrow> (transfer \<Rightarrow> transfer) \<Rightarrow> 'k assembler \<Rightarrow> 'k assembler" where
  "heap_update ref f a = a\<lparr>a_heap := (a_heap a)[ref := f (a_heap a ! ref)]\<rparr>"

text \<open>Make the transfer, or take over the metadata of a late first chunk.\<close>

definition register_transfer :: "'k chunk_call \<Rightarrow> json \<Rightarrow> 'k assembler \<Rightarrow> (js_error + outcome) + 'k assembler" where
  "register_transfer c inner a =
     (case map_get (a_transfers a) (cc_tkey c) of
        None \<Rightarrow>
          if MAX_CONCURRENT_TRANSFERS \<le> length (a_transfers a) then Inl (Inr OutNull)
          else if is_fraction (cc_total c) then Inl (Inl RangeError)
          else Inr (a\<lparr>a_transfers := map_set (cc_tkey c) (length (a_heap a)) (a_transfers a),
                      a_heap := a_heap a @ [new_transfer (cc_total c)]\<rparr>)
      | Some ref \<Rightarrow>
          if cc_seq c = JNum 0
          then (case js_read (Some inner) ''mimeType'' of
                  Inl e \<Rightarrow> Inl (Inl e)
                | Inr mime \<Rightarrow>
                    if truthy mime
                    then Inr (heap_update ref (set_metadata mime (js_get inner ''fileName'') (js_get inner ''fileSize'')) a)
                    else Inr a)
          else Inr a)"

text \<open>\<open>clearTimeout(this.#timers.get(transferId))\<close>: the timers left alive.\<close>

definition clear_stale :: "tkey \<Rightarrow> (tkey, nat) jmap \<Rightarrow> (nat \<times> tkey) list \<Rightarrow> (nat \<times> tkey) list" where
  "clear_stale k timers live =
     (case map_get timers k of None \<Rightarrow> live | Some t \<Rightarrow> filter (\<lambda>(x, _). x \<noteq> t) live)"

text \<open>Clear the transfer's stale timer if there is one, and set a new one.\<close>

definition reset_timer :: "tkey \<Rightarrow> 'k assembler \<Rightarrow> 'k assembler" where
  "reset_timer k a =
     (let live = clear_stale k (a_timers a) (a_live a)
      in a\<lparr>a_live := live @ [(a_next a, k)], a_timers := map_set k (a_next a) (a_timers a), a_next := Suc (a_next a)\<rparr>)"

text \<open>What every array has: \<open>length\<close> and the methods of \<open>Array.prototype\<close> and \<open>Object.prototype\<close>.\<close>

definition array_members :: "string list" where
  "array_members =
     [''length'', ''at'', ''concat'', ''copyWithin'', ''entries'', ''every'', ''fill'', ''filter'', ''find'', ''findIndex'',
      ''findLast'', ''findLastIndex'', ''flat'', ''flatMap'', ''forEach'', ''includes'', ''indexOf'', ''join'', ''keys'',
      ''lastIndexOf'', ''map'', ''pop'', ''push'', ''reduce'', ''reduceRight'', ''reverse'', ''shift'', ''slice'', ''some'',
      ''sort'', ''splice'', ''toLocaleString'', ''toReversed'', ''toSorted'', ''toSpliced'', ''toString'', ''unshift'',
      ''values'', ''with'', ''constructor'', ''hasOwnProperty'', ''isPrototypeOf'', ''propertyIsEnumerable'', ''valueOf'',
      ''__defineGetter__'', ''__defineSetter__'', ''__lookupGetter__'', ''__lookupSetter__'', ''__proto__'']"

text \<open>
  A slot is taken when a chunk was stored there, when it holds a total that is no number, or when
  its name is that of a member of arrays.
\<close>

definition slot_taken :: "transfer \<Rightarrow> json \<Rightarrow> bool" where
  "slot_taken t sq =
     (map_has (t_chunks t) (js_to_string sq) \<or> js_to_string sq \<in> set array_members
      \<or> ((case t_total t of JNum _ \<Rightarrow> False | _ \<Rightarrow> True) \<and> js_to_string sq = ''0''))"

text \<open>From the first \<open>await\<close> to the second.\<close>

definition handleChunk_inner :: "'k webcrypto \<Rightarrow> nat \<Rightarrow> 'k chunk_call \<Rightarrow> 'k assembler \<Rightarrow> 'k assembler" where
  "handleChunk_inner P i c a =
     (let settle = (\<lambda>r a. a\<lparr>a_calls := (a_calls a)[i := Settled r]\<rparr>) in
      case (case decrypt P (cc_key c) (cc_chunk c) of Inl e \<Rightarrow> None | Inr js \<Rightarrow> json_parse js) of
        None \<Rightarrow> settle (Inr (OutError (cc_id c) KEY_MISMATCH)) a
      | Some inner \<Rightarrow>
          (case register_transfer c inner a of
             Inl r \<Rightarrow> settle r a
           | Inr a1 \<Rightarrow>
               let a2 = reset_timer (cc_tkey c) a1;
                   ref = the (map_get (a_transfers a2) (cc_tkey c))
               in if slot_taken (a_heap a2 ! ref) (cc_seq c) then settle (Inr OutNull) a2
                  else a2\<lparr>a_calls := (a_calls a2)[i := AwaitEnvelope c ref]\<rparr>))"

text \<open>A property that is an array index moves the length of the array.\<close>

definition index_of :: "string \<Rightarrow> nat option" where
  "index_of p = (if all_digits p \<and> show_nat (read_nat p) = p then Some (read_nat p) else None)"

definition store_chunk :: "json \<Rightarrow> byte list \<Rightarrow> (string, json) jmap \<Rightarrow> transfer \<Rightarrow> transfer" where
  "store_chunk sq bytes chunkMeta t =
     (let t1 = (if t_mimeType t = None \<and> truthy (map_get chunkMeta ''mimeType'')
                then set_metadata (map_get chunkMeta ''mimeType'') (map_get chunkMeta ''fileName'')
                       (map_get chunkMeta ''fileSize'') t
                else t);
          p = js_to_string sq
      in t1\<lparr>t_chunks := map_set p bytes (t_chunks t1),
            t_length := (case index_of p of None \<Rightarrow> t_length t1 | Some n \<Rightarrow> max (t_length t1) (Suc n)),
            t_received := Suc (t_received t1)\<rparr>)"

text \<open>The chunk array read by index; a hole is \<open>None\<close>.\<close>

definition chunk_array :: "transfer \<Rightarrow> byte list option list" where
  "chunk_array t = map (\<lambda>i. map_get (t_chunks t) (show_nat i)) [0..<t_length t]"

text \<open>\<open>reduce\<close> skips holes; the loop over the chunks reads \<open>undefined\<close> there and throws.\<close>

definition total_size :: "transfer \<Rightarrow> nat" where
  "total_size t = sum_list (map (\<lambda>c. case c of None \<Rightarrow> 0 | Some bs \<Rightarrow> length bs) (chunk_array t))"

fun assemble_loop :: "byte list option list \<Rightarrow> nat \<Rightarrow> byte list \<Rightarrow> js_error + byte list" where
  "assemble_loop [] off assembled = Inr assembled"
| "assemble_loop (None # cs) off assembled = Inl TypeError"
| "assemble_loop (Some c # cs) off assembled =
     bind (typed_set assembled c off) (\<lambda>assembled'. assemble_loop cs (off + length c) assembled')"

definition drop_transfer :: "tkey \<Rightarrow> 'k assembler \<Rightarrow> 'k assembler" where
  "drop_transfer k a =
     (let live = clear_stale k (a_timers a) (a_live a)
      in a\<lparr>a_live := live, a_timers := map_delete k (a_timers a), a_transfers := map_delete k (a_transfers a)\<rparr>)"

definition SIZE_REJECTED :: string where
  "SIZE_REJECTED = ''[media rejected '' @ em_dash @ '' exceeds 25MB limit]''"

text \<open>What a call does once its transfer has all its chunks.\<close>

definition complete_transfer :: "'k chunk_call \<Rightarrow> transfer \<Rightarrow> 'k assembler \<Rightarrow> (js_error + outcome) \<times> 'k assembler" where
  "complete_transfer c t a =
     (let totalSize = total_size t in
      if MAX_FILE_SIZE < totalSize
      then (Inr (OutError (cc_id c) SIZE_REJECTED), drop_transfer (cc_tkey c) a)
      else case assemble_loop (chunk_array t) 0 (new_Uint8Array totalSize) of
             Inl e \<Rightarrow> (Inl e, a)
           | Inr assembled \<Rightarrow>
               (bind (validateMimeType (t_mimeType t) assembled) (\<lambda>mime.
                  Inr (OutComplete (cc_id c) mime (t_fileName t) (t_fileSize t) assembled)),
                drop_transfer (cc_tkey c) a))"

text \<open>After the second \<open>await\<close>.\<close>

definition handleChunk_envelope :: "'k webcrypto \<Rightarrow> nat \<Rightarrow> 'k chunk_call \<Rightarrow> nat \<Rightarrow> 'k assembler \<Rightarrow> 'k assembler" where
  "handleChunk_envelope P i c ref a =
     (let settle = (\<lambda>r a. a\<lparr>a_calls := (a_calls a)[i := Settled r]\<rparr>) in
      case decryptMediaEnvelope P (cc_key c) (cc_chunk c) of
        Inl e \<Rightarrow> settle (Inr (OutError (cc_id c) KEY_MISMATCH)) a
      | Inr (decrypted, chunkMeta) \<Rightarrow>
          let a1 = heap_update ref (store_chunk (cc_seq c) decrypted chunkMeta) a;
              t = a_heap a1 ! ref;
              a2 = (if a_onProgress a1 then a1\<lparr>a_progress := a_progress a1 @ [(cc_id c, t_received t, t_total t)]\<rparr> else a1)
          in if t_total t = JNum (int (t_received t))
             then (case complete_transfer c t a2 of (r, a3) \<Rightarrow> settle r a3)
             else settle (Inr (OutProgress (cc_id c) (t_received t) (t_total t))) a2)"

definition timer_expires :: "nat \<Rightarrow> 'k assembler \<Rightarrow> 'k assembler" where
  "timer_expires t a =
     (case map_get (a_live a) t of
        None \<Rightarrow> a
      | Some k \<Rightarrow> a\<lparr>a_live := filter (\<lambda>(x, _). x \<noteq> t) (a_live a), a_transfers := map_delete k (a_transfers a),
                    a_timers := map_delete k (a_timers a)\<rparr>)"

definition destroy :: "'k assembler \<Rightarrow> 'k assembler" where
  "destroy a =
     a\<lparr>a_live := filter (\<lambda>(x, _). x \<notin> snd ` set (a_timers a)) (a_live a), a_timers := [], a_transfers := []\<rparr>"

datatype 'k media_event =
    AChunk "json option" 'k
  | AResume nat
  | ATimer nat
  | ADestroy

fun media_step :: "'k webcrypto \<Rightarrow> 'k assembler \<Rightarrow> 'k media_event \<Rightarrow> 'k assembler" where
  "media_step P a (AChunk payload key) = handleChunk_begin payload key a"
| "media_step P a (AResume i) =
     (if i < length (a_calls a) then
        (case a_calls a ! i of
           AwaitInner c \<Rightarrow> handleChunk_inner P i c a
         | AwaitEnvelope c ref \<Rightarrow> handleChunk_envelope P i c ref a
         | Settled r \<Rightarrow> a)
      else a)"
| "media_step P a (ATimer t) = timer_expires t a"
| "media_step P a ADestroy = destroy a"

section \<open>Invariant\<close>

text \<open>
  The timers alive are exactly the ones in the timer map, each for its own transfer;
  the transfers are those with a timer; and every reference is valid.
\<close>

definition timers_ok :: "(tkey, nat) jmap \<Rightarrow> (nat \<times> tkey) list \<Rightarrow> nat \<Rightarrow> bool" where
  "timers_ok timers live nxt \<longleftrightarrow>
     map_ok timers \<and> distinct (map fst live) \<and> set live = {(t, k). map_get timers k = Some t}
     \<and> (\<forall>(t, k)\<in>set live. t < nxt)"

definition refs_ok :: "'k assembler \<Rightarrow> bool" where
  "refs_ok a \<longleftrightarrow>
     (\<forall>k ref. map_get (a_transfers a) k = Some ref \<longrightarrow> ref < length (a_heap a))
     \<and> (\<forall>c ref. AwaitEnvelope c ref \<in> set (a_calls a) \<longrightarrow> ref < length (a_heap a))"

definition assembler_inv :: "'k assembler \<Rightarrow> bool" where
  "assembler_inv a \<longleftrightarrow>
     map_ok (a_transfers a) \<and> length (a_transfers a) \<le> MAX_CONCURRENT_TRANSFERS
     \<and> set (map_keys (a_transfers a)) = set (map_keys (a_timers a))
     \<and> timers_ok (a_timers a) (a_live a) (a_next a) \<and> refs_ok a"

lemma timers_ok_drop:
  assumes "timers_ok timers live nxt"
  shows "timers_ok (map_delete k timers)
    (clear_stale k timers live) nxt"
proof (cases "map_get timers k")
  case None
  then have "map_get (map_delete k timers) = map_get timers" by auto
  with None assms show ?thesis by (auto simp: timers_ok_def clear_stale_def)
next
  case (Some t)
  have uniq: "x = k" if "map_get timers x = Some t" for x
  proof -
    have "(t, x) \<in> set live" "(t, k) \<in> set live" using that Some assms by (auto simp: timers_ok_def)
    moreover have "distinct (map fst live)" using assms by (simp add: timers_ok_def)
    ultimately show ?thesis by (blast intro: eq_key_imp_eq_value)
  qed
  have live: "set live = {(t, k). map_get timers k = Some t}" using assms by (simp add: timers_ok_def)
  have keep: "set (filter (\<lambda>(x, _). x \<noteq> t) live) = {(u, x). map_get (map_delete k timers) x = Some u}"
    unfolding set_filter live using Some by (auto dest: uniq)
  have ok: "map_ok timers" "distinct (map fst live)" "\<forall>(u, x)\<in>set live. u < nxt"
    using assms unfolding timers_ok_def by blast+
  have "\<forall>(u, x)\<in>set (filter (\<lambda>(x, _). x \<noteq> t) live). u < nxt" using ok(3) by auto
  with ok(1,2) keep Some show ?thesis
    by (simp add: timers_ok_def clear_stale_def distinct_map_filter del: set_filter)
qed

lemma timers_ok_add:
  assumes "timers_ok timers live nxt" "map_get timers k = None"
  shows "timers_ok (map_set k nxt timers) (live @ [(nxt, k)]) (Suc nxt)"
  using assms unfolding timers_ok_def by (auto split: if_splits) force+

lemma timers_ok_cong: "map_ok m \<Longrightarrow> map_get m = map_get m' \<Longrightarrow> timers_ok m' live nxt \<Longrightarrow> timers_ok m live nxt"
  by (simp add: timers_ok_def)

lemma timers_ok_reset:
  assumes "timers_ok timers live nxt"
  shows "timers_ok (map_set k nxt timers)
    (clear_stale k timers live @ [(nxt, k)]) (Suc nxt)"
proof (rule timers_ok_cong [OF _ _ timers_ok_add [OF timers_ok_drop [OF assms]]])
  show "map_ok (map_set k nxt timers)" using assms by (simp add: timers_ok_def)
qed (auto simp: fun_eq_iff)

text \<open>The pieces of the steps keep the invariant.\<close>

lemma inv_call:
  assumes "assembler_inv a" "\<And>c ref. ph = AwaitEnvelope c ref \<Longrightarrow> ref < length (a_heap a)"
  shows "assembler_inv (a\<lparr>a_calls := (a_calls a)[i := ph]\<rparr>)" and "assembler_inv (a\<lparr>a_calls := a_calls a @ [ph]\<rparr>)"
  using assms by (auto simp: assembler_inv_def refs_ok_def dest!: set_update_subset_insert [THEN subsetD])

lemma inv_settle: "assembler_inv a \<Longrightarrow> assembler_inv (a\<lparr>a_calls := (a_calls a)[i := Settled r]\<rparr>)"
  by (rule inv_call(1)) simp_all

lemma inv_heap [simp]: "assembler_inv (heap_update ref f a) = assembler_inv a"
  by (simp add: assembler_inv_def refs_ok_def heap_update_def)

lemma inv_progress [simp]: "assembler_inv (a\<lparr>a_progress := p\<rparr>) = assembler_inv a"
  by (simp add: assembler_inv_def refs_ok_def)

lemma inv_drop: "assembler_inv a \<Longrightarrow> assembler_inv (drop_transfer k a)"
  using length_map_delete_le [of k "a_transfers a"]
  by (auto simp: assembler_inv_def drop_transfer_def Let_def refs_ok_def map_keys_delete
      intro!: timers_ok_drop)

text \<open>Registering and setting the timer belong together: in between, a transfer has no timer.\<close>

lemma map_keys_set_insert: "set (map_keys (map_set k v m)) = insert k (set (map_keys m))"
  by (auto simp: map_keys_set)

lemma inv_register:
  assumes "assembler_inv a" "register_transfer c inner a = Inr a1"
  shows "assembler_inv (reset_timer (cc_tkey c) a1)"
    and "\<exists>ref. map_get (a_transfers a1) (cc_tkey c) = Some ref \<and> ref < length (a_heap a1)"
proof -
  have t: "timers_ok (map_set k (a_next a) (a_timers a))
      (clear_stale k (a_timers a) (a_live a) @ [(a_next a, k)]) (Suc (a_next a))" for k
    using assms(1) by (intro timers_ok_reset) (simp add: assembler_inv_def)
  consider (new) "map_get (a_transfers a) (cc_tkey c) = None" "length (a_transfers a) < MAX_CONCURRENT_TRANSFERS"
      "a1 = a\<lparr>a_transfers := map_set (cc_tkey c) (length (a_heap a)) (a_transfers a),
             a_heap := a_heap a @ [new_transfer (cc_total c)]\<rparr>"
    | (old) ref f where "map_get (a_transfers a) (cc_tkey c) = Some ref" "a1 = heap_update ref f a \<or> a1 = a"
    using assms(2) by (auto simp: register_transfer_def split: option.splits if_splits sum.splits)
  then have "assembler_inv (reset_timer (cc_tkey c) a1)
      \<and> (\<exists>ref. map_get (a_transfers a1) (cc_tkey c) = Some ref \<and> ref < length (a_heap a1))"
  proof cases
    case new
    then show ?thesis
      using assms(1) t [of "cc_tkey c"]
      by (auto simp: assembler_inv_def refs_ok_def reset_timer_def Let_def map_keys_set_insert length_map_set
          map_has_get less_Suc_eq)
  next
    case (old ref f)
    then have "cc_tkey c \<in> set (map_keys (a_transfers a))"
      using map_has_get [of "a_transfers a" "cc_tkey c"] by (simp add: map_has_def)
    with old show ?thesis
      using assms(1) t [of "cc_tkey c"]
      by (auto simp: assembler_inv_def refs_ok_def reset_timer_def Let_def map_keys_set_insert heap_update_def)
  qed
  then show "assembler_inv (reset_timer (cc_tkey c) a1)"
    and "\<exists>ref. map_get (a_transfers a1) (cc_tkey c) = Some ref \<and> ref < length (a_heap a1)" by auto
qed

lemma reset_timer_frame [simp]:
  "a_transfers (reset_timer k a) = a_transfers a" "a_heap (reset_timer k a) = a_heap a"
  "a_calls (reset_timer k a) = a_calls a"
  by (simp_all add: reset_timer_def Let_def)

lemma inv_inner:
  assumes "assembler_inv a"
  shows "assembler_inv (handleChunk_inner P i c a)"
proof (cases "(case decrypt P (cc_key c) (cc_chunk c) of Inl e \<Rightarrow> None | Inr js \<Rightarrow> json_parse js)")
  case None
  then show ?thesis using assms by (simp add: handleChunk_inner_def inv_settle)
next
  case (Some inner)
  show ?thesis
  proof (cases "register_transfer c inner a")
    case (Inl r)
    with Some assms show ?thesis by (simp add: handleChunk_inner_def inv_settle)
  next
    case (Inr a1)
    with inv_register [OF assms Inr] Some show ?thesis
      by (auto simp: handleChunk_inner_def Let_def simp del: reset_timer_frame(3) intro!: inv_call(1))
  qed
qed

lemma complete_transfer_state:
  "snd (complete_transfer c t a) = a \<or> snd (complete_transfer c t a) = drop_transfer (cc_tkey c) a"
  by (auto simp: complete_transfer_def Let_def split: sum.splits)

lemma inv_envelope:
  assumes "assembler_inv a"
  shows "assembler_inv (handleChunk_envelope P i c ref a)"
proof (cases "decryptMediaEnvelope P (cc_key c) (cc_chunk c)")
  case (Inl e)
  with assms show ?thesis by (simp add: handleChunk_envelope_def inv_settle)
next
  case (Inr v)
  obtain bytes meta where v: "v = (bytes, meta)" by (cases v)
  define a1 where "a1 = heap_update ref (store_chunk (cc_seq c) bytes meta) a"
  define a2 where "a2 = (if a_onProgress a1 then a1\<lparr>a_progress := a_progress a1 @
      [(cc_id c, t_received (a_heap a1 ! ref), t_total (a_heap a1 ! ref))]\<rparr> else a1)"
  have "assembler_inv a2" using assms by (simp add: a2_def a1_def)
  moreover from this have "assembler_inv (snd (complete_transfer c t a2))" for t
    using complete_transfer_state [of c t a2] inv_drop [of a2] by auto
  moreover have "handleChunk_envelope P i c ref a =
      (let t = a_heap a1 ! ref; r = complete_transfer c t a2 in
       if t_total t = JNum (int (t_received t)) then (snd r)\<lparr>a_calls := (a_calls (snd r))[i := Settled (fst r)]\<rparr>
       else a2\<lparr>a_calls := (a_calls a2)[i := Settled (Inr (OutProgress (cc_id c) (t_received t) (t_total t)))]\<rparr>)"
    by (simp only: handleChunk_envelope_def Inr v Let_def a1_def a2_def sum.case case_prod_beta fst_conv snd_conv)
  ultimately show ?thesis by (simp only: Let_def inv_settle split: if_split) simp
qed

lemma inv_expires:
  assumes "assembler_inv a"
  shows "assembler_inv (timer_expires t a)"
proof (cases "map_get (a_live a) t")
  case (Some k)
  then have "map_get (a_timers a) k = Some t"
    using map_get_in_set [OF Some] assms by (auto simp: assembler_inv_def timers_ok_def)
  with Some have "timer_expires t a = drop_transfer k a"
    by (simp add: timer_expires_def drop_transfer_def clear_stale_def)
  with assms show ?thesis by (simp add: inv_drop)
qed (use assms in \<open>simp add: timer_expires_def\<close>)

lemma inv_destroy:
  assumes "assembler_inv a"
  shows "assembler_inv (destroy a)"
proof -
  have live: "set (a_live a) = {(t, k). map_get (a_timers a) k = Some t}"
    using assms unfolding assembler_inv_def timers_ok_def by blast
  have "filter (\<lambda>(x, _). x \<notin> snd ` set (a_timers a)) (a_live a) = []"
    unfolding filter_empty_conv live using map_get_in_set [of "a_timers a"] by force
  with assms show ?thesis
    by (simp add: assembler_inv_def destroy_def timers_ok_def refs_ok_def map_keys_def)
qed

lemma assembler_inv_step: "assembler_inv a \<Longrightarrow> assembler_inv (media_step P a e)"
  by (cases e) (auto simp: handleChunk_begin_def Let_def inv_inner inv_envelope inv_expires inv_destroy
      intro!: inv_call(2) split: call_phase.splits sum.splits)

interpretation assembler: event_machine "media_step P" assembler_inv for P
  by unfold_locales (rule assembler_inv_step)

lemma assembler_inv_new: "assembler_inv (new_assembler cb)"
  by (simp add: assembler_inv_def new_assembler_def timers_ok_def refs_ok_def map_keys_def)

end
