(* ===== verification/MediaRoundtrip.thy ===== *)
theory MediaRoundtrip
  imports Media
begin

text \<open>
  Sender and assembler together: the payloads that \<open>sendMedia\<close> hands to the client,
  delivered in any order and decrypted in any interleaving, make the assembler return
  the file once, and the bounds that hold whatever arrives.
\<close>

section \<open>What the sender sends\<close>

lemma chunk_count_pieces: "chunk_count (length bs) = length (pieces CHUNK_SIZE bs)"
  by (simp add: chunk_count_def length_pieces CHUNK_SIZE_def)

lemma chunk_slice:
  assumes "i < length (pieces CHUNK_SIZE bs)"
  shows "js_slice bs (i * CHUNK_SIZE) (min (i * CHUNK_SIZE + CHUNK_SIZE) (length bs)) = pieces CHUNK_SIZE bs ! i"
proof -
  have "pieces CHUNK_SIZE bs ! i = take CHUNK_SIZE (drop (i * CHUNK_SIZE) bs)"
    using assms by (simp add: nth_pieces CHUNK_SIZE_def)
  then show ?thesis by (simp add: js_slice_def min_def)
qed

definition chunk_cipher :: "'k webcrypto \<Rightarrow> (nat \<Rightarrow> byte list) \<Rightarrow> 'k \<Rightarrow> media_file \<Rightarrow> nat \<Rightarrow> js_error + string" where
  "chunk_cipher P ivs key f i =
     encryptMediaEnvelope P (ivs i) key (pieces CHUNK_SIZE (file_bytes f) ! i)
       (chunk_metadata i (detectMimeType (file_type f) (file_bytes f)) f)"

definition sent_payload :: "'k webcrypto \<Rightarrow> (nat \<Rightarrow> byte list) \<Rightarrow> 'k \<Rightarrow> uuid \<Rightarrow> media_file \<Rightarrow> nat \<Rightarrow> string" where
  "sent_payload P ivs key tid f i =
     chunk_payload tid i (length (pieces CHUNK_SIZE (file_bytes f))) (projr (chunk_cipher P ivs key f i))"

lemma send_loop_sends:
  assumes "\<forall>i<length (pieces CHUNK_SIZE (file_bytes f)). \<exists>c. chunk_cipher P ivs key f i = Inr c"
    and "tot = length (pieces CHUNK_SIZE (file_bytes f))"
  shows "sq + n = tot \<Longrightarrow>
    send_loop P ivs key tid (detectMimeType (file_type f) (file_bytes f)) f tot sq n =
      (map (sent_payload P ivs key tid f) [sq..<tot], map (\<lambda>i. (Suc i, tot)) [sq..<tot], None)"
proof (induction n arbitrary: sq)
  case (Suc n)
  then have sq: "sq < length (pieces CHUNK_SIZE (file_bytes f))" using assms(2) by simp
  then obtain c where "chunk_cipher P ivs key f sq = Inr c" using assms(1) by blast
  moreover have "[sq..<tot] = sq # [Suc sq..<tot]" using sq assms(2) by (simp add: upt_conv_Cons)
  ultimately show ?case
    using Suc.IH [of "Suc sq"] Suc.prems sq assms(2)
    by (simp add: Let_def chunk_slice chunk_cipher_def sent_payload_def del: upt_Suc)
qed simp

lemma sendMedia_sends:
  assumes "\<forall>i<length (pieces CHUNK_SIZE (file_bytes f)). \<exists>c. chunk_cipher P ivs key f i = Inr c"
    and "file_size f \<le> MAX_FILE_SIZE"
  shows "sendMedia P ivs tid toMB key f =
    (map (sent_payload P ivs key tid f) [0..<length (pieces CHUNK_SIZE (file_bytes f))],
     map (\<lambda>i. (Suc i, length (pieces CHUNK_SIZE (file_bytes f)))) [0..<length (pieces CHUNK_SIZE (file_bytes f))],
     Inr \<lparr>ms_transferId = tid, ms_total = length (pieces CHUNK_SIZE (file_bytes f)),
          ms_mimeType = detectMimeType (file_type f) (file_bytes f), ms_fileName = file_name f\<rparr>)"
  using assms(2) send_loop_sends [OF assms(1) refl, of 0 _ tid]
  by (simp add: sendMedia_def Let_def chunk_count_pieces)

section \<open>Assembling an array of chunks\<close>

lemma assemble_loop_concat:
  "length dst = off + length (concat ps) \<Longrightarrow> assemble_loop (map Some ps) off dst = Inr (take off dst @ concat ps)"
proof (induction ps arbitrary: off dst)
  case (Cons p ps)
  have "assemble_loop (map Some ps) (off + length p) (take off dst @ p @ drop (off + length p) dst) =
      Inr (take (off + length p) (take off dst @ p @ drop (off + length p) dst) @ concat ps)"
    using Cons.prems by (intro Cons.IH) simp
  then show ?case using Cons.prems by (simp add: typed_set_def)
qed simp

lemma sum_length_concat: "sum_list (map (\<lambda>c. case c of None \<Rightarrow> 0 | Some bs \<Rightarrow> length bs) (map Some ps)) = length (concat ps)"
  by (induction ps) auto

lemma index_of_show: "index_of (show_nat i) = Some i"
  using show_nat_digits [of _ i] by (auto simp: index_of_def read_show_nat all_digits_def is_digit_def Let_def)

lemma show_nat_inject [simp]: "show_nat i = show_nat j \<longleftrightarrow> i = j"
  by (metis read_show_nat)

section \<open>One transfer in any interleaving\<close>

text \<open>
  \<open>genuine\<close>: the ciphertexts \<open>enc\<close> open, under the key, to the envelopes of the
  pieces \<open>ps\<close>, the first of which carries the metadata.
\<close>

definition media_meta :: "string \<Rightarrow> string \<Rightarrow> nat \<Rightarrow> nat \<Rightarrow> (string, json) jmap" where
  "media_meta mime name sz i =
     (if i = 0 then [(''mimeType'', JStr mime), (''fileName'', JStr name), (''fileSize'', JNum (int sz))] else [])"

definition genuine ::
  "'k webcrypto \<Rightarrow> 'k \<Rightarrow> (nat \<Rightarrow> string) \<Rightarrow> byte list list \<Rightarrow> string \<Rightarrow> string \<Rightarrow> nat \<Rightarrow> bool" where
  "genuine P key enc ps mime name sz \<longleftrightarrow>
     mime \<noteq> [] \<and> ps \<noteq> [] \<and> int (length ps) \<le> MAX_CHUNKS \<and> length (concat ps) \<le> MAX_FILE_SIZE
     \<and> (\<forall>i<length ps. enc i \<noteq> []
          \<and> (\<exists>js. decrypt P key (enc i) = Inr js \<and> json_parse js = Some (envelope_object (media_meta mime name sz i) (ps ! i)))
          \<and> decryptMediaEnvelope P key (enc i) = Inr (ps ! i, media_meta mime name sz i))"

definition the_call :: "'k \<Rightarrow> uuid \<Rightarrow> (nat \<Rightarrow> string) \<Rightarrow> nat \<Rightarrow> nat \<Rightarrow> 'k chunk_call" where
  "the_call key tid enc n i =
     \<lparr>cc_id = JStr tid, cc_tkey = PrimKey (JStr tid), cc_seq = JNum (int i), cc_total = JNum (int n),
      cc_chunk = enc i, cc_key = key\<rparr>"

fun settled :: "'k call_phase \<Rightarrow> bool" where
  "settled (Settled r) = True"
| "settled _ = False"

text \<open>The chunks that are in: those whose call has settled.\<close>

definition chunks_in :: "nat list \<Rightarrow> 'k assembler \<Rightarrow> nat set" where
  "chunks_in ids a = {ids ! j | j. j < length ids \<and> settled (a_calls a ! j)}"

definition meta_ok :: "string \<Rightarrow> string \<Rightarrow> nat \<Rightarrow> transfer \<Rightarrow> bool" where
  "meta_ok mime name sz t \<longleftrightarrow>
     t_mimeType t = Some (JStr mime) \<and> t_fileName t = Some (sanitizeFileName (Some (JStr name)))
     \<and> t_fileSize t = Some (JNum (int sz))"

definition transfer_ok :: "byte list list \<Rightarrow> string \<Rightarrow> string \<Rightarrow> nat \<Rightarrow> nat set \<Rightarrow> transfer \<Rightarrow> bool" where
  "transfer_ok ps mime name sz D t \<longleftrightarrow>
     t_total t = JNum (int (length ps)) \<and> t_length t = length ps \<and> t_received t = card D
     \<and> (\<forall>i. map_get (t_chunks t) (show_nat i) = (if i \<in> D then Some (ps ! i) else None))
     \<and> (meta_ok mime name sz t \<or> (t_mimeType t = None \<and> 0 \<notin> D))"

text \<open>What the settled call of chunk \<open>i\<close> returned: progress, or the file.\<close>

definition final_outcome :: "uuid \<Rightarrow> byte list list \<Rightarrow> string \<Rightarrow> string \<Rightarrow> nat \<Rightarrow> js_error + outcome" where
  "final_outcome tid ps mime name sz =
     bind (validateMimeType (Some (JStr mime)) (concat ps)) (\<lambda>m.
       Inr (OutComplete (JStr tid) m (Some (sanitizeFileName (Some (JStr name)))) (Some (JNum (int sz))) (concat ps)))"

definition is_progress :: "uuid \<Rightarrow> nat \<Rightarrow> js_error + outcome \<Rightarrow> bool" where
  "is_progress tid n r \<longleftrightarrow> (\<exists>k<n. r = Inr (OutProgress (JStr tid) k (JNum (int n))))"

text \<open>
  The phase of the call for chunk \<open>i\<close>: \<open>started\<close> says that the transfer exists,
  \<open>full\<close> that all chunks are in.
\<close>

definition phase_ok :: "'k \<Rightarrow> uuid \<Rightarrow> (nat \<Rightarrow> string) \<Rightarrow> nat \<Rightarrow> bool \<Rightarrow> bool \<Rightarrow> nat \<Rightarrow> 'k call_phase \<Rightarrow> bool" where
  "phase_ok key tid enc n started full i ph \<longleftrightarrow>
     (case ph of
        AwaitInner c \<Rightarrow> c = the_call key tid enc n i
      | AwaitEnvelope c ref \<Rightarrow> c = the_call key tid enc n i \<and> ref = 0 \<and> started
      | Settled r \<Rightarrow> started \<and> (full \<or> is_progress tid n r))"

text \<open>Exactly one call returned the file, the others progress.\<close>

definition one_final :: "uuid \<Rightarrow> byte list list \<Rightarrow> string \<Rightarrow> string \<Rightarrow> nat \<Rightarrow> 'k call_phase list \<Rightarrow> bool" where
  "one_final tid ps mime name sz phs \<longleftrightarrow>
     (\<exists>j<length phs. phs ! j = Settled (final_outcome tid ps mime name sz)
        \<and> (\<forall>k<length phs. k \<noteq> j \<longrightarrow> (\<exists>r. phs ! k = Settled r \<and> is_progress tid (length ps) r)))"

definition store_ok :: "uuid \<Rightarrow> byte list list \<Rightarrow> string \<Rightarrow> string \<Rightarrow> nat \<Rightarrow> nat set \<Rightarrow> 'k assembler \<Rightarrow> bool" where
  "store_ok tid ps mime name sz D a \<longleftrightarrow>
     (a_heap a = [] \<and> a_transfers a = [] \<and> D = {})
     \<or> (\<exists>t. a_heap a = [t] \<and> transfer_ok ps mime name sz D t
           \<and> (if D = {..<length ps} then one_final tid ps mime name sz (a_calls a)
              else a_transfers a = [(PrimKey (JStr tid), 0)]))"

definition transfer_inv ::
  "'k \<Rightarrow> uuid \<Rightarrow> (nat \<Rightarrow> string) \<Rightarrow> byte list list \<Rightarrow> string \<Rightarrow> string \<Rightarrow> nat \<Rightarrow> nat list \<Rightarrow> 'k assembler \<Rightarrow> bool" where
  "transfer_inv key tid enc ps mime name sz ids a \<longleftrightarrow>
     distinct ids \<and> set ids \<subseteq> {..<length ps} \<and> length (a_calls a) = length ids
     \<and> (\<forall>j<length ids. phase_ok key tid enc (length ps) (a_heap a \<noteq> []) (chunks_in ids a = {..<length ps})
          (ids ! j) (a_calls a ! j))
     \<and> store_ok tid ps mime name sz (chunks_in ids a) a"

lemma chunks_in_settle:
  assumes "j < length ids" "length (a_calls a) = length ids"
  shows "chunks_in ids (a\<lparr>a_calls := (a_calls a)[j := Settled r]\<rparr>) = insert (ids ! j) (chunks_in ids a)"
  using assms by (auto simp: chunks_in_def nth_list_update split: if_splits)

lemma chunks_in_same:
  assumes "j < length ids" "length (a_calls a) = length ids" "\<not> settled (a_calls a ! j)" "\<not> settled ph"
  shows "chunks_in ids (a\<lparr>a_calls := (a_calls a)[j := ph]\<rparr>) = chunks_in ids a"
  using assms by (auto simp: chunks_in_def nth_list_update split: if_splits)

lemma chunks_in_snoc:
  "length (a_calls a) = length ids \<Longrightarrow> \<not> settled ph \<Longrightarrow>
     chunks_in (ids @ [i]) (a\<lparr>a_calls := a_calls a @ [ph]\<rparr>) = chunks_in ids a"
  by (auto simp: chunks_in_def nth_append less_Suc_eq split: if_splits)

lemma chunks_in_heap:
  "a_calls b = a_calls a \<Longrightarrow> chunks_in ids b = chunks_in ids a"
  by (simp add: chunks_in_def)

lemma not_in_yet:
  assumes "distinct ids" "j < length ids" "\<not> settled (a_calls a ! j)"
  shows "ids ! j \<notin> chunks_in ids a"
  using assms by (auto simp: chunks_in_def nth_eq_iff_index_eq)

text \<open>A genuine payload passes the checks.\<close>

lemma chunk_checks_genuine:
  assumes "genuine P key enc ps mime name sz" "i < length ps" "tid \<noteq> []"
  shows "chunk_checks ref (Some (JStr (chunk_payload tid i (length ps) (enc i)))) key =
    Inr (the_call key tid enc (length ps) i)"
proof -
  let ?v = "JObj [(''transferId'', JStr tid), (''seq'', JNum (int i)), (''total'', JNum (int (length ps))), (''chunk'', JStr (enc i))]"
  have "read_payload (Some (JStr (chunk_payload tid i (length ps) (enc i)))) = Inr (Some ?v)"
    unfolding chunk_payload_def by (rule read_payload_stringify) simp
  moreover have "chunk_fields (Some ?v) = Inr (Some (JStr tid), Some (JNum (int i)), Some (JNum (int (length ps))), Some (JStr (enc i)))"
    by (simp add: chunk_fields_def map_get_def)
  ultimately show ?thesis
    using assms by (auto simp: chunk_checks_def genuine_def the_call_def tkey_of_def)
qed

lemma transfer_inv_begin:
  assumes inv: "transfer_inv key tid enc ps mime name sz ids a" and i: "i < length ps" "i \<notin> set ids"
    and c: "chunk_checks (length (a_calls a)) payload key = Inr (the_call key tid enc (length ps) i)"
  shows "transfer_inv key tid enc ps mime name sz (ids @ [i]) (media_step P a (AChunk payload key))"
proof -
  let ?ph = "AwaitInner (the_call key tid enc (length ps) i)"
  let ?a = "a\<lparr>a_calls := a_calls a @ [?ph]\<rparr>"
  have step: "media_step P a (AChunk payload key) = ?a"
    by (simp add: handleChunk_begin_def c)
  have D: "chunks_in (ids @ [i]) ?a = chunks_in ids a"
    using inv by (intro chunks_in_snoc) (simp_all add: transfer_inv_def)
  have "i \<notin> chunks_in ids a" using i(2) by (auto simp: chunks_in_def)
  then have more: "chunks_in ids a \<noteq> {..<length ps}" using i(1) by auto
  have "phase_ok key tid enc (length ps) (a_heap a \<noteq> []) (chunks_in ids a = {..<length ps})
      ((ids @ [i]) ! j) ((a_calls a @ [?ph]) ! j)" if "j < Suc (length ids)" for j
    using inv that by (cases "j = length ids") (simp_all add: transfer_inv_def nth_append phase_ok_def)
  moreover have "store_ok tid ps mime name sz (chunks_in ids a) ?a"
    using inv more by (auto simp: transfer_inv_def store_ok_def)
  ultimately show ?thesis
    using inv i unfolding step transfer_inv_def D by (simp add: nth_append)
qed

lemma transfer_inv_calls:
  assumes "transfer_inv key tid enc ps mime name sz ids a" "j < length ids"
  shows "length (a_calls a) = length ids" "distinct ids" "set ids \<subseteq> {..<length ps}" "ids ! j < length ps"
proof -
  show ids: "length (a_calls a) = length ids" "distinct ids" "set ids \<subseteq> {..<length ps}"
    using assms(1) by (simp_all add: transfer_inv_def)
  show "ids ! j < length ps" using ids(3) nth_mem [OF assms(2)] by blast
qed

lemma envelope_fields:
  "js_read (Some (envelope_object (media_meta mime name sz i) p)) ''mimeType'' = Inr (if i = 0 then Some (JStr mime) else None)"
  "js_get (envelope_object (media_meta mime name sz 0) p) ''fileName'' = Some (JStr name)"
  "js_get (envelope_object (media_meta mime name sz 0) p) ''fileSize'' = Some (JNum (int sz))"
  by (auto simp: envelope_object_def media_meta_def)
    (simp_all add: map_get_def)

lemma chunks_in_bounds:
  assumes "transfer_inv key tid enc ps mime name sz ids a"
  shows "chunks_in ids a \<subseteq> {..<length ps}" and "finite (chunks_in ids a)"
proof -
  show "chunks_in ids a \<subseteq> {..<length ps}"
    using transfer_inv_calls(4) [OF assms] by (auto simp: chunks_in_def)
  then show "finite (chunks_in ids a)" by (rule finite_subset) simp
qed

lemma unsettled_not_full:
  assumes "transfer_inv key tid enc ps mime name sz ids a" "j < length ids" "\<not> settled (a_calls a ! j)"
  shows "ids ! j \<notin> chunks_in ids a" and "chunks_in ids a \<noteq> {..<length ps}"
  using not_in_yet [OF transfer_inv_calls(2) [OF assms(1,2)] assms(2,3)] transfer_inv_calls(4) [OF assms(1,2)] by auto

text \<open>The call of chunk \<open>ids ! j\<close> moves from the first to the second await.\<close>

lemma transfer_inv_unsettled:
  assumes inv: "transfer_inv key tid enc ps mime name sz ids a" and j: "j < length ids" "\<not> settled (a_calls a ! j)"
    and b: "a_calls b = (a_calls a)[j := AwaitEnvelope (the_call key tid enc (length ps) (ids ! j)) 0]"
      "a_heap b = [t]" "a_transfers b = [(PrimKey (JStr tid), 0)]" "transfer_ok ps mime name sz (chunks_in ids a) t"
  shows "transfer_inv key tid enc ps mime name sz ids b"
proof -
  have D: "chunks_in ids b = chunks_in ids a"
    using chunks_in_same [OF j(1) transfer_inv_calls(1) [OF inv j(1)] j(2), of "AwaitEnvelope _ 0"] b(1)
    by (simp add: chunks_in_def)
  have "phase_ok key tid enc (length ps) True (chunks_in ids a = {..<length ps}) (ids ! k) (a_calls b ! k)"
    if "k < length ids" for k
    using inv that j unfolding transfer_inv_def b(1)
    by (cases "k = j") (auto simp: phase_ok_def split: call_phase.splits)
  moreover have "store_ok tid ps mime name sz (chunks_in ids a) b"
    using unsettled_not_full(2) [OF inv j] b by (simp add: store_ok_def)
  ultimately show ?thesis
    using inv b unfolding transfer_inv_def D by simp
qed

text \<open>The call of chunk \<open>ids ! j\<close> settles.\<close>

lemma transfer_inv_settled:
  assumes inv: "transfer_inv key tid enc ps mime name sz ids a" and j: "j < length ids" "\<not> settled (a_calls a ! j)"
    and b: "a_calls b = (a_calls a)[j := Settled r]" "a_heap b = [t]"
      "transfer_ok ps mime name sz (insert (ids ! j) (chunks_in ids a)) t"
    and r: "if insert (ids ! j) (chunks_in ids a) = {..<length ps} then r = final_outcome tid ps mime name sz
      else is_progress tid (length ps) r \<and> a_transfers b = [(PrimKey (JStr tid), 0)]"
  shows "transfer_inv key tid enc ps mime name sz ids b"
proof -
  let ?D = "insert (ids ! j) (chunks_in ids a)"
  note calls = transfer_inv_calls [OF inv j(1)]
  have D: "chunks_in ids b = ?D"
    using chunks_in_settle [OF j(1) calls(1), of r] b(1) by (simp add: chunks_in_def)
  have others: "settled (a_calls a ! k)" if "?D = {..<length ps}" "k < length ids" "k \<noteq> j" for k
  proof (rule ccontr)
    assume "\<not> settled (a_calls a ! k)"
    then have "ids ! k \<notin> chunks_in ids a" by (rule not_in_yet [OF calls(2) that(2)])
    moreover have "ids ! k \<noteq> ids ! j" using that calls(2) j(1) by (simp add: nth_eq_iff_index_eq)
    moreover have "ids ! k < length ps" by (rule transfer_inv_calls(4) [OF inv that(2)])
    ultimately show False using that(1) by blast
  qed
  have progress: "is_progress tid (length ps) q" if "k < length ids" "a_calls a ! k = Settled q" for k q
    using inv that unsettled_not_full(2) [OF inv j] by (auto simp: transfer_inv_def phase_ok_def)
  have "phase_ok key tid enc (length ps) True (?D = {..<length ps}) (ids ! k) (a_calls b ! k)"
    if k: "k < length ids" for k
  proof (cases "k = j")
    case True
    with k j calls(1) r show ?thesis by (auto simp: phase_ok_def b(1) split: if_splits)
  next
    case False
    have "phase_ok key tid enc (length ps) (a_heap a \<noteq> []) False (ids ! k) (a_calls a ! k)"
      using inv k unsettled_not_full(2) [OF inv j] by (simp add: transfer_inv_def)
    with False show ?thesis by (auto simp: phase_ok_def b(1) split: call_phase.splits)
  qed
  moreover have "one_final tid ps mime name sz (a_calls b)" if full: "?D = {..<length ps}"
    unfolding one_final_def
  proof (intro exI [of _ j] conjI allI impI)
    show "j < length (a_calls b)" and "a_calls b ! j = Settled (final_outcome tid ps mime name sz)"
      using j(1) calls(1) r full by (simp_all add: b(1))
  next
    fix k assume "k < length (a_calls b)" "k \<noteq> j"
    then have k: "k < length ids" "k \<noteq> j" using calls(1) by (simp_all add: b(1))
    then obtain q where "a_calls a ! k = Settled q" using others [OF full k] by (cases "a_calls a ! k") auto
    with progress k show "\<exists>r. a_calls b ! k = Settled r \<and> is_progress tid (length ps) r" by (auto simp: b(1))
  qed
  ultimately show ?thesis
    using inv b(2,3) r calls unfolding transfer_inv_def D
    by (auto simp: b(1) store_ok_def split: if_splits)
qed

lemma store_cases:
  assumes "transfer_inv key tid enc ps mime name sz ids a" "chunks_in ids a \<noteq> {..<length ps}"
  obtains (empty) "a_heap a = []" "a_transfers a = []" "chunks_in ids a = {}"
    | (one) t where "a_heap a = [t]" "transfer_ok ps mime name sz (chunks_in ids a) t"
        "a_transfers a = [(PrimKey (JStr tid), 0)]"
  using assms by (auto simp: transfer_inv_def store_ok_def)

lemma register_genuine:
  assumes inv: "transfer_inv key tid enc ps mime name sz ids a" and full: "chunks_in ids a \<noteq> {..<length ps}"
    and mime: "mime \<noteq> []"
  obtains a1 t where "register_transfer (the_call key tid enc (length ps) i) (envelope_object (media_meta mime name sz i) p) a = Inr a1"
    and "a_heap a1 = [t]" and "a_transfers a1 = [(PrimKey (JStr tid), 0)]" and "a_calls a1 = a_calls a"
    and "transfer_ok ps mime name sz (chunks_in ids a) t"
proof (cases rule: store_cases [OF inv full])
  case 1
  let ?a1 = "a\<lparr>a_transfers := [(PrimKey (JStr tid), 0)], a_heap := [new_transfer (JNum (int (length ps)))]\<rparr>"
  have "register_transfer (the_call key tid enc (length ps) i) (envelope_object (media_meta mime name sz i) p) a = Inr ?a1"
    using 1 by (simp add: register_transfer_def the_call_def MAX_CONCURRENT_TRANSFERS_def map_set_def is_fraction_def)
  moreover have "transfer_ok ps mime name sz (chunks_in ids a) (new_transfer (JNum (int (length ps))))"
    using 1 by (simp add: transfer_ok_def new_transfer_def)
  ultimately show ?thesis using that by simp
next
  case (2 t)
  have get: "map_get (a_transfers a) (PrimKey (JStr tid)) = Some 0" using 2 by (simp add: map_get_def)
  show ?thesis
  proof (cases "i = 0")
    case True
    let ?t = "set_metadata (Some (JStr mime)) (Some (JStr name)) (Some (JNum (int sz))) t"
    have "register_transfer (the_call key tid enc (length ps) i) (envelope_object (media_meta mime name sz i) p) a =
        Inr (a\<lparr>a_heap := [?t]\<rparr>)"
      using 2 True mime envelope_fields [where mime = mime and name = name and sz = sz and p = p] get
      by (simp add: register_transfer_def the_call_def heap_update_def)
    moreover have "transfer_ok ps mime name sz (chunks_in ids a) ?t"
      using 2(2) by (simp add: transfer_ok_def set_metadata_def meta_ok_def)
    ultimately show ?thesis using that [of "a\<lparr>a_heap := [?t]\<rparr>" ?t] 2 by simp
  next
    case False
    then have "register_transfer (the_call key tid enc (length ps) i) (envelope_object (media_meta mime name sz i) p) a = Inr a"
      using get by (simp add: register_transfer_def the_call_def)
    with 2 that show ?thesis by blast
  qed
qed

lemma show_nat_no_member: "show_nat i \<notin> set array_members"
proof
  assume "show_nat i \<in> set array_members"
  moreover obtain c t where "show_nat i = c # t" "is_digit c" by (rule show_nat_head)
  ultimately show False by (auto simp: array_members_def is_digit_def)
qed

lemma slot_free:
  assumes "transfer_ok ps mime name sz D t" "i \<notin> D"
  shows "\<not> slot_taken t (JNum (int i))"
  using assms by (simp add: transfer_ok_def slot_taken_def map_has_get show_int_def show_nat_no_member)

lemma transfer_inv_inner:
  assumes g: "genuine P key enc ps mime name sz" and inv: "transfer_inv key tid enc ps mime name sz ids a"
    and j: "j < length ids" "a_calls a ! j = AwaitInner c"
  shows "transfer_inv key tid enc ps mime name sz ids (handleChunk_inner P j c a)"
proof -
  let ?i = "ids ! j" and ?c = "the_call key tid enc (length ps) (ids ! j)"
  have un: "\<not> settled (a_calls a ! j)" using j by simp
  note fresh = unsettled_not_full [OF inv j(1) un]
  have c: "c = ?c" using inv j by (auto simp: transfer_inv_def phase_ok_def)
  have i: "?i < length ps" by (rule transfer_inv_calls(4) [OF inv j(1)])
  obtain js where js: "decrypt P key (enc ?i) = Inr js"
    "json_parse js = Some (envelope_object (media_meta mime name sz ?i) (ps ! ?i))"
    using g i by (auto simp: genuine_def)
  obtain a1 t where a1: "register_transfer ?c (envelope_object (media_meta mime name sz ?i) (ps ! ?i)) a = Inr a1"
    "a_heap a1 = [t]" "a_transfers a1 = [(PrimKey (JStr tid), 0)]" "a_calls a1 = a_calls a"
    "transfer_ok ps mime name sz (chunks_in ids a) t"
    using g by (auto simp: genuine_def intro: register_genuine [OF inv fresh(2)])
  let ?b = "(reset_timer (PrimKey (JStr tid)) a1)\<lparr>a_calls := (a_calls a)[j := AwaitEnvelope ?c 0]\<rparr>"
  have fields: "cc_key ?c = key" "cc_chunk ?c = enc ?i" "cc_tkey ?c = PrimKey (JStr tid)" "cc_seq ?c = JNum (int ?i)"
    by (simp_all add: the_call_def)
  have "handleChunk_inner P j c a = ?b"
    using a1 slot_free [OF a1(5) fresh(1)]
    by (simp add: handleChunk_inner_def c fields js map_get_def Let_def)
  moreover have "transfer_inv key tid enc ps mime name sz ids ?b"
    by (rule transfer_inv_unsettled [OF inv j(1) un, where t = t]) (simp_all add: a1)
  ultimately show ?thesis by simp
qed

lemma transfer_ok_store:
  assumes "transfer_ok ps mime name sz D t" "i \<notin> D" "finite D" "i < length ps" "mime \<noteq> []"
  shows "transfer_ok ps mime name sz (insert i D) (store_chunk (JNum (int i)) (ps ! i) (media_meta mime name sz i) t)"
  using assms
  by (auto simp: transfer_ok_def store_chunk_def Let_def show_int_def index_of_show media_meta_def map_get_def [of "_ # _"]
      map_get_def [of "[]"] set_metadata_def meta_ok_def max_def)

lemma complete_genuine:
  assumes "transfer_ok ps mime name sz {..<length ps} t" "ps \<noteq> []" "length (concat ps) \<le> MAX_FILE_SIZE"
  shows "complete_transfer (the_call key tid enc n i) t a =
    (final_outcome tid ps mime name sz, drop_transfer (PrimKey (JStr tid)) a)"
proof -
  have arr: "chunk_array t = map Some ps"
  proof (rule nth_equalityI)
    show "length (chunk_array t) = length (map Some ps)"
      using assms(1) by (simp add: chunk_array_def transfer_ok_def)
    fix i assume "i < length (chunk_array t)"
    then show "chunk_array t ! i = map Some ps ! i"
      using assms(1) by (simp add: chunk_array_def transfer_ok_def)
  qed
  have size: "total_size t = length (concat ps)"
    unfolding total_size_def arr by (rule sum_length_concat)
  have "assemble_loop (map Some ps) 0 (new_Uint8Array (length (concat ps))) = Inr (concat ps)"
    using assemble_loop_concat [of "new_Uint8Array (length (concat ps))" 0 ps] by (simp add: new_Uint8Array_def)
  moreover have "meta_ok mime name sz t" using assms(1,2) by (auto simp: transfer_ok_def)
  ultimately show ?thesis
    using assms(3) by (simp add: complete_transfer_def size arr final_outcome_def meta_ok_def the_call_def Let_def)
qed

lemma transfer_inv_envelope:
  assumes g: "genuine P key enc ps mime name sz" and inv: "transfer_inv key tid enc ps mime name sz ids a"
    and j: "j < length ids" "a_calls a ! j = AwaitEnvelope c ref"
  shows "transfer_inv key tid enc ps mime name sz ids (handleChunk_envelope P j c ref a)"
proof -
  let ?i = "ids ! j" and ?c = "the_call key tid enc (length ps) (ids ! j)"
  let ?D = "chunks_in ids a" and ?n = "length ps"
  have un: "\<not> settled (a_calls a ! j)" using j by simp
  note fresh = unsettled_not_full [OF inv j(1) un]
  have c: "c = ?c" "ref = 0" "a_heap a \<noteq> []" using inv j by (auto simp: transfer_inv_def phase_ok_def)
  have i: "?i < ?n" by (rule transfer_inv_calls(4) [OF inv j(1)])
  obtain t where t: "a_heap a = [t]" "transfer_ok ps mime name sz ?D t" "a_transfers a = [(PrimKey (JStr tid), 0)]"
    using store_cases [OF inv fresh(2)] c(3) by blast
  define t' where "t' = store_chunk (JNum (int ?i)) (ps ! ?i) (media_meta mime name sz ?i) t"
  have t': "transfer_ok ps mime name sz (insert ?i ?D) t'"
    unfolding t'_def using t(2) fresh(1) chunks_in_bounds(2) [OF inv] i g
    by (intro transfer_ok_store) (simp_all add: genuine_def)
  define a1 where "a1 = heap_update 0 (store_chunk (JNum (int ?i)) (ps ! ?i) (media_meta mime name sz ?i)) a"
  have a1: "a_heap a1 = [t']" "a_calls a1 = a_calls a" "a_transfers a1 = a_transfers a"
    by (simp_all add: a1_def heap_update_def t t'_def)
  define a2 where "a2 = (if a_onProgress a1 then a1\<lparr>a_progress := a_progress a1 @ [(JStr tid, t_received t', t_total t')]\<rparr> else a1)"
  have a2: "a_heap a2 = [t']" "a_calls a2 = a_calls a" "a_transfers a2 = a_transfers a"
    by (simp_all add: a2_def a1)
  have dec: "decryptMediaEnvelope P key (enc ?i) = Inr (ps ! ?i, media_meta mime name sz ?i)"
    using g i by (simp add: genuine_def)
  have received: "t_received t' = card (insert ?i ?D)" "t_total t' = JNum (int ?n)" using t' by (simp_all add: transfer_ok_def)
  have sub: "insert ?i ?D \<subseteq> {..<?n}" using chunks_in_bounds(1) [OF inv] i by auto
  have full: "t_total t' = JNum (int (t_received t')) \<longleftrightarrow> insert ?i ?D = {..<?n}"
  proof -
    have "card (insert ?i ?D) = ?n \<longleftrightarrow> insert ?i ?D = {..<?n}"
      using card_subset_eq [OF finite_lessThan sub] by (metis card_lessThan)
    then show ?thesis unfolding received json.inject of_nat_eq_iff by (metis (no_types))
  qed
  have fields: "cc_key ?c = key" "cc_chunk ?c = enc ?i" "cc_id ?c = JStr tid" "cc_seq ?c = JNum (int ?i)"
    by (simp_all add: the_call_def)
  have run: "handleChunk_envelope P j c ref a =
      (if insert ?i ?D = {..<?n}
       then (case complete_transfer ?c t' a2 of (r, a3) \<Rightarrow> a3\<lparr>a_calls := (a_calls a3)[j := Settled r]\<rparr>)
       else a2\<lparr>a_calls := (a_calls a2)[j := Settled (Inr (OutProgress (JStr tid) (t_received t') (t_total t')))]\<rparr>)"
    unfolding full [symmetric]
    by (simp only: handleChunk_envelope_def c fields dec Let_def sum.case prod.case a1(1) nth_Cons_0 a2_def flip: a1_def)
  show ?thesis
  proof (cases "insert ?i ?D = {..<?n}")
    case True
    have "complete_transfer ?c t' a2 = (final_outcome tid ps mime name sz, drop_transfer (PrimKey (JStr tid)) a2)"
      using t' g unfolding True by (intro complete_genuine) (simp_all add: genuine_def)
    then show ?thesis
      unfolding run using True t'
      by (intro transfer_inv_settled [OF inv j(1) un, where t = t' and r = "final_outcome tid ps mime name sz"])
        (simp_all add: drop_transfer_def a2 Let_def)
  next
    case False
    have "card (insert ?i ?D) < ?n" using psubset_card_mono [of "{..<?n}" "insert ?i ?D"] sub False by auto
    then have "is_progress tid ?n (Inr (OutProgress (JStr tid) (t_received t') (t_total t')))"
      by (simp add: is_progress_def received)
    with False t' show ?thesis
      unfolding run
      by (intro transfer_inv_settled [OF inv j(1) un, where t = t' and
            r = "Inr (OutProgress (JStr tid) (t_received t') (t_total t'))"])
        (simp_all add: a2 t)
  qed
qed

section \<open>Schedules\<close>

text \<open>A schedule delivers chunk \<open>i\<close> (\<open>Inl i\<close>) or lets the \<open>j\<close>-th call go on (\<open>Inr j\<close>).\<close>

definition media_events :: "(nat \<Rightarrow> string) \<Rightarrow> 'k \<Rightarrow> (nat + nat) list \<Rightarrow> 'k media_event list" where
  "media_events payload key sched =
     map (\<lambda>x. case x of Inl i \<Rightarrow> AChunk (Some (JStr (payload i))) key | Inr j \<Rightarrow> AResume j) sched"

fun delivered :: "(nat + nat) list \<Rightarrow> nat list" where
  "delivered [] = []"
| "delivered (Inl i # xs) = i # delivered xs"
| "delivered (Inr j # xs) = delivered xs"

lemma delivered_snoc: "delivered (xs @ [x]) = delivered xs @ (case x of Inl i \<Rightarrow> [i] | Inr j \<Rightarrow> [])"
  by (induction xs rule: delivered.induct) (auto split: sum.splits)

lemma transfer_inv_resume:
  assumes "genuine P key enc ps mime name sz" "transfer_inv key tid enc ps mime name sz ids a"
  shows "transfer_inv key tid enc ps mime name sz ids (media_step P a (AResume j))"
proof (cases "j < length (a_calls a)")
  case True
  with assms(2) have "j < length ids" by (simp add: transfer_inv_def)
  with True assms show ?thesis
    by (auto split: call_phase.splits intro: transfer_inv_inner transfer_inv_envelope)
qed (use assms in simp)

lemma transfer_inv_run:
  assumes "genuine P key enc ps mime name sz" "tid \<noteq> []"
  shows "distinct (delivered sched) \<Longrightarrow> set (delivered sched) \<subseteq> {..<length ps} \<Longrightarrow>
    transfer_inv key tid enc ps mime name sz (delivered sched)
      (foldl (media_step P) (new_assembler cb) (media_events (\<lambda>i. chunk_payload tid i (length ps) (enc i)) key sched))"
proof (induction sched rule: rev_induct)
  case Nil
  then show ?case
    by (simp add: transfer_inv_def media_events_def new_assembler_def store_ok_def chunks_in_def)
next
  case (snoc x sched)
  let ?run = "foldl (media_step P) (new_assembler cb) (media_events (\<lambda>i. chunk_payload tid i (length ps) (enc i)) key sched)"
  have inv: "transfer_inv key tid enc ps mime name sz (delivered sched) ?run"
    using snoc by (auto simp: delivered_snoc split: sum.splits)
  show ?case
  proof (cases x)
    case (Inl i)
    then have i: "i < length ps" "i \<notin> set (delivered sched)" using snoc.prems by (auto simp: delivered_snoc)
    from transfer_inv_begin [OF inv i chunk_checks_genuine [OF assms(1) i(1) assms(2)], of P]
    show ?thesis by (simp add: Inl media_events_def delivered_snoc)
  next
    case (Inr j)
    with transfer_inv_resume [OF assms(1) inv, of j] show ?thesis by (simp add: media_events_def delivered_snoc)
  qed
qed

lemma validate_string: "\<exists>m. validateMimeType (Some (JStr s)) bytes = Inr m"
  by (auto simp: validateMimeType_def split: option.splits)

lemma transfer_done:
  assumes "transfer_inv key tid enc ps mime name sz ids a" "list_all settled (a_calls a)"
    and "set ids = {..<length ps}" "ps \<noteq> []"
  shows "one_final tid ps mime name sz (a_calls a)"
proof -
  have "chunks_in ids a = set ids"
  proof -
    have "settled (a_calls a ! j)" if "j < length ids" for j
      using that assms(1,2) by (simp add: transfer_inv_def list_all_length)
    then show ?thesis unfolding chunks_in_def set_conv_nth by blast
  qed
  with assms show ?thesis by (auto simp: transfer_inv_def store_ok_def split: if_splits)
qed

section \<open>The sender's chunks are genuine\<close>

text \<open>What the round trip asks of the platform and the file.\<close>

definition sendable :: "'k webcrypto \<Rightarrow> (nat \<Rightarrow> byte list) \<Rightarrow> media_file \<Rightarrow> bool" where
  "sendable P ivs f \<longleftrightarrow>
     aes_gcm_correct P \<and> (\<forall>i. length (ivs i) = IV_LENGTH) \<and> file_bytes f \<noteq> []
     \<and> file_size f = length (file_bytes f) \<and> file_size f \<le> MAX_FILE_SIZE \<and> utf8 (file_type f) \<and> utf8 (file_name f)"

lemma detect_not_Nil: "detectMimeType ty bs \<noteq> []"
  using magic_scan_Some [of MAGIC_BYTES bs] by (auto simp: detectMimeType_def MAGIC_BYTES_def split: option.splits)

lemma utf8_detect: "utf8 ty \<Longrightarrow> utf8 (detectMimeType ty bs)"
proof -
  have "utf8 m" if "(m, Some g) \<in> set MAGIC_BYTES" for m g
    using that by (intro utf8_ascii) (auto simp: MAGIC_BYTES_def)
  moreover have "utf8 ''video/mp4''" "utf8 ''application/octet-stream''" by (rule utf8_ascii, simp)+
  ultimately show "utf8 (detectMimeType ty bs)" if "utf8 ty"
    using that magic_scan_Some [of MAGIC_BYTES bs] by (auto simp: detectMimeType_def split: option.splits)
qed

lemma media_meta_ok:
  assumes "utf8 mime" "utf8 name"
  shows "json_ok (JObj (media_meta mime name sz i))" "json_utf8 (JObj (media_meta mime name sz i))"
    "map_get (media_meta mime name sz i) ''data'' = None"
proof -
  have "utf8 ''mimeType''" "utf8 ''fileName''" "utf8 ''fileSize''" by (rule utf8_ascii, simp)+
  with assms show "json_utf8 (JObj (media_meta mime name sz i))" by (auto simp: media_meta_def)
qed (simp_all add: media_meta_def map_get_def)

lemma chunk_metadata_meta: "chunk_metadata i mime f = media_meta mime (file_name f) (file_size f) i"
  by (simp add: chunk_metadata_def media_meta_def)

lemma chunk_cipher_ok:
  assumes "sendable P ivs f"
  defines "mime \<equiv> detectMimeType (file_type f) (file_bytes f)" and "ps \<equiv> pieces CHUNK_SIZE (file_bytes f)"
  obtains c where "chunk_cipher P ivs key f i = Inr c" and "c \<noteq> []"
    and "decrypt P key c = Inr (json_stringify (envelope_object (media_meta mime (file_name f) (file_size f) i) (ps ! i)))"
    and "json_parse (json_stringify (envelope_object (media_meta mime (file_name f) (file_size f) i) (ps ! i))) =
      Some (envelope_object (media_meta mime (file_name f) (file_size f) i) (ps ! i))"
    and "decryptMediaEnvelope P key c = Inr (ps ! i, media_meta mime (file_name f) (file_size f) i)"
proof -
  have P: "aes_gcm_correct P" "length (ivs i) = IV_LENGTH" and names: "utf8 mime" "utf8 (file_name f)"
    using assms(1) utf8_detect by (auto simp: sendable_def mime_def)
  obtain c where c: "encryptMediaEnvelope P (ivs i) key (ps ! i) (media_meta mime (file_name f) (file_size f) i) = Inr c"
    "decrypt P key c = Inr (json_stringify (envelope_object (media_meta mime (file_name f) (file_size f) i) (ps ! i)))"
    "json_parse (json_stringify (envelope_object (media_meta mime (file_name f) (file_size f) i) (ps ! i))) =
      Some (envelope_object (media_meta mime (file_name f) (file_size f) i) (ps ! i))"
    "decryptMediaEnvelope P key c = Inr (ps ! i, media_meta mime (file_name f) (file_size f) i)"
    by (rule media_envelope_open [OF P media_meta_ok [OF names]])
  obtain ct where "c = uint8ToBase64 (ivs i @ ct)"
    using c(1) by (auto simp: encryptMediaEnvelope_def encrypt_def bind_Inr prepend_iv_eq)
  moreover have "length (btoa (ivs i @ ct)) \<noteq> 0"
    unfolding length_btoa using P(2) by (simp add: IV_LENGTH_def)
  ultimately have "c \<noteq> []" by (auto simp: uint8ToBase64_eq)
  with c that show ?thesis by (simp add: chunk_cipher_def chunk_metadata_meta mime_def ps_def)
qed

lemma chunk_count_bound: "len \<le> MAX_FILE_SIZE \<Longrightarrow> chunk_count len \<le> 50"
proof -
  assume "len \<le> MAX_FILE_SIZE"
  then have "chunk_count len \<le> (MAX_FILE_SIZE + CHUNK_SIZE - 1) div CHUNK_SIZE"
    unfolding chunk_count_def by (intro div_le_mono diff_le_mono add_le_mono1)
  then show "chunk_count len \<le> 50" by (simp add: MAX_FILE_SIZE_def CHUNK_SIZE_def)
qed

lemma sendable_genuine:
  assumes "sendable P ivs f"
  shows "genuine P key (\<lambda>i. projr (chunk_cipher P ivs key f i)) (pieces CHUNK_SIZE (file_bytes f))
    (detectMimeType (file_type f) (file_bytes f)) (file_name f) (file_size f)"
proof -
  let ?ps = "pieces CHUNK_SIZE (file_bytes f)" and ?mime = "detectMimeType (file_type f) (file_bytes f)"
  have C: "0 < CHUNK_SIZE" by (simp add: CHUNK_SIZE_def)
  have "length ?ps \<le> 50"
    using chunk_count_bound [of "length (file_bytes f)"] assms by (simp add: chunk_count_pieces sendable_def)
  moreover have "concat ?ps = file_bytes f" by (rule concat_pieces [OF C])
  moreover from this have "?ps \<noteq> []" using assms by (auto simp: sendable_def)
  moreover have "projr (chunk_cipher P ivs key f i) \<noteq> []
     \<and> (\<exists>js. decrypt P key (projr (chunk_cipher P ivs key f i)) = Inr js
          \<and> json_parse js = Some (envelope_object (media_meta ?mime (file_name f) (file_size f) i) (?ps ! i)))
     \<and> decryptMediaEnvelope P key (projr (chunk_cipher P ivs key f i)) =
         Inr (?ps ! i, media_meta ?mime (file_name f) (file_size f) i)" for i
    by (rule chunk_cipher_ok [OF assms, of key i]) simp
  ultimately show ?thesis
    using assms detect_not_Nil by (simp add: genuine_def MAX_CHUNKS_def sendable_def)
qed

section \<open>Every call settles\<close>

fun awaits_left :: "'k call_phase \<Rightarrow> nat" where
  "awaits_left (AwaitInner c) = 2"
| "awaits_left (AwaitEnvelope c ref) = 1"
| "awaits_left (Settled r) = 0"

lemma complete_calls [simp]: "a_calls (snd (complete_transfer c t a)) = a_calls a"
  using complete_transfer_state [of c t a] by (auto simp: drop_transfer_def Let_def)

lemma register_calls: "register_transfer c inner a = Inr a1 \<Longrightarrow> a_calls a1 = a_calls a"
  by (auto simp: register_transfer_def heap_update_def split: option.splits if_splits sum.splits)

lemma inner_calls: "\<exists>ph. awaits_left ph \<le> 1 \<and> a_calls (handleChunk_inner P j c a) = (a_calls a)[j := ph]"
proof (cases "(case decrypt P (cc_key c) (cc_chunk c) of Inl e \<Rightarrow> None | Inr js \<Rightarrow> json_parse js)")
  case None
  then show ?thesis
    by (intro exI [of _ "Settled (Inr (OutError (cc_id c) KEY_MISMATCH))"]) (simp add: handleChunk_inner_def)
next
  case (Some inner)
  show ?thesis
  proof (cases "register_transfer c inner a")
    case (Inl r)
    with Some show ?thesis by (intro exI [of _ "Settled r"]) (simp add: handleChunk_inner_def)
  next
    case (Inr a1)
    define ref where "ref = the (map_get (a_transfers a1) (cc_tkey c))"
    have "a_calls (handleChunk_inner P j c a) = (a_calls a)[j := (if slot_taken (a_heap a1 ! ref) (cc_seq c)
        then Settled (Inr OutNull) else AwaitEnvelope c ref)]"
      using Some Inr register_calls [OF Inr] by (simp add: handleChunk_inner_def Let_def ref_def)
    moreover have "awaits_left (if slot_taken (a_heap a1 ! ref) (cc_seq c) then Settled (Inr OutNull) else AwaitEnvelope c ref) \<le> 1"
      by simp
    ultimately show ?thesis by blast
  qed
qed

lemma envelope_calls: "\<exists>r. a_calls (handleChunk_envelope P j c ref a) = (a_calls a)[j := Settled r]"
  by (auto simp: handleChunk_envelope_def Let_def heap_update_def case_prod_beta split: sum.splits)

lemma awaits_step:
  assumes "i < length (a_calls a)"
  shows "i < length (a_calls (media_step P a e))
    \<and> awaits_left (a_calls (media_step P a e) ! i) \<le> awaits_left (a_calls a ! i) - (if e = AResume i then 1 else 0)"
proof (cases e)
  case (AResume j)
  show ?thesis
  proof (cases "j < length (a_calls a)")
    case True
    show ?thesis
    proof (cases "a_calls a ! j")
      case (AwaitInner c)
      obtain ph where "awaits_left ph \<le> 1" "a_calls (handleChunk_inner P j c a) = (a_calls a)[j := ph]"
        using inner_calls by blast
      with True AwaitInner AResume assms show ?thesis by (cases "i = j") auto
    next
      case (AwaitEnvelope c ref)
      obtain r where "a_calls (handleChunk_envelope P j c ref a) = (a_calls a)[j := Settled r]"
        using envelope_calls by blast
      with True AwaitEnvelope AResume assms show ?thesis by (cases "i = j") auto
    qed (use True AResume assms in auto)
  qed (use assms AResume in auto)
qed (use assms in \<open>auto simp: handleChunk_begin_def timer_expires_def destroy_def nth_append split: option.splits\<close>)

lemma awaits_run:
  "i < length (a_calls a) \<Longrightarrow> i < length (a_calls (foldl (media_step P) a es))
     \<and> awaits_left (a_calls (foldl (media_step P) a es) ! i) \<le>
       awaits_left (a_calls a ! i) - length (filter (\<lambda>e. e = AResume i) es)"
proof (induction es arbitrary: a)
  case (Cons e es)
  note step = awaits_step [OF Cons.prems, of P e]
  from Cons.IH [OF conjunct1 [OF step]] step show ?case by (auto split: if_splits)
qed simp

lemma awaits_max: "awaits_left ph \<le> 2" "awaits_left ph = 0 \<longleftrightarrow> settled ph"
  by (cases ph; simp)+

lemma calls_settle:
  assumes "i < length (a_calls a)" "2 \<le> length (filter (\<lambda>e. e = AResume i) es)"
  shows "settled (a_calls (foldl (media_step P) a es) ! i)"
  using awaits_run [OF assms(1), of P es] awaits_max(1) [of "a_calls a ! i"] assms(2) by (simp flip: awaits_max(2))

lemma length_resume [simp]: "length (a_calls (media_step P a (AResume j))) = length (a_calls a)"
proof (cases "j < length (a_calls a)")
  case True
  then show ?thesis
    using inner_calls [of P j _ a] envelope_calls [of P j _ _ a]
    by (cases "a_calls a ! j") (simp_all, (metis length_list_update)+)
qed simp

lemma send_loop_progress:
  "send_loop P ivs key tid mime f tot sq n = (ps, pr, r) \<Longrightarrow>
     length ps \<le> n \<and> pr = map (\<lambda>i. (Suc i, tot)) [sq..<sq + length ps] \<and> (r = None \<longleftrightarrow> length ps = n)"
proof (induction n arbitrary: sq ps pr r)
  case (Suc n)
  show ?case
  proof (cases "encryptMediaEnvelope P (ivs sq) key
      (js_slice (file_bytes f) (sq * CHUNK_SIZE) (min (sq * CHUNK_SIZE + CHUNK_SIZE) (length (file_bytes f))))
      (chunk_metadata sq mime f)")
    case (Inr c)
    obtain qs qr q where tail: "send_loop P ivs key tid mime f tot (Suc sq) n = (qs, qr, q)" by (metis prod_cases3)
    from Suc.IH [OF tail] Suc.prems Inr tail show ?thesis
      by (auto simp: Let_def upt_conv_Cons simp del: upt_Suc)
  qed (use Suc.prems in \<open>auto simp: Let_def\<close>)
qed simp

section \<open>Properties\<close>

text \<open>
  C8: A file sent with \<open>sendMedia\<close> arrives whole. For any non-empty file within the
  size limit, and any schedule that delivers each of the sent payloads once, in any
  order, and interleaves the suspended calls of the assembler in any way until all
  have settled: exactly one call returns the file, with the very bytes that were
  sent, its sanitised name, its size and its validated type, and every other call
  reports progress.
\<close>

theorem sent_media_arrives_whole:
  fixes P :: "'k webcrypto" and key :: 'k and toMB :: "nat \<Rightarrow> string" and cb :: bool and sched :: "(nat + nat) list"
  assumes "sendable P ivs f" and "tid \<noteq> []"
  defines "sent \<equiv> fst (sendMedia P ivs tid toMB key f)"
  defines "a \<equiv> foldl (media_step P) (new_assembler cb) (media_events ((!) sent) key sched)"
  assumes "mset (delivered sched) = mset [0..<length sent]" and "list_all settled (a_calls a)"
  shows "\<exists>m j. validateMimeType (Some (JStr (detectMimeType (file_type f) (file_bytes f)))) (file_bytes f) = Inr m
    \<and> j < length sent
    \<and> a_calls a ! j = Settled (Inr (OutComplete (JStr tid) m (Some (sanitizeFileName (Some (JStr (file_name f)))))
          (Some (JNum (int (length (file_bytes f))))) (file_bytes f)))
    \<and> (\<forall>k<length sent. k \<noteq> j \<longrightarrow> (\<exists>r. a_calls a ! k = Settled (Inr (OutProgress (JStr tid) r (JNum (int (length sent)))))))"
proof -
  let ?ps = "pieces CHUNK_SIZE (file_bytes f)" and ?mime = "detectMimeType (file_type f) (file_bytes f)"
  let ?enc = "\<lambda>i. projr (chunk_cipher P ivs key f i)"
  have g: "genuine P key ?enc ?ps ?mime (file_name f) (file_size f)" by (rule sendable_genuine [OF assms(1)])
  have whole: "concat ?ps = file_bytes f" by (rule concat_pieces) (simp add: CHUNK_SIZE_def)
  have sent: "sent = map (\<lambda>i. chunk_payload tid i (length ?ps) (?enc i)) [0..<length ?ps]"
  proof -
    have "\<exists>c. chunk_cipher P ivs key f i = Inr c" for i by (rule chunk_cipher_ok [OF assms(1), of key i]) blast
    then show ?thesis
      using assms(1) sendMedia_sends [of f P ivs key tid toMB]
      by (simp add: sent_def sendable_def sent_payload_def [abs_def])
  qed
  have len: "length sent = length ?ps" by (simp add: sent)
  have ids: "distinct (delivered sched)" "set (delivered sched) = {..<length ?ps}"
    using assms(5) len mset_eq_imp_distinct_iff [OF assms(5)] mset_eq_setD [OF assms(5)] by (auto simp: atLeast0LessThan)
  have "media_events ((!) sent) key sched = media_events (\<lambda>i. chunk_payload tid i (length ?ps) (?enc i)) key sched"
  proof -
    have "i < length ?ps" if "Inl i \<in> set sched" for i
    proof -
      have "Inl i \<in> set xs \<Longrightarrow> i \<in> set (delivered xs)" for xs
        by (induction xs rule: delivered.induct) auto
      with that ids(2) show ?thesis by auto
    qed
    then show ?thesis by (auto simp: media_events_def sent split: sum.splits)
  qed
  then have inv: "transfer_inv key tid ?enc ?ps ?mime (file_name f) (file_size f) (delivered sched) a"
    using transfer_inv_run [OF g assms(2) ids(1), of cb] ids(2) by (simp add: a_def)
  have "one_final tid ?ps ?mime (file_name f) (file_size f) (a_calls a)"
    using g by (intro transfer_done [OF inv assms(6) ids(2)]) (simp add: genuine_def)
  moreover have "length (a_calls a) = length sent"
    using inv len mset_eq_length [OF assms(5)] by (simp add: transfer_inv_def)
  moreover obtain m where "validateMimeType (Some (JStr ?mime)) (file_bytes f) = Inr m" using validate_string by blast
  moreover have "file_size f = length (file_bytes f)" using assms(1) by (simp add: sendable_def)
  ultimately show ?thesis
    unfolding one_final_def final_outcome_def is_progress_def whole len by fastforce
qed

text \<open>A one-chunk file and the schedule that delivers and decrypts its chunk.\<close>

definition demo_file :: media_file where
  "demo_file = \<lparr>file_size = 3, file_type = ''image/png'', file_name = ''a/b.png'', file_bytes = [1, 2, 3]\<rparr>"

lemma demo_sendable: "sendable demo_crypto (\<lambda>i. replicate 12 0) demo_file"
  by (auto simp: sendable_def demo_crypto_ok IV_LENGTH_def demo_file_def MAX_FILE_SIZE_def intro!: utf8_ascii)

lemma demo_pieces: "pieces CHUNK_SIZE (file_bytes demo_file) = [[1, 2, 3]]"
  by (simp add: demo_file_def pieces_step CHUNK_SIZE_def)

lemma demo_sent_length: "length (fst (sendMedia demo_crypto (\<lambda>i. replicate 12 0) ''t'' toMB 7 demo_file)) = 1"
proof -
  have "\<exists>c. chunk_cipher demo_crypto (\<lambda>i. replicate 12 0) 7 demo_file i = Inr c" for i
    by (rule chunk_cipher_ok [OF demo_sendable, of 7 i]) blast
  moreover have "file_size demo_file \<le> MAX_FILE_SIZE" by (simp add: demo_file_def MAX_FILE_SIZE_def)
  ultimately show ?thesis
    using sendMedia_sends [of demo_file demo_crypto "\<lambda>i. replicate 12 0" 7 "''t''" toMB] by (simp add: demo_pieces)
qed

theorem sent_media_arrives_whole_witness:
  "\<exists>a :: byte assembler. a_calls a ! 0 = Settled (Inr (OutComplete (JStr ''t'') ''application/octet-stream''
     (Some ''a_b.png'') (Some (JNum 3)) [1, 2, 3]))"
proof -
  let ?sent = "fst (sendMedia demo_crypto (\<lambda>i. replicate 12 0) ''t'' (\<lambda>n. []) 7 demo_file)"
  let ?a = "foldl (media_step demo_crypto) (new_assembler False) (media_events ((!) ?sent) 7 [Inl 0, Inr 0, Inr 0])"
  define b where "b = handleChunk_begin (Some (JStr (?sent ! 0))) 7 (new_assembler False :: byte assembler)"
  have run: "?a = foldl (media_step demo_crypto) b [AResume 0, AResume 0]"
    by (simp add: media_events_def b_def)
  have b: "length (a_calls b) = 1" by (simp add: b_def handleChunk_begin_def new_assembler_def Let_def)
  have "settled (a_calls ?a ! 0)"
    unfolding run using b by (intro calls_settle) simp_all
  moreover have "length (a_calls ?a) = 1" unfolding run using b by (simp del: media_step.simps)
  ultimately have settled: "list_all settled (a_calls ?a)" by (auto simp: list_all_length)
  have order: "mset (delivered [Inl 0, Inr 0, Inr 0]) = mset [0..<length ?sent]" by (simp add: demo_sent_length)
  have mime: "validateMimeType (Some (JStr (detectMimeType (file_type demo_file) (file_bytes demo_file)))) (file_bytes demo_file) =
      Inr ''application/octet-stream''" by code_simp
  have name: "sanitizeFileName (Some (JStr (file_name demo_file))) = ''a_b.png''" by code_simp
  from sent_media_arrives_whole [OF demo_sendable _ order settled]
  show ?thesis unfolding mime name demo_sent_length by (auto simp: demo_file_def)
qed

text \<open>
  C33: Whatever chunks, timers and resumptions arrive in whatever order, the assembler
  never keeps more than ten transfers; and each of them has its own live timer, so
  that none can stay for ever.
\<close>

theorem assembler_memory_is_bounded:
  "let a = foldl (media_step P) (new_assembler cb) es in
     length (a_transfers a) \<le> 10 \<and> distinct (map_keys (a_transfers a))
     \<and> set (map_keys (a_transfers a)) = snd ` set (a_live a) \<and> distinct (map fst (a_live a))"
proof -
  let ?a = "foldl (media_step P) (new_assembler cb) es"
  have inv: "assembler_inv ?a" by (rule assembler.inv_run) (rule assembler_inv_new)
  have "set (map_keys (a_transfers ?a)) = set (map_keys (a_timers ?a))"
    using inv unfolding assembler_inv_def by blast
  also have "\<dots> = {k. \<exists>t. map_get (a_timers ?a) k = Some t}"
    using map_has_get [of "a_timers ?a"] unfolding map_has_def by auto
  also have "\<dots> = snd ` {(t, k). map_get (a_timers ?a) k = Some t}" by (auto simp: image_iff)
  also have "\<dots> = snd ` set (a_live ?a)"
    using inv unfolding assembler_inv_def timers_ok_def by blast
  finally show ?thesis
    using inv by (simp only: assembler_inv_def timers_ok_def map_ok_def MAX_CONCURRENT_TRANSFERS_def Let_def)
qed

text \<open>
  \<open>sendMedia\<close> refuses a file over 25 MiB without sending anything; any other file
  goes out in at most 50 payloads, one for each piece of at most 512 KiB, with a
  progress call after each.
\<close>

theorem sendMedia_is_bounded:
  assumes "file_size f = length (file_bytes f)"
  shows "case sendMedia P ivs tid toMB key f of (payloads, progress, r) \<Rightarrow>
    if MAX_FILE_SIZE < file_size f then payloads = [] \<and> progress = [] \<and> (\<exists>e. r = Inl e)
    else length payloads \<le> 50 \<and> length payloads \<le> length (pieces CHUNK_SIZE (file_bytes f))
      \<and> progress = map (\<lambda>i. (Suc i, length (pieces CHUNK_SIZE (file_bytes f)))) [0..<length payloads]
      \<and> ((\<exists>s. r = Inr s) \<longleftrightarrow> length payloads = length (pieces CHUNK_SIZE (file_bytes f)))"
proof (cases "MAX_FILE_SIZE < file_size f")
  case False
  let ?n = "length (pieces CHUNK_SIZE (file_bytes f))"
  obtain ps pr r where run: "send_loop P ivs key tid (detectMimeType (file_type f) (file_bytes f)) f ?n 0 ?n = (ps, pr, r)"
    by (metis prod_cases3)
  have "length ps \<le> ?n \<and> pr = map (\<lambda>i. (Suc i, ?n)) [0..<length ps] \<and> (r = None \<longleftrightarrow> length ps = ?n)"
    using send_loop_progress [OF run] by simp
  moreover have "?n \<le> 50" using False assms chunk_count_bound [of "length (file_bytes f)"] by (simp add: chunk_count_pieces)
  ultimately show ?thesis
    using False run by (cases r) (simp_all add: sendMedia_def Let_def chunk_count_pieces)
qed (simp add: sendMedia_def)

theorem sendMedia_is_bounded_witness:
  "length (fst (sendMedia demo_crypto (\<lambda>i. replicate 12 0) ''t'' (\<lambda>n. []) 7 demo_file)) \<le> 50"
proof -
  have "file_size demo_file = length (file_bytes demo_file)" by (simp add: demo_file_def)
  from sendMedia_is_bounded [OF this, of demo_crypto "\<lambda>i. replicate 12 0" "''t''" "\<lambda>n. []" 7]
  show ?thesis by (auto simp: demo_file_def MAX_FILE_SIZE_def split: prod.splits)
qed

end
