(* ===== verification/Client.thy ===== *)
theory Client
  imports Complex_Main JsonRoundtrip
begin

text \<open>
  The WebSocket client (\<^verbatim>\<open>apps/trapchat/src/socket/client.js\<close>): rooms, the queue of
  messages written while offline, reconnection with backoff and jitter, listeners.

  The platform's sockets are a heap; the client's \<open>#ws\<close> refers into it. The socket
  handlers close over the client, not over their socket, and read \<open>#ws\<close> when they run,
  so a handler of an old socket can act on a new one. Each step of the model is one
  call of the client's API or one task of the platform (a socket event, a timer).
  Listener calls are recorded; what a listener does in turn is a step of its own.
\<close>

definition MAX_RECONNECT_DELAY :: real where "MAX_RECONNECT_DELAY = 30000"
definition BASE_RECONNECT_DELAY :: real where "BASE_RECONNECT_DELAY = 1000"
definition MAX_RECONNECT_ATTEMPTS :: nat where "MAX_RECONNECT_ATTEMPTS = 20"
definition MAX_ROOMS :: nat where "MAX_ROOMS = 5"
definition MAX_PENDING :: nat where "MAX_PENDING = 200"

section \<open>Sockets\<close>

datatype ready_state = CONNECTING | OPEN | CLOSING | CLOSED

text \<open>The numbers of \<open>WebSocket.readyState\<close>; a socket only moves forward.\<close>

fun ready_code :: "ready_state \<Rightarrow> nat" where
  "ready_code CONNECTING = 0"
| "ready_code OPEN = 1"
| "ready_code CLOSING = 2"
| "ready_code CLOSED = 3"

lemma ready_code_inject: "ready_code s = ready_code t \<longleftrightarrow> s = t"
  by (cases s; cases t) simp_all

instantiation ready_state :: linorder
begin

definition less_eq_ready_state :: "ready_state \<Rightarrow> ready_state \<Rightarrow> bool" where
  "less_eq_ready_state s t \<longleftrightarrow> ready_code s \<le> ready_code t"

definition less_ready_state :: "ready_state \<Rightarrow> ready_state \<Rightarrow> bool" where
  "less_ready_state s t \<longleftrightarrow> ready_code s < ready_code t"

instance
  by standard (auto simp: less_eq_ready_state_def less_ready_state_def ready_code_inject)

end

datatype promise = Pending | Resolved | Rejected

text \<open>A message as \<open>send\<close> builds it; \<open>undefined\<close> fields are left out by \<open>JSON.stringify\<close>.\<close>

record message =
  m_id :: uuid
  m_msgId :: string
  m_type :: string
  m_room :: string
  m_payload :: "json option"
  m_timestamp :: time

definition message_text :: "message \<Rightarrow> string" where
  "message_text m =
     json_stringify (js_object [(''id'', Some (JStr (m_id m))), (''msgId'', Some (JStr (m_msgId m))),
       (''type'', Some (JStr (m_type m))), (''room'', Some (JStr (m_room m))), (''payload'', m_payload m),
       (''timestamp'', Some (JNum (m_timestamp m)))])"

text \<open>What goes over the wire: \<open>message_text\<close> of a message, or a string from \<open>sendRaw\<close>.\<close>

datatype frame = Msg message | RawText string

record socket =
  sk_state :: ready_state
  sk_settled :: bool
  sk_promise :: promise
  sk_sent :: "frame list"

section \<open>The client\<close>

datatype emit_data =
    NoData
  | SocketEvent
  | MaxRooms
  | QueuedInfo string string
  | FailedInfo nat
  | ReconnectInfo nat real
  | JsonData json
  | TextData string

record client =
  ws :: "nat option"
  sockets :: "socket list"
  listeners :: "(string, nat list) jmap"
  reconnecting :: bool
  reconnectAttempts :: nat
  reconnectTimer :: "nat option"
  joinedRooms :: "(string, json option) jmap"
  pendingQueue :: "(string \<times> message) list"
  peerId :: "json option"
  live_timers :: "nat list"
  next_timer_id :: nat
  listener_calls :: "(nat \<times> string \<times> emit_data) list"
  emitted :: "(string \<times> emit_data) list"

definition new_client :: client where
  "new_client =
     \<lparr>ws = None, sockets = [], listeners = [], reconnecting = False, reconnectAttempts = 0, reconnectTimer = None,
      joinedRooms = [], pendingQueue = [], peerId = None, live_timers = [], next_timer_id = 1, listener_calls = [],
      emitted = []\<rparr>"

definition emit_event :: "string \<Rightarrow> emit_data \<Rightarrow> client \<Rightarrow> client" where
  "emit_event event dat c =
     (let c1 = c\<lparr>emitted := emitted c @ [(event, dat)]\<rparr> in
      case map_get (listeners c1) event of
        None \<Rightarrow> c1
      | Some fns \<Rightarrow> c1\<lparr>listener_calls := listener_calls c1 @ map (\<lambda>fn. (fn, event, dat)) fns\<rparr>)"

definition client_on :: "string \<Rightarrow> nat \<Rightarrow> client \<Rightarrow> client" where
  "client_on event fn c =
     (let ls = (if map_has (listeners c) event then listeners c else map_set event [] (listeners c))
      in c\<lparr>listeners := map_set event (set_add fn (the (map_get ls event))) ls\<rparr>)"

text \<open>The function that \<open>on\<close> returns.\<close>

definition client_off :: "string \<Rightarrow> nat \<Rightarrow> client \<Rightarrow> client" where
  "client_off event fn c =
     (case map_get (listeners c) event of
        None \<Rightarrow> c
      | Some fns \<Rightarrow> c\<lparr>listeners := map_set event (set_delete fn fns) (listeners c)\<rparr>)"

definition emitP2P :: "string \<Rightarrow> emit_data \<Rightarrow> client \<Rightarrow> client" where
  "emitP2P event dat c = emit_event (''p2p:'' @ event) dat c"

definition socket_open :: "client \<Rightarrow> bool" where
  "socket_open c = (case ws c of None \<Rightarrow> False | Some i \<Rightarrow> sk_state (sockets c ! i) = OPEN)"

definition connected :: "client \<Rightarrow> bool" where
  "connected c = socket_open c"

definition joined_room_names :: "client \<Rightarrow> string list" where
  "joined_room_names c = map_keys (joinedRooms c)"

definition update_socket :: "nat \<Rightarrow> (socket \<Rightarrow> socket) \<Rightarrow> client \<Rightarrow> client" where
  "update_socket i f c = c\<lparr>sockets := (sockets c)[i := f (sockets c ! i)]\<rparr>"

definition ws_send :: "frame \<Rightarrow> client \<Rightarrow> client" where
  "ws_send x c =
     (case ws c of None \<Rightarrow> c | Some i \<Rightarrow> update_socket i (\<lambda>s. s\<lparr>sk_sent := sk_sent s @ [x]\<rparr>) c)"

text \<open>The identifiers and the clock a call of \<open>send\<close> draws.\<close>

record draws =
  d_id :: uuid
  d_msgId :: uuid
  d_now :: time

definition make_message :: "draws \<Rightarrow> string \<Rightarrow> string \<Rightarrow> json option \<Rightarrow> string \<Rightarrow> message" where
  "make_message d ty room payload msgId =
     \<lparr>m_id = d_id d, m_msgId = (if msgId = [] then d_msgId d else msgId), m_type = ty, m_room = room,
      m_payload = payload, m_timestamp = d_now d\<rparr>"

definition queueable :: "string \<Rightarrow> bool" where
  "queueable ty = (ty = ''chat'' \<or> ty = ''media'')"

text \<open>The rooms after \<open>send\<close> looked at the type; \<open>None\<close> is the refused sixth room.\<close>

definition track_room ::
  "string \<Rightarrow> string \<Rightarrow> json option \<Rightarrow> (string, json option) jmap \<Rightarrow> (string, json option) jmap option" where
  "track_room ty room payload rooms =
     (if ty = ''join'' then
        (if \<not> map_has rooms room \<and> MAX_ROOMS \<le> length rooms then None else Some (map_set room payload rooms))
      else if ty = ''leave'' then Some (map_delete room rooms)
      else Some rooms)"

definition send :: "draws \<Rightarrow> string \<Rightarrow> string \<Rightarrow> json option \<Rightarrow> string \<Rightarrow> client \<Rightarrow> client \<times> bool" where
  "send d ty room payload msgId c =
     (case track_room ty room payload (joinedRooms c) of
        None \<Rightarrow> (emit_event ''error'' MaxRooms c, False)
      | Some rooms \<Rightarrow>
          (let c1 = c\<lparr>joinedRooms := rooms\<rparr>;
               msg = make_message d ty room payload msgId
           in if \<not> socket_open c1 then
                (if queueable ty then
                   (let c2 = (if length (pendingQueue c1) < MAX_PENDING
                              then c1\<lparr>pendingQueue := pendingQueue c1 @ [(room, msg)]\<rparr> else c1)
                    in (emit_event ''queued'' (QueuedInfo ty room) c2, False))
                 else (c1, False))
              else (ws_send (Msg msg) c1, True)))"

text \<open>\<open>sendRaw\<close>: only well-formed signalling messages pass.\<close>

definition raw_allowed :: "string \<Rightarrow> bool" where
  "raw_allowed msg =
     (case json_parse msg of
        None \<Rightarrow> False
      | Some JNull \<Rightarrow> False
      | Some v \<Rightarrow> truthy (js_get v ''type'') \<and> truthy (js_get v ''room'') \<and> js_get v ''type'' = Some (JStr ''signal''))"

definition sendRaw :: "string \<Rightarrow> client \<Rightarrow> client \<times> bool" where
  "sendRaw msg c =
     (if \<not> socket_open c then (c, False)
      else if raw_allowed msg then (ws_send (RawText msg) c, True) else (c, False))"

definition connect :: "client \<Rightarrow> client" where
  "connect c =
     c\<lparr>ws := Some (length (sockets c)),
       sockets := sockets c @ [\<lparr>sk_state = CONNECTING, sk_settled = False, sk_promise = Pending, sk_sent = []\<rparr>]\<rparr>"

text \<open>\<open>while (this.#pendingQueue.length > 0)\<close>: every entry is taken out; it is sent if the socket is open.\<close>

fun flush_loop :: "(string \<times> message) list \<Rightarrow> client \<Rightarrow> client" where
  "flush_loop [] c = c"
| "flush_loop ((room, msg) # q) c = flush_loop q (if socket_open c then ws_send (Msg msg) c else c)"

definition flushQueue :: "client \<Rightarrow> client" where
  "flushQueue c = flush_loop (pendingQueue c) (c\<lparr>pendingQueue := []\<rparr>)"

text \<open>The loop that rejoins every room; \<open>ds k\<close> are the draws of the \<open>k\<close>-th \<open>send\<close>.\<close>

fun rejoin_loop :: "(nat \<Rightarrow> draws) \<Rightarrow> nat \<Rightarrow> (string, json option) jmap \<Rightarrow> client \<Rightarrow> client" where
  "rejoin_loop ds k [] c = c"
| "rejoin_loop ds k ((room, payload) # rooms) c =
     rejoin_loop ds (Suc k) rooms (fst (send (ds k) ''join'' room payload [] c))"

definition onopen :: "(nat \<Rightarrow> draws) \<Rightarrow> nat \<Rightarrow> client \<Rightarrow> client" where
  "onopen ds i c =
     (let c1 = update_socket i (\<lambda>s. s\<lparr>sk_settled := True\<rparr>) c;
          c2 = emit_event ''open'' NoData (c1\<lparr>reconnectAttempts := 0\<rparr>);
          c3 = (if reconnecting c2 \<and> joinedRooms c2 \<noteq> []
                then (rejoin_loop ds 0 (joinedRooms c2) c2)\<lparr>reconnecting := False\<rparr> else c2)
      in update_socket i (\<lambda>s. s\<lparr>sk_promise := Resolved\<rparr>) (flushQueue c3))"

definition onerror :: "nat \<Rightarrow> client \<Rightarrow> client" where
  "onerror i c =
     (let c1 = emit_event ''error'' SocketEvent c in
      if sk_settled (sockets c1 ! i) then c1
      else update_socket i (\<lambda>s. s\<lparr>sk_settled := True, sk_promise := Rejected\<rparr>) c1)"

text \<open>\<open>random\<close> is the value of \<open>Math.random()\<close>.\<close>

definition reconnect_delay :: "real \<Rightarrow> nat \<Rightarrow> real" where
  "reconnect_delay random attempts =
     (let base = min (BASE_RECONNECT_DELAY * 2 ^ attempts) MAX_RECONNECT_DELAY;
          jitter = random * base * 0.5
      in min (base + jitter) MAX_RECONNECT_DELAY)"

definition attemptReconnect :: "real \<Rightarrow> client \<Rightarrow> client" where
  "attemptReconnect random c =
     (if joinedRooms c = [] then c
      else if MAX_RECONNECT_ATTEMPTS \<le> reconnectAttempts c
      then (emit_event ''reconnect_failed'' (FailedInfo (reconnectAttempts c)) c)\<lparr>reconnecting := False\<rparr>
      else let c1 = c\<lparr>reconnecting := True\<rparr>;
               delay = reconnect_delay random (reconnectAttempts c1);
               c2 = c1\<lparr>reconnectAttempts := Suc (reconnectAttempts c1)\<rparr>;
               c3 = emit_event ''reconnecting'' (ReconnectInfo (reconnectAttempts c2) delay) c2
           in c3\<lparr>reconnectTimer := Some (next_timer_id c3), live_timers := live_timers c3 @ [next_timer_id c3],
                 next_timer_id := Suc (next_timer_id c3)\<rparr>)"

definition onclose :: "real \<Rightarrow> nat \<Rightarrow> client \<Rightarrow> client" where
  "onclose random i c =
     (let c1 = emit_event ''close'' SocketEvent c in
      if sk_settled (sockets c1 ! i) then attemptReconnect random c1 else c1)"

definition onmessage :: "string \<Rightarrow> client \<Rightarrow> client" where
  "onmessage text c =
     (case json_parse text of
        None \<Rightarrow> emit_event ''message'' (TextData text) c
      | Some JNull \<Rightarrow> emit_event ''message'' (TextData text) c
      | Some dat \<Rightarrow>
          (let c1 = (if js_get dat ''type'' = Some (JStr ''welcome'') \<and> truthy (js_get dat ''id'')
                     then c\<lparr>peerId := js_get dat ''id''\<rparr> else c);
               c2 = emit_event ''message'' (JsonData dat) c1
           in case js_get dat ''type'' of
                Some (JStr ty) \<Rightarrow> if ty = [] then c2 else emit_event ty (JsonData dat) c2
              | _ \<Rightarrow> c2))"

definition clearReconnect :: "client \<Rightarrow> client" where
  "clearReconnect c =
     (let c1 = c\<lparr>reconnecting := False, reconnectAttempts := 0\<rparr> in
      case reconnectTimer c1 of
        None \<Rightarrow> c1
      | Some t \<Rightarrow> c1\<lparr>live_timers := removeAll t (live_timers c1), reconnectTimer := None\<rparr>)"

text \<open>\<open>close()\<close> of the platform: a socket that is not yet closed starts closing.\<close>

definition close_socket :: "socket \<Rightarrow> socket" where
  "close_socket s = s\<lparr>sk_state := max (sk_state s) CLOSING\<rparr>"

definition disconnect :: "client \<Rightarrow> client" where
  "disconnect c =
     (let c1 = (clearReconnect c)\<lparr>joinedRooms := [], pendingQueue := []\<rparr> in
      case ws c1 of
        None \<Rightarrow> c1
      | Some i \<Rightarrow> (update_socket i close_socket c1)\<lparr>ws := None\<rparr>)"

section \<open>Steps\<close>

text \<open>
  API calls and platform tasks. The platform opens a connecting socket, delivers
  messages on an open one, and closes a socket once.
\<close>

datatype client_event =
    CConnect
  | CDisconnect
  | CSend draws string string "json option" string
  | CSendRaw string
  | COn string nat
  | COff string nat
  | CEmit string emit_data
  | SockOpen nat "nat \<Rightarrow> draws"
  | SockError nat
  | SockClose nat real
  | SockMessage nat string
  | CTimer nat

definition socket_in :: "client \<Rightarrow> nat \<Rightarrow> ready_state set \<Rightarrow> bool" where
  "socket_in c i S = (i < length (sockets c) \<and> sk_state (sockets c ! i) \<in> S)"

fun client_step :: "client \<Rightarrow> client_event \<Rightarrow> client" where
  "client_step c CConnect = connect c"
| "client_step c CDisconnect = disconnect c"
| "client_step c (CSend d ty room payload msgId) = fst (send d ty room payload msgId c)"
| "client_step c (CSendRaw msg) = fst (sendRaw msg c)"
| "client_step c (COn event fn) = client_on event fn c"
| "client_step c (COff event fn) = client_off event fn c"
| "client_step c (CEmit event dat) = emit_event event dat c"
| "client_step c (SockOpen i ds) =
     (if socket_in c i {CONNECTING} then onopen ds i (update_socket i (\<lambda>s. s\<lparr>sk_state := OPEN\<rparr>) c) else c)"
| "client_step c (SockError i) = (if socket_in c i {CONNECTING, OPEN, CLOSING} then onerror i c else c)"
| "client_step c (SockClose i random) =
     (if socket_in c i {CONNECTING, OPEN, CLOSING}
      then onclose random i (update_socket i (\<lambda>s. s\<lparr>sk_state := CLOSED\<rparr>) c) else c)"
| "client_step c (SockMessage i text) = (if socket_in c i {OPEN} then onmessage text c else c)"
| "client_step c (CTimer t) =
     (if t \<in> set (live_timers c) then connect (c\<lparr>live_timers := removeAll t (live_timers c)\<rparr>) else c)"

abbreviation client_run :: "client \<Rightarrow> client_event list \<Rightarrow> client" where
  "client_run \<equiv> foldl client_step"

section \<open>Frame rules\<close>

lemma emit_frame [simp]:
  "ws (emit_event ev d c) = ws c" "sockets (emit_event ev d c) = sockets c" "listeners (emit_event ev d c) = listeners c"
  "reconnecting (emit_event ev d c) = reconnecting c" "reconnectAttempts (emit_event ev d c) = reconnectAttempts c"
  "reconnectTimer (emit_event ev d c) = reconnectTimer c" "joinedRooms (emit_event ev d c) = joinedRooms c"
  "pendingQueue (emit_event ev d c) = pendingQueue c" "peerId (emit_event ev d c) = peerId c"
  "live_timers (emit_event ev d c) = live_timers c" "next_timer_id (emit_event ev d c) = next_timer_id c"
  by (simp_all add: emit_event_def Let_def split: option.splits)

lemma socket_frame [simp]:
  "ws (update_socket i f c) = ws c" "listeners (update_socket i f c) = listeners c"
  "reconnecting (update_socket i f c) = reconnecting c" "reconnectAttempts (update_socket i f c) = reconnectAttempts c"
  "reconnectTimer (update_socket i f c) = reconnectTimer c" "joinedRooms (update_socket i f c) = joinedRooms c"
  "pendingQueue (update_socket i f c) = pendingQueue c" "peerId (update_socket i f c) = peerId c"
  "live_timers (update_socket i f c) = live_timers c"
  "sockets (update_socket i f c) = (sockets c)[i := f (sockets c ! i)]"
  by (simp_all add: update_socket_def)

lemma ws_send_frame [simp]:
  "ws (ws_send x c) = ws c" "listeners (ws_send x c) = listeners c" "length (sockets (ws_send x c)) = length (sockets c)"
  "reconnecting (ws_send x c) = reconnecting c" "reconnectAttempts (ws_send x c) = reconnectAttempts c"
  "reconnectTimer (ws_send x c) = reconnectTimer c" "joinedRooms (ws_send x c) = joinedRooms c"
  "pendingQueue (ws_send x c) = pendingQueue c" "live_timers (ws_send x c) = live_timers c"
  by (simp_all add: ws_send_def split: option.splits)

lemma socket_open_emit [simp]: "socket_open (emit_event ev d c) = socket_open c"
  by (simp add: socket_open_def split: option.split)

lemma socket_open_cong: "sockets d = sockets c \<Longrightarrow> ws d = ws c \<Longrightarrow> socket_open d = socket_open c"
  by (simp add: socket_open_def split: option.split)

lemma socket_open_fields [simp]:
  "socket_open (c\<lparr>joinedRooms := r\<rparr>) = socket_open c" "socket_open (c\<lparr>pendingQueue := q\<rparr>) = socket_open c"
  by (rule socket_open_cong; simp)+

lemma map_set_same: "map_get m k = Some v \<Longrightarrow> map_set k v m = m"
  by (induction m) (auto simp: map_get_def map_set_def split: if_splits)

text \<open>Sending on an open socket appends to what was sent there.\<close>

definition sent_more :: "nat \<Rightarrow> frame list \<Rightarrow> client \<Rightarrow> client" where
  "sent_more i xs c = update_socket i (\<lambda>s. s\<lparr>sk_sent := sk_sent s @ xs\<rparr>) c"

lemma sent_more_more: "i < length (sockets c) \<Longrightarrow> sent_more i ys (sent_more i xs c) = sent_more i (xs @ ys) c"
  by (simp add: sent_more_def update_socket_def)

lemma sent_more_Nil: "i < length (sockets c) \<Longrightarrow> sent_more i [] c = c"
  by (simp add: sent_more_def update_socket_def)

lemma sent_more_open:
  "ws c = Some i \<Longrightarrow> i < length (sockets c) \<Longrightarrow> socket_open (sent_more i xs c) = socket_open c"
  by (simp add: sent_more_def socket_open_def split: option.split)

lemma sent_more_frame [simp]:
  "ws (sent_more i xs c) = ws c" "joinedRooms (sent_more i xs c) = joinedRooms c"
  "pendingQueue (sent_more i xs c) = pendingQueue c" "live_timers (sent_more i xs c) = live_timers c"
  "reconnecting (sent_more i xs c) = reconnecting c" "length (sockets (sent_more i xs c)) = length (sockets c)"
  "reconnectAttempts (sent_more i xs c) = reconnectAttempts c" "listeners (sent_more i xs c) = listeners c"
  by (simp_all add: sent_more_def)

lemma ws_send_more: "ws c = Some i \<Longrightarrow> ws_send x c = sent_more i [x] c"
  by (simp add: ws_send_def sent_more_def)

lemma flush_loop_open:
  "ws c = Some i \<Longrightarrow> i < length (sockets c) \<Longrightarrow> socket_open c \<Longrightarrow>
     flush_loop q c = sent_more i (map (Msg \<circ> snd) q) c"
proof (induction q c rule: flush_loop.induct)
  case (2 room msg q c)
  then show ?case by (simp add: ws_send_more sent_more_open sent_more_more)
qed (simp add: sent_more_Nil)

lemma flush_loop_frame [simp]:
  "ws (flush_loop q c) = ws c" "joinedRooms (flush_loop q c) = joinedRooms c" "listeners (flush_loop q c) = listeners c"
  "pendingQueue (flush_loop q c) = pendingQueue c" "live_timers (flush_loop q c) = live_timers c"
  "reconnectAttempts (flush_loop q c) = reconnectAttempts c" "reconnecting (flush_loop q c) = reconnecting c"
  "length (sockets (flush_loop q c)) = length (sockets c)" "reconnectTimer (flush_loop q c) = reconnectTimer c"
  by (induction q c rule: flush_loop.induct) auto

text \<open>The messages of the rejoin loop.\<close>

fun join_messages :: "(nat \<Rightarrow> draws) \<Rightarrow> nat \<Rightarrow> (string, json option) jmap \<Rightarrow> message list" where
  "join_messages ds k [] = []"
| "join_messages ds k ((room, payload) # rooms) =
     make_message (ds k) ''join'' room payload [] # join_messages ds (Suc k) rooms"

lemma send_join_again:
  assumes "ws c = Some i" "i < length (sockets c)" "socket_open c" "map_get (joinedRooms c) room = Some payload"
  shows "fst (send d ''join'' room payload [] c) = sent_more i [Msg (make_message d ''join'' room payload [])] c"
proof -
  have "track_room ''join'' room payload (joinedRooms c) = Some (joinedRooms c)"
    using assms(4) by (simp add: track_room_def map_has_get map_set_same)
  then show ?thesis using assms(1-3) by (simp add: send_def ws_send_more)
qed

lemma rejoin_loop_open:
  "ws c = Some i \<Longrightarrow> i < length (sockets c) \<Longrightarrow> socket_open c \<Longrightarrow>
     \<forall>(r, p)\<in>set rooms. map_get (joinedRooms c) r = Some p \<Longrightarrow>
     rejoin_loop ds k rooms c = sent_more i (map Msg (join_messages ds k rooms)) c"
proof (induction ds k rooms c rule: rejoin_loop.induct)
  case (2 ds k room payload rooms c)
  then show ?case by (simp add: send_join_again sent_more_open sent_more_more)
qed (simp add: sent_more_Nil)

section \<open>Caps\<close>

definition client_inv :: "client \<Rightarrow> bool" where
  "client_inv c \<longleftrightarrow>
     map_ok (joinedRooms c) \<and> length (joinedRooms c) \<le> MAX_ROOMS \<and> length (pendingQueue c) \<le> MAX_PENDING
     \<and> reconnectAttempts c \<le> MAX_RECONNECT_ATTEMPTS \<and> map_ok (listeners c)
     \<and> (\<forall>i. ws c = Some i \<longrightarrow> i < length (sockets c))"

lemma track_room_ok:
  "map_ok rooms \<Longrightarrow> length rooms \<le> MAX_ROOMS \<Longrightarrow> track_room ty room p rooms = Some rooms' \<Longrightarrow>
     map_ok rooms' \<and> length rooms' \<le> MAX_ROOMS"
  using length_map_delete_le [of room rooms]
  by (auto simp: track_room_def length_map_set split: if_splits)

lemma client_inv_send: "client_inv c \<Longrightarrow> client_inv (fst (send d ty room p mid c))"
  using track_room_ok [of "joinedRooms c" ty room p]
  by (auto simp: send_def client_inv_def Let_def split: option.splits)

lemma client_inv_rejoin: "client_inv c \<Longrightarrow> client_inv (rejoin_loop ds k rooms c)"
  by (induction ds k rooms c rule: rejoin_loop.induct) (auto intro: client_inv_send)

lemma client_inv_onopen: "client_inv c \<Longrightarrow> client_inv (onopen ds i c)"
proof -
  assume inv: "client_inv c"
  let ?c2 = "emit_event ''open'' NoData ((update_socket i (\<lambda>s. s\<lparr>sk_settled := True\<rparr>) c)\<lparr>reconnectAttempts := 0\<rparr>)"
  have "client_inv ?c2" using inv by (simp add: client_inv_def)
  then have "client_inv ((rejoin_loop ds 0 (joinedRooms ?c2) ?c2)\<lparr>reconnecting := False\<rparr>)"
    using client_inv_rejoin [of ?c2 ds 0 "joinedRooms ?c2"] by (simp add: client_inv_def)
  with \<open>client_inv ?c2\<close> show ?thesis
    unfolding onopen_def Let_def flushQueue_def by (auto simp: client_inv_def)
qed

lemma client_inv_attempt: "client_inv c \<Longrightarrow> client_inv (attemptReconnect r c)"
  by (simp add: attemptReconnect_def client_inv_def Let_def)

lemma client_inv_step: "client_inv c \<Longrightarrow> client_inv (client_step c e)"
proof (cases e)
  case (SockOpen i ds)
  assume "client_inv c"
  then have "client_inv (update_socket i (\<lambda>s. s\<lparr>sk_state := OPEN\<rparr>) c)" by (simp add: client_inv_def)
  with SockOpen \<open>client_inv c\<close> client_inv_onopen show ?thesis by simp
next
  case (SockClose i r)
  assume inv: "client_inv c"
  let ?c = "emit_event ''close'' SocketEvent (update_socket i (\<lambda>s. s\<lparr>sk_state := CLOSED\<rparr>) c)"
  have "client_inv ?c" using inv by (simp add: client_inv_def)
  with SockClose inv client_inv_attempt show ?thesis by (simp add: onclose_def Let_def)
next
  case (CSend d ty room p mid)
  assume "client_inv c"
  with CSend client_inv_send show ?thesis by simp
qed (auto simp: client_inv_def connect_def disconnect_def clearReconnect_def sendRaw_def client_on_def client_off_def
    onerror_def onmessage_def Let_def less_Suc_eq split: option.splits json.splits if_splits)

interpretation client: event_machine client_step client_inv
  by unfold_locales (rule client_inv_step)

lemma client_inv_new: "client_inv new_client"
  by (simp add: client_inv_def new_client_def)

section \<open>Opening the current socket\<close>

definition opening_frames :: "(nat \<Rightarrow> draws) \<Rightarrow> client \<Rightarrow> frame list" where
  "opening_frames ds c =
     (if reconnecting c then map Msg (join_messages ds 0 (joinedRooms c)) else []) @ map (Msg \<circ> snd) (pendingQueue c)"

lemma onopen_current:
  assumes "ws c = Some i" "i < length (sockets c)" "sk_state (sockets c ! i) = OPEN" "map_ok (joinedRooms c)"
  shows "sockets (onopen ds i c) = (sockets c)[i := (sockets c ! i)\<lparr>sk_settled := True,
      sk_sent := sk_sent (sockets c ! i) @ opening_frames ds c, sk_promise := Resolved\<rparr>]"
    and "ws (onopen ds i c) = ws c" "pendingQueue (onopen ds i c) = []" "joinedRooms (onopen ds i c) = joinedRooms c"
    "live_timers (onopen ds i c) = live_timers c" "reconnectAttempts (onopen ds i c) = 0"
    "reconnecting (onopen ds i c) = (reconnecting c \<and> joinedRooms c = [])"
proof -
  define c2 where "c2 = emit_event ''open'' NoData ((update_socket i (\<lambda>s. s\<lparr>sk_settled := True\<rparr>) c)\<lparr>reconnectAttempts := 0\<rparr>)"
  have c2: "ws c2 = Some i" "i < length (sockets c2)" "socket_open c2" "joinedRooms c2 = joinedRooms c"
      "pendingQueue c2 = pendingQueue c" "live_timers c2 = live_timers c" "reconnectAttempts c2 = 0"
      "reconnecting c2 = reconnecting c" "sockets c2 = (sockets c)[i := (sockets c ! i)\<lparr>sk_settled := True\<rparr>]"
    using assms by (simp_all add: c2_def socket_open_def)
  have same: "\<forall>(r, p)\<in>set (joinedRooms c). map_get (joinedRooms c2) r = Some p"
    using assms(4) by (auto simp: c2 map_get_iff)
  define c3 where "c3 = (if reconnecting c2 \<and> joinedRooms c2 \<noteq> []
      then (rejoin_loop ds 0 (joinedRooms c2) c2)\<lparr>reconnecting := False\<rparr> else c2)"
  define joins where "joins = (if reconnecting c then map Msg (join_messages ds 0 (joinedRooms c)) else [])"
  have c3: "c3 = (sent_more i joins c2)\<lparr>reconnecting := reconnecting c \<and> joinedRooms c = []\<rparr>"
    using rejoin_loop_open [OF c2(1-3) same, of ds 0] sent_more_Nil [OF c2(2)] c2 by (simp add: c3_def joins_def)
  have "ws c3 = Some i" "i < length (sockets c3)" "socket_open c3"
    using c2 sent_more_open [OF c2(1,2), of joins] by (simp_all add: c3) (simp add: socket_open_def)
  from flush_loop_open [of "c3\<lparr>pendingQueue := []\<rparr>", of i "pendingQueue c3"] this
  have "flushQueue c3 = sent_more i (map (Msg \<circ> snd) (pendingQueue c)) (c3\<lparr>pendingQueue := []\<rparr>)"
    unfolding flushQueue_def by (simp add: socket_open_def) (simp add: c3 c2)
  moreover have "onopen ds i c = update_socket i (\<lambda>s. s\<lparr>sk_promise := Resolved\<rparr>) (flushQueue c3)"
    by (simp only: onopen_def Let_def c3_def c2_def)
  ultimately have run: "onopen ds i c = update_socket i (\<lambda>s. s\<lparr>sk_promise := Resolved\<rparr>)
      (sent_more i (map (Msg \<circ> snd) (pendingQueue c)) (c3\<lparr>pendingQueue := []\<rparr>))" by simp
  show "sockets (onopen ds i c) = (sockets c)[i := (sockets c ! i)\<lparr>sk_settled := True,
      sk_sent := sk_sent (sockets c ! i) @ opening_frames ds c, sk_promise := Resolved\<rparr>]"
    using assms(2) by (simp add: run c3 sent_more_def update_socket_def c2(9) opening_frames_def joins_def)
  show "ws (onopen ds i c) = ws c" "pendingQueue (onopen ds i c) = []" "joinedRooms (onopen ds i c) = joinedRooms c"
    "live_timers (onopen ds i c) = live_timers c" "reconnectAttempts (onopen ds i c) = 0"
    "reconnecting (onopen ds i c) = (reconnecting c \<and> joinedRooms c = [])"
    using assms(1) by (simp_all add: run c3 c2)
qed

section \<open>One connection at a time\<close>

text \<open>
  What the application does: it connects once, and the client reconnects by itself.
  Then only the last socket can be alive, and a reconnect timer only runs when it is
  closed.
\<close>

definition single_inv :: "client \<Rightarrow> bool" where
  "single_inv c \<longleftrightarrow>
     sockets c \<noteq> [] \<and> ws c = Some (length (sockets c) - 1)
     \<and> (\<forall>i<length (sockets c) - 1. sk_state (sockets c ! i) = CLOSED)
     \<and> (live_timers c = [] \<or> ((\<exists>t. live_timers c = [t]) \<and> sk_state (last (sockets c)) = CLOSED))
     \<and> (pendingQueue c = [] \<or> \<not> socket_open c) \<and> (\<forall>(r, m)\<in>set (pendingQueue c). queueable (m_type m))
     \<and> map_ok (joinedRooms c)"

fun chat_of :: "frame \<Rightarrow> message list" where
  "chat_of (Msg m) = (if queueable (m_type m) then [m] else [])"
| "chat_of (RawText s) = []"

text \<open>The chat and media messages that went over the wire, in order.\<close>

definition chat_out :: "client \<Rightarrow> message list" where
  "chat_out c = concat (map (\<lambda>s. concat (map chat_of (sk_sent s))) (sockets c))"

text \<open>The chat or media message that a step accepts: sent at once, or put into a queue with room.\<close>

fun accepts :: "client \<Rightarrow> client_event \<Rightarrow> message list" where
  "accepts c (CSend d ty room p mid) =
     (if queueable ty \<and> (socket_open c \<or> length (pendingQueue c) < MAX_PENDING)
      then [make_message d ty room p mid] else [])"
| "accepts c _ = []"

fun accepted :: "client \<Rightarrow> client_event list \<Rightarrow> message list" where
  "accepted c [] = []"
| "accepted c (e # es) = accepts c e @ accepted (client_step c e) es"

fun automatic :: "client_event \<Rightarrow> bool" where
  "automatic CConnect = False"
| "automatic CDisconnect = False"
| "automatic _ = True"

lemma chat_out_update:
  "i < length (sockets c) \<Longrightarrow> sk_sent (f (sockets c ! i)) = sk_sent (sockets c ! i) \<Longrightarrow>
     chat_out (update_socket i f c) = chat_out c"
  by (simp add: chat_out_def map_update) (metis (mono_tags, lifting) list_update_id nth_map length_map)

lemma chat_out_cong: "sockets c = sockets d \<Longrightarrow> chat_out c = chat_out d"
  by (simp add: chat_out_def)

lemma chat_out_last:
  assumes "sockets c \<noteq> []" "i = length (sockets c) - 1" "sk_sent s = sk_sent (sockets c ! i) @ xs"
    and "sockets d = (sockets c)[i := s]"
  shows "chat_out d = chat_out c @ concat (map chat_of xs)"
  using assms by (cases "sockets c" rule: rev_cases) (auto simp: chat_out_def nth_append list_update_append)

abbreviation history :: "client \<Rightarrow> message list" where
  "history c \<equiv> chat_out c @ map snd (pendingQueue c)"

text \<open>A step that leaves sockets, queue and timers alone keeps the invariant.\<close>

lemma single_frame:
  assumes "single_inv c" "sockets d = sockets c" "ws d = ws c" "live_timers d = live_timers c"
    "pendingQueue d = pendingQueue c" "map_ok (joinedRooms d)"
  shows "single_inv d \<and> history d = history c"
  using assms chat_out_cong [OF assms(2)] socket_open_cong [OF assms(2,3)] by (simp add: single_inv_def)

lemma single_sent:
  assumes "single_inv c" "socket_open c" "map_ok rooms"
  shows "single_inv (ws_send x (c\<lparr>joinedRooms := rooms\<rparr>))
    \<and> history (ws_send x (c\<lparr>joinedRooms := rooms\<rparr>)) = history c @ chat_of x"
proof -
  let ?i = "length (sockets c) - 1" and ?d = "ws_send x (c\<lparr>joinedRooms := rooms\<rparr>)"
  have c: "sockets c \<noteq> []" "ws c = Some ?i" "pendingQueue c = []" using assms(1,2) by (auto simp: single_inv_def)
  have d: "sockets ?d = (sockets c)[?i := (sockets c ! ?i)\<lparr>sk_sent := sk_sent (sockets c ! ?i) @ [x]\<rparr>]"
    using c by (simp add: ws_send_more sent_more_def)
  have "chat_out ?d = chat_out c @ concat (map chat_of [x])"
    by (rule chat_out_last [OF c(1) refl _ d]) simp
  moreover have "single_inv ?d"
    using assms c by (auto simp: single_inv_def d last_conv_nth)
  ultimately show ?thesis using c(3) by simp
qed

lemma single_send:
  assumes "single_inv c"
  shows "single_inv (fst (send d ty room p mid c))
    \<and> history (fst (send d ty room p mid c)) = history c @ accepts c (CSend d ty room p mid)"
proof (cases "track_room ty room p (joinedRooms c)")
  case None
  then have "ty = ''join''" by (auto simp: track_room_def split: if_splits)
  with None single_frame [OF assms, of "fst (send d ty room p mid c)"] assms show ?thesis
    by (simp add: send_def queueable_def single_inv_def)
next
  case (Some rooms)
  then have rooms: "map_ok rooms"
    using assms by (auto simp: track_room_def single_inv_def split: if_splits)
  let ?m = "make_message d ty room p mid"
  have ty: "m_type ?m = ty" by (simp add: make_message_def)
  show ?thesis
  proof (cases "socket_open c")
    case True
    with Some single_sent [OF assms True rooms, of "Msg ?m"] ty show ?thesis
      by (simp add: send_def socket_open_def split: option.splits)
  next
    case False
    define b where "b = c\<lparr>joinedRooms := rooms\<rparr>"
    have b: "single_inv b" "history b = history c" "\<not> socket_open b" "pendingQueue b = pendingQueue c"
      using single_frame [OF assms, of b] rooms False by (simp_all add: b_def)
    define b2 where "b2 = b\<lparr>pendingQueue := pendingQueue b @ [(room, ?m)]\<rparr>"
    have b2: "queueable ty \<Longrightarrow> single_inv b2" "history b2 = history c @ [?m]"
      using b ty by (auto simp: single_inv_def b2_def chat_out_def)
    have emit: "single_inv (emit_event ''queued'' q x) \<and> history (emit_event ''queued'' q x) = history x"
      if "single_inv x" for q x
      using that by (intro single_frame) (simp_all add: single_inv_def)
    show ?thesis
      using b b2 emit [of b] emit [of b2] Some False
      by (simp add: send_def Let_def flip: b_def) (simp add: b2_def)
  qed
qed

lemma single_last:
  assumes "single_inv c" "i < length (sockets c)" "sk_state (sockets c ! i) \<noteq> CLOSED"
  shows "i = length (sockets c) - 1" and "i < length (sockets c)"
proof -
  have "\<not> i < length (sockets c) - 1" using assms(1,3) by (auto simp: single_inv_def)
  then show "i = length (sockets c) - 1" using assms(2) by linarith
qed (rule assms(2))

lemma single_open:
  assumes "single_inv c" "socket_in c i {CONNECTING}"
  shows "single_inv (client_step c (SockOpen i ds)) \<and> history (client_step c (SockOpen i ds)) = history c"
proof -
  let ?d = "update_socket i (\<lambda>s. s\<lparr>sk_state := OPEN\<rparr>) c"
  have i: "i = length (sockets c) - 1" "i < length (sockets c)"
    by (rule single_last [OF assms(1)]; use assms(2) in \<open>auto simp: socket_in_def\<close>)+
  then have last: "last (sockets c) = sockets c ! i" using assms(1) by (simp add: single_inv_def last_conv_nth)
  then have live: "live_timers c = []" and cur: "ws c = Some i"
    using assms i(1) by (auto simp: single_inv_def socket_in_def)
  have d: "ws ?d = Some i" "i < length (sockets ?d)" "sk_state (sockets ?d ! i) = OPEN" "map_ok (joinedRooms ?d)"
    using i cur assms by (simp_all add: single_inv_def)
  note op = onopen_current [OF d, of ds]
  let ?e = "onopen ds i ?d"
  have e: "sockets ?e = (sockets c)[i := (sockets c ! i)\<lparr>sk_state := OPEN, sk_settled := True,
      sk_sent := sk_sent (sockets c ! i) @ opening_frames ds c, sk_promise := Resolved\<rparr>]"
    using i op(1) by (simp add: opening_frames_def)
  have joins: "concat (map chat_of (map Msg (join_messages ds k rooms))) = []" for k rooms
    by (induction ds k rooms rule: join_messages.induct) (simp_all add: make_message_def queueable_def)
  have queue: "concat (map chat_of (map (Msg \<circ> snd) q)) = map snd q" if "\<forall>(r, m)\<in>set q. queueable (m_type m)" for q
    using that by (induction q) auto
  have "\<forall>(r, m)\<in>set (pendingQueue c). queueable (m_type m)" using assms(1) by (simp add: single_inv_def)
  from queue [OF this] have frames: "concat (map chat_of (opening_frames ds c)) = map snd (pendingQueue c)"
    by (cases "reconnecting c")
      (simp_all only: opening_frames_def map_append concat_append joins if_True if_False append_Nil list.map concat.simps)
  have "chat_out ?e = chat_out c @ concat (map chat_of (opening_frames ds c))"
    by (rule chat_out_last [OF _ i(1) _ e]) (use assms in \<open>simp_all add: single_inv_def\<close>)
  moreover have "single_inv ?e"
    using assms i op live cur by (simp add: single_inv_def e last_conv_nth)
  ultimately show ?thesis
    using assms(2) op(3) frames by simp
qed

lemma single_close:
  assumes "single_inv c" "socket_in c i {CONNECTING, OPEN, CLOSING}"
  shows "single_inv (client_step c (SockClose i r)) \<and> history (client_step c (SockClose i r)) = history c"
proof -
  let ?d = "update_socket i (\<lambda>s. s\<lparr>sk_state := CLOSED\<rparr>) c"
  have i: "i = length (sockets c) - 1" "i < length (sockets c)"
    by (rule single_last [OF assms(1)]; use assms(2) in \<open>auto simp: socket_in_def\<close>)+
  then have last: "last (sockets c) = sockets c ! i" using assms(1) by (simp add: single_inv_def last_conv_nth)
  then have live: "live_timers c = []" using assms by (auto simp: single_inv_def socket_in_def)
  have out: "chat_out ?d = chat_out c" by (rule chat_out_update) (use i in simp_all)
  have "single_inv (attemptReconnect r (emit_event ''close'' SocketEvent ?d))"
    using assms(1) i live by (simp add: single_inv_def attemptReconnect_def Let_def socket_open_def last_conv_nth)
  moreover have "single_inv (emit_event ''close'' SocketEvent ?d)"
    using assms(1) i live by (simp add: single_inv_def socket_open_def last_conv_nth)
  moreover have "history (attemptReconnect r x) = history x" for x
    by (simp add: attemptReconnect_def Let_def chat_out_def)
  moreover have "history (emit_event ''close'' SocketEvent ?d) = history c"
    using out by (simp add: chat_out_def)
  ultimately show ?thesis using assms(2) by (simp add: onclose_def Let_def)
qed

lemma single_timer:
  assumes "single_inv c" "t \<in> set (live_timers c)"
  shows "single_inv (client_step c (CTimer t)) \<and> history (client_step c (CTimer t)) = history c"
proof -
  have live: "live_timers c = [t]" "sk_state (last (sockets c)) = CLOSED" using assms by (auto simp: single_inv_def)
  have closed: "sk_state (sockets c ! k) = CLOSED" if "k < length (sockets c)" for k
    using that assms(1) live(2) by (cases "k = length (sockets c) - 1") (auto simp: single_inv_def last_conv_nth)
  have "single_inv (connect (c\<lparr>live_timers := []\<rparr>))"
    using assms(1) closed by (simp add: single_inv_def connect_def socket_open_def nth_append)
  moreover have "history (connect (c\<lparr>live_timers := []\<rparr>)) = history c" by (simp add: connect_def chat_out_def)
  ultimately show ?thesis using live by simp
qed

lemma single_step:
  assumes "single_inv c" "automatic e"
  shows "single_inv (client_step c e) \<and> history (client_step c e) = history c @ accepts c e"
proof (cases e)
  case (CSend d ty room p mid)
  with single_send [OF assms(1), of d ty room p mid] show ?thesis by simp
next
  case (CSendRaw msg)
  have "c\<lparr>joinedRooms := joinedRooms c\<rparr> = c" by simp
  moreover have "map_ok (joinedRooms c)" using assms(1) by (simp add: single_inv_def)
  ultimately show ?thesis
    using CSendRaw assms(1) single_sent [OF assms(1), of "joinedRooms c" "RawText msg"] by (simp add: sendRaw_def)
next
  case (SockOpen i ds)
  with assms(1) single_open show ?thesis by (cases "socket_in c i {CONNECTING}") auto
next
  case (SockClose i r)
  with assms(1) single_close [OF assms(1), of i r] show ?thesis
    by (cases "socket_in c i {CONNECTING, OPEN, CLOSING}") (simp_all del: client_step.simps, simp)
next
  case (CTimer t)
  with assms(1) single_timer [OF assms(1), of t] show ?thesis
    by (cases "t \<in> set (live_timers c)") (simp_all del: client_step.simps, simp)
next
  case (SockError i)
  have "history (update_socket i (\<lambda>s. s\<lparr>sk_settled := True, sk_promise := Rejected\<rparr>) x) = history x
      \<and> single_inv (update_socket i (\<lambda>s. s\<lparr>sk_settled := True, sk_promise := Rejected\<rparr>) x)"
    if "single_inv x" "i < length (sockets x)" for x
    using that chat_out_update [of i x] by (auto simp: single_inv_def socket_open_def last_conv_nth nth_list_update split: option.splits)
  moreover have "single_inv (emit_event ''error'' SocketEvent c) \<and> history (emit_event ''error'' SocketEvent c) = history c"
    using assms(1) by (intro single_frame) (simp_all add: single_inv_def)
  ultimately show ?thesis
    using SockError assms(1) by (auto simp: onerror_def Let_def socket_in_def)
qed (use assms single_frame [OF assms(1), of "client_step c e"] in
  \<open>auto simp: client_on_def client_off_def onmessage_def Let_def single_inv_def split: option.splits json.splits\<close>)

lemma single_run:
  "single_inv c \<Longrightarrow> list_all automatic es \<Longrightarrow>
     single_inv (client_run c es) \<and> history (client_run c es) = history c @ accepted c es"
proof (induction es arbitrary: c)
  case (Cons e es)
  from single_step [OF Cons.prems(1), of e] Cons.prems(2) Cons.IH [of "client_step c e"]
  show ?case by simp
qed simp

lemma single_connect_new: "single_inv (connect new_client)"
  by (simp add: single_inv_def connect_def new_client_def socket_open_def)


lemma timer_send [simp]:
  "reconnectTimer (fst (send d ty room p mid c)) = reconnectTimer c"
  "live_timers (fst (send d ty room p mid c)) = live_timers c"
  by (simp_all add: send_def Let_def split: option.splits)

lemma timer_rejoin [simp]:
  "reconnectTimer (rejoin_loop ds k rooms c) = reconnectTimer c" "live_timers (rejoin_loop ds k rooms c) = live_timers c"
  by (induction ds k rooms c rule: rejoin_loop.induct) simp_all




section \<open>After a disconnect\<close>






section \<open>Socket states\<close>

definition advances :: "client \<Rightarrow> client \<Rightarrow> bool" where
  "advances c d \<longleftrightarrow> length (sockets c) \<le> length (sockets d)
     \<and> (\<forall>i<length (sockets c). sk_state (sockets c ! i) \<le> sk_state (sockets d ! i))"

lemma advances_refl [simp]: "sockets c = sockets d \<Longrightarrow> advances c d"
  by (simp add: advances_def)

lemma advances_trans: "advances c d \<Longrightarrow> advances d e \<Longrightarrow> advances c e"
  unfolding advances_def by (meson less_le_trans order_trans)

lemma advances_update: "(\<And>s. sk_state s \<le> sk_state (f s)) \<Longrightarrow> advances c (update_socket i f c)"
  by (cases "i < length (sockets c)") (simp_all add: advances_def nth_list_update)

lemma advances_update_at:
  "i < length (sockets c) \<Longrightarrow> sk_state (sockets c ! i) \<le> sk_state (f (sockets c ! i)) \<Longrightarrow> advances c (update_socket i f c)"
  by (simp add: advances_def nth_list_update)

lemma advances_ws_send: "advances c (ws_send x c)"
  by (auto simp: ws_send_def intro: advances_update split: option.splits)

lemma advances_send: "advances c (fst (send d ty room p mid c))"
  using advances_ws_send [of "c\<lparr>joinedRooms := r\<rparr>" for r]
  by (auto simp: send_def Let_def advances_def split: option.splits)

lemma advances_rejoin: "advances c (rejoin_loop ds k rooms c)"
  by (induction ds k rooms c rule: rejoin_loop.induct) (auto intro: advances_trans advances_send)

lemma advances_flush: "advances c (flush_loop q c)"
  by (induction q c rule: flush_loop.induct) (auto intro: advances_trans advances_ws_send)

lemma advances_fields:
  "advances c d \<Longrightarrow> sockets d' = sockets d \<Longrightarrow> advances c d'" by (simp add: advances_def)

lemma advances_onopen: "advances c (onopen ds i c)"
proof -
  let ?c2 = "emit_event ''open'' NoData ((update_socket i (\<lambda>s. s\<lparr>sk_settled := True\<rparr>) c)\<lparr>reconnectAttempts := 0\<rparr>)"
  let ?c3 = "if reconnecting ?c2 \<and> joinedRooms ?c2 \<noteq> [] then (rejoin_loop ds 0 (joinedRooms ?c2) ?c2)\<lparr>reconnecting := False\<rparr> else ?c2"
  have 1: "advances c ?c2"
    by (rule advances_fields [OF advances_update [of "\<lambda>s. s\<lparr>sk_settled := True\<rparr>"]]) simp_all
  have 2: "advances ?c2 ?c3"
    using advances_fields [OF advances_rejoin, of "(rejoin_loop ds 0 (joinedRooms ?c2) ?c2)\<lparr>reconnecting := False\<rparr>" ds 0 "joinedRooms ?c2" ?c2]
    by simp
  have 3: "advances ?c3 (flushQueue ?c3)"
    unfolding flushQueue_def using advances_flush [of "?c3\<lparr>pendingQueue := []\<rparr>" "pendingQueue ?c3"] by (simp add: advances_def)
  have 4: "advances (flushQueue ?c3) (update_socket i (\<lambda>s. s\<lparr>sk_promise := Resolved\<rparr>) (flushQueue ?c3))"
    by (rule advances_update) simp
  show ?thesis unfolding onopen_def Let_def by (rule advances_trans [OF advances_trans [OF advances_trans [OF 1 2] 3] 4])
qed

lemma ready_le: "CONNECTING \<le> s" "s \<le> CLOSED"
  by (cases s; simp add: less_eq_ready_state_def)+

lemma advances_step: "advances c (client_step c e)"
proof (cases e)
  case (SockOpen i ds)
  have "socket_in c i {CONNECTING} \<Longrightarrow> advances c (update_socket i (\<lambda>s. s\<lparr>sk_state := OPEN\<rparr>) c)"
    by (intro advances_update_at) (auto simp: socket_in_def ready_le)
  with SockOpen show ?thesis by (auto intro: advances_trans advances_onopen)
next
  case (SockClose i r)
  have "advances c (update_socket i (\<lambda>s. s\<lparr>sk_state := CLOSED\<rparr>) c)" by (rule advances_update) (simp add: ready_le)
  then have "advances c (onclose r i (update_socket i (\<lambda>s. s\<lparr>sk_state := CLOSED\<rparr>) c))"
    by (rule advances_fields) (simp add: onclose_def attemptReconnect_def Let_def)
  with SockClose show ?thesis by simp
next
  case CDisconnect
  have "advances c ((update_socket i close_socket d)\<lparr>ws := None\<rparr>)" if "sockets d = sockets c" for i d
    using that by (cases "i < length (sockets c)") (simp_all add: advances_def close_socket_def nth_list_update)
  moreover have "sockets (clearReconnect c) = sockets c" by (simp add: clearReconnect_def Let_def split: option.splits)
  ultimately show ?thesis
    using CDisconnect by (auto simp: disconnect_def Let_def intro: advances_fields split: option.splits)
next
  case (SockError i)
  have "advances c (onerror i c)"
    using advances_update [of "\<lambda>s. s\<lparr>sk_settled := True, sk_promise := Rejected\<rparr>" "emit_event ''error'' SocketEvent c" i]
    by (simp add: onerror_def Let_def advances_def)
  with SockError show ?thesis by simp
qed (auto simp: connect_def sendRaw_def client_on_def client_off_def onmessage_def Let_def advances_send
    intro: advances_ws_send split: option.splits json.splits,
    auto simp: advances_def nth_append nth_list_update)

lemma advances_run: "advances c (client_run c es)"
  by (induction es arbitrary: c) (auto intro: advances_trans advances_step)

section \<open>Properties\<close>

text \<open>
  C9: No chat or media message is lost, duplicated or reordered by the client. Once it
  has connected, along every run of sends, listener changes, messages and socket and
  timer events, including any number of failed and successful reconnections: the chat
  and media messages that went over the wire, over all sockets in turn, followed by
  those still queued, are exactly the messages that \<open>send\<close> accepted, in order.
\<close>

theorem chat_is_fifo_without_loss:
  assumes "list_all automatic es"
  shows "chat_out (client_run (connect new_client) es) @ map snd (pendingQueue (client_run (connect new_client) es)) =
    accepted (connect new_client) es"
  using single_run [OF single_connect_new assms] by (simp add: connect_def new_client_def chat_out_def)

text \<open>A run with a lost connection: one message goes out, two are queued and follow after the reconnect.\<close>

definition demo_draws :: "nat \<Rightarrow> draws" where
  "demo_draws k = \<lparr>d_id = show_nat k, d_msgId = show_nat k, d_now = 0\<rparr>"

definition demo_offline_run :: "client_event list" where
  "demo_offline_run =
     [SockOpen 0 demo_draws, CSend (demo_draws 1) ''join'' ''r'' None [], CSend (demo_draws 2) ''chat'' ''r'' None [],
      SockClose 0 0, CSend (demo_draws 3) ''chat'' ''r'' None [], CSend (demo_draws 4) ''media'' ''r'' None [],
      CTimer 1, SockOpen 1 demo_draws]"

theorem chat_is_fifo_without_loss_witness:
  "map m_id (chat_out (client_run (connect new_client) demo_offline_run)) = [show_nat 2, show_nat 3, show_nat 4]
   \<and> pendingQueue (client_run (connect new_client) demo_offline_run) = []"
proof -
  have "map m_id (accepted (connect new_client) demo_offline_run) = [show_nat 2, show_nat 3, show_nat 4]"
    "pendingQueue (client_run (connect new_client) demo_offline_run) = []"
    by (simp_all add: demo_offline_run_def demo_draws_def connect_def new_client_def socket_in_def onopen_def send_def
        onclose_def attemptReconnect_def flushQueue_def track_room_def queueable_def socket_open_def emit_event_def
        update_socket_def ws_send_def make_message_def map_get_def map_set_def map_delete_def map_has_def map_keys_def
        MAX_PENDING_def MAX_ROOMS_def MAX_RECONNECT_ATTEMPTS_def Let_def)
  moreover have "list_all automatic demo_offline_run" by (simp add: demo_offline_run_def)
  ultimately show ?thesis
    using chat_is_fifo_without_loss [of demo_offline_run] by (simp del: foldl.simps)
qed

text \<open>
  C40: When the current socket opens, exactly this goes over it: if the client is
  reconnecting, one join for every joined room, in the order they were joined and with
  their payloads, then the queued messages in order. The queue is then empty, the
  rooms are unchanged and the attempt counter is reset.
\<close>

theorem reopening_rejoins_then_flushes:
  assumes "ws c = Some i" and "socket_in c i {CONNECTING}" and "map_ok (joinedRooms c)"
  shows "let c' = client_step c (SockOpen i ds) in
    sk_sent (sockets c' ! i) = sk_sent (sockets c ! i)
      @ (if reconnecting c then map Msg (join_messages ds 0 (joinedRooms c)) else [])
      @ map (Msg \<circ> snd) (pendingQueue c)
    \<and> pendingQueue c' = [] \<and> joinedRooms c' = joinedRooms c \<and> reconnectAttempts c' = 0
    \<and> sk_promise (sockets c' ! i) = Resolved"
proof -
  let ?d = "update_socket i (\<lambda>s. s\<lparr>sk_state := OPEN\<rparr>) c"
  have i: "i < length (sockets c)" using assms(2) by (simp add: socket_in_def)
  have "ws ?d = Some i" "i < length (sockets ?d)" "sk_state (sockets ?d ! i) = OPEN" "map_ok (joinedRooms ?d)"
    using assms i by simp_all
  note op = onopen_current [OF this, of ds]
  show ?thesis using op assms(2) i by (simp add: Let_def opening_frames_def)
qed

theorem reopening_rejoins_then_flushes_witness:
  "\<exists>c ds. reconnecting c \<and> length (sk_sent (sockets (client_step c (SockOpen 1 ds)) ! 1)) = 3"
proof -
  define c where "c = client_run (connect new_client) (butlast demo_offline_run)"
  have c: "ws c = Some 1" "socket_in c 1 {CONNECTING}" "map_ok (joinedRooms c)" "reconnecting c"
    "length (joinedRooms c) = 1" "length (pendingQueue c) = 2" "sk_sent (sockets c ! 1) = []"
    by (simp_all add: c_def demo_offline_run_def demo_draws_def connect_def new_client_def socket_in_def onopen_def send_def
        onclose_def attemptReconnect_def flushQueue_def track_room_def queueable_def socket_open_def emit_event_def
        update_socket_def ws_send_def make_message_def map_get_def map_set_def map_delete_def map_has_def map_keys_def
        map_ok_def MAX_PENDING_def MAX_ROOMS_def MAX_RECONNECT_ATTEMPTS_def Let_def)
  have "length (join_messages ds k rooms) = length rooms" for ds k rooms
    by (induction ds k rooms rule: join_messages.induct) simp_all
  with reopening_rejoins_then_flushes [OF c(1-3), of demo_draws] c(4-7) show ?thesis
    by (intro exI [of _ c] exI [of _ demo_draws]) (simp add: Let_def)
qed

text \<open>
  The client's memory is bounded in every run, whatever the caller does: at most
  five rooms, 200 queued messages and 20 reconnection attempts in a row.
\<close>

theorem client_is_bounded:
  "length (joinedRooms (client_run new_client es)) \<le> 5 \<and> distinct (joined_room_names (client_run new_client es))
   \<and> length (pendingQueue (client_run new_client es)) \<le> 200 \<and> reconnectAttempts (client_run new_client es) \<le> 20"
proof -
  have "client_inv (client_run new_client es)" by (rule client.inv_run) (rule client_inv_new)
  then show ?thesis
    by (simp add: client_inv_def MAX_ROOMS_def MAX_PENDING_def MAX_RECONNECT_ATTEMPTS_def joined_room_names_def map_ok_def)
qed

text \<open>
  The delay before the \<open>k\<close>-th reconnection lies between the capped exponential
  base and one and a half times it, and never exceeds thirty seconds.
\<close>

theorem reconnect_delay_window:
  assumes "0 \<le> random" and "random < 1"
  shows "min (1000 * 2 ^ k) 30000 \<le> reconnect_delay random k
    \<and> reconnect_delay random k \<le> min (1.5 * min (1000 * 2 ^ k) 30000) 30000"
proof -
  define base :: real where "base = min (1000 * 2 ^ k) 30000"
  have base: "0 \<le> base" "base \<le> 30000" by (simp_all add: base_def)
  have "0 \<le> random * base * 0.5" using assms(1) base(1) by simp
  moreover have "random * base * 0.5 \<le> 0.5 * base" using mult_right_mono [of random 1 base] assms base(1) by simp
  ultimately show ?thesis
    using base unfolding reconnect_delay_def Let_def BASE_RECONNECT_DELAY_def MAX_RECONNECT_DELAY_def base_def [symmetric]
    by (simp add: min_def)
qed

theorem reconnect_delay_window_witness: "2000 \<le> reconnect_delay (1/2) 1 \<and> reconnect_delay (1/2) 1 \<le> 3000"
  using reconnect_delay_window [of "1/2" 1] by simp



text \<open>
  A socket's ready state never moves backwards, in any run: connecting, open,
  closing, closed; and no socket is ever forgotten.
\<close>

theorem socket_states_advance:
  "i < length (sockets c) \<Longrightarrow>
     i < length (sockets (client_run c es)) \<and> sk_state (sockets c ! i) \<le> sk_state (sockets (client_run c es) ! i)"
  using advances_run [of c es] by (auto simp: advances_def)

theorem socket_states_advance_witness:
  "OPEN \<le> sk_state (sockets (client_run (client_step (connect new_client) (SockOpen 0 demo_draws)) [CDisconnect, SockOpen 0 demo_draws]) ! 0)"
proof -
  have c: "0 < length (sockets (client_step (connect new_client) (SockOpen 0 demo_draws)))"
    "sk_state (sockets (client_step (connect new_client) (SockOpen 0 demo_draws)) ! 0) = OPEN"
    by (simp_all add: connect_def new_client_def socket_in_def onopen_def flushQueue_def emit_event_def update_socket_def map_get_def Let_def)
  from socket_states_advance [OF c(1), of "[CDisconnect, SockOpen 0 demo_draws]"] show ?thesis unfolding c(2) by blast
qed

end
