(* ===== verification/RoomManager.thy ===== *)
theory RoomManager
  imports Crypto
begin

text \<open>
  The rooms of the user interface (\<^verbatim>\<open>apps/trapchat/src/hooks/useRoomManager.js\<close>): the map of
  room states, the references to keys, salts and passphrases, share links, and the
  object URLs of received media.

  A call of \<open>setRooms\<close> runs its updater at once; \<open>rooms_rev\<close> counts the calls that
  return a new \<open>Map\<close>, which is what React compares. A \<open>Render\<close> step runs the effects
  whose dependencies have changed since the last one. The texts shown as the time of a
  message are left out.
\<close>

definition MAX_MESSAGES :: nat where "MAX_MESSAGES = 500"
definition MAX_ROOM_NAME_LEN :: nat where "MAX_ROOM_NAME_LEN = 64"
definition MAX_UI_ROOMS :: nat where "MAX_UI_ROOMS = 5"
definition MAX_TEXT_LENGTH :: nat where "MAX_TEXT_LENGTH = 50000"

section \<open>Room states\<close>

record media_info =
  mi_url :: string
  mi_mimeType :: "json option"
  mi_fileName :: "json option"
  mi_fileSize :: "json option"

record chat_msg =
  cm_id :: json
  cm_text :: string
  cm_own :: bool
  cm_error :: bool
  cm_system :: bool
  cm_p2p :: bool
  cm_queued :: bool
  cm_sender :: "json option"
  cm_nickname :: string
  cm_media :: "media_info option"

text \<open>A message with the fields that most of the code leaves out missing; \<open>uuid\<close> is the id drawn for it.\<close>

definition app_msg :: "string \<Rightarrow> string \<Rightarrow> chat_msg" where
  "app_msg uuid text =
     \<lparr>cm_id = JStr uuid, cm_text = text, cm_own = False, cm_error = False, cm_system = False, cm_p2p = False,
      cm_queued = False, cm_sender = None, cm_nickname = [], cm_media = None\<rparr>"

record room_state =
  r_messages :: "chat_msg list"
  r_input :: string
  r_expiresAt :: "json option"
  r_peerCount :: json
  r_peerNicknames :: json
  r_receipts :: "(string, json) jmap"
  r_isP2P :: bool
  r_shareLink :: string
  r_copied :: bool
  r_showQR :: bool
  r_qrDataURL :: string
  r_unread :: nat
  r_salt :: "json option"

definition defaultRoomState :: room_state where
  "defaultRoomState =
     \<lparr>r_messages = [], r_input = [], r_expiresAt = Some JNull, r_peerCount = JNum 0, r_peerNicknames = JObj [],
      r_receipts = [], r_isP2P = False, r_shareLink = [], r_copied = False, r_showQR = False, r_qrDataURL = [],
      r_unread = 0, r_salt = None\<rparr>"

type_synonym room_map = "(string, room_state) jmap"

text \<open>An entry of \<open>keyRefs\<close>: the text of a key from the URL fragment, or a key.\<close>

datatype 'k key_ref = Fragment string | Key 'k

record 'k room_manager =
  rooms :: room_map
  rooms_rev :: nat
  roomsRef :: room_map
  activeRoom :: string
  activeRoomRef :: string
  view :: string
  status :: string
  keyRefs :: "(string, 'k key_ref) jmap"
  activeKeyRef :: "'k key_ref option"
  saltRefs :: "(string, byte list) jmap"
  passphraseRefs :: "(string, string) jmap"
  effect_deps :: "nat \<times> string"
  qr_deps :: "string \<times> string"
  qr_job :: "string option"
  copy_calls :: "string list"
  copied_timers :: "string list"
  revoked :: "string list"
  fragment_cleared :: bool

definition new_room_manager :: "'k room_manager" where
  "new_room_manager =
     \<lparr>rooms = [], rooms_rev = 0, roomsRef = [], activeRoom = [], activeRoomRef = [], view = ''join'',
      status = ''disconnected'', keyRefs = [], activeKeyRef = None, saltRefs = [], passphraseRefs = [],
      effect_deps = (0, []), qr_deps = ([], []), qr_job = None, copy_calls = [], copied_timers = [], revoked = [],
      fragment_cleared = False\<rparr>"

text \<open>\<open>setRooms(updater)\<close>; an updater that returns \<open>prev\<close> itself is \<open>None\<close>.\<close>

definition setRooms :: "(room_map \<Rightarrow> room_map option) \<Rightarrow> 'k room_manager \<Rightarrow> 'k room_manager" where
  "setRooms f m = (case f (rooms m) of None \<Rightarrow> m | Some next \<Rightarrow> m\<lparr>rooms := next, rooms_rev := Suc (rooms_rev m)\<rparr>)"

definition getRoomState :: "'k room_manager \<Rightarrow> string \<Rightarrow> room_state" where
  "getRoomState m room = (case map_get (rooms m) room of None \<Rightarrow> defaultRoomState | Some s \<Rightarrow> s)"

definition updateRoomState :: "string \<Rightarrow> (room_state \<Rightarrow> room_state) \<Rightarrow> 'k room_manager \<Rightarrow> 'k room_manager" where
  "updateRoomState room updater =
     setRooms (\<lambda>prev.
       let current = (case map_get prev room of None \<Rightarrow> defaultRoomState | Some s \<Rightarrow> s)
       in Some (map_set room (updater current) prev))"

section \<open>Messages\<close>

definition blob_url :: "chat_msg \<Rightarrow> string option" where
  "blob_url msg =
     (case cm_media msg of
        None \<Rightarrow> None
      | Some mi \<Rightarrow> if mi_url mi \<noteq> [] \<and> js_startsWith (mi_url mi) ''blob:'' then Some (mi_url mi) else None)"

definition blob_urls :: "chat_msg list \<Rightarrow> string list" where
  "blob_urls msgs = List.map_filter blob_url msgs"

text \<open>The messages that \<open>appendMessageToRoom\<close> evicts, and those it keeps.\<close>

definition evicted_messages :: "chat_msg list \<Rightarrow> chat_msg list" where
  "evicted_messages messages =
     (if MAX_MESSAGES < length messages then take (length messages - MAX_MESSAGES) messages else [])"

definition kept_messages :: "chat_msg list \<Rightarrow> chat_msg list" where
  "kept_messages messages =
     (if MAX_MESSAGES < length messages then drop (length messages - MAX_MESSAGES) messages else messages)"

definition appendMessageToRoom :: "string \<Rightarrow> chat_msg \<Rightarrow> 'k room_manager \<Rightarrow> 'k room_manager" where
  "appendMessageToRoom room msg m =
     (case map_get (rooms m) room of
        None \<Rightarrow> m
      | Some current \<Rightarrow>
          let messages = r_messages current @ [msg];
              m1 = m\<lparr>revoked := revoked m @ blob_urls (evicted_messages messages)\<rparr>;
              unread = (if room \<noteq> activeRoomRef m1 then r_unread current + 1 else r_unread current)
          in setRooms (\<lambda>prev. Some (map_set room
               (current\<lparr>r_messages := kept_messages messages, r_unread := unread\<rparr>) prev)) m1)"

definition removeRoom :: "string \<Rightarrow> 'k room_manager \<Rightarrow> 'k room_manager" where
  "removeRoom room m =
     (let m1 = m\<lparr>keyRefs := map_delete room (keyRefs m), saltRefs := map_delete room (saltRefs m),
                 passphraseRefs := map_delete room (passphraseRefs m)\<rparr>;
          m2 = (case map_get (rooms m1) room of
                  None \<Rightarrow> m1
                | Some current \<Rightarrow> m1\<lparr>revoked := revoked m1 @ blob_urls (r_messages current)\<rparr>)
      in setRooms (\<lambda>prev. Some (map_delete room prev)) m2)"

definition setActiveRoom :: "string \<Rightarrow> 'k room_manager \<Rightarrow> 'k room_manager" where
  "setActiveRoom room m = m\<lparr>activeRoom := room\<rparr>"

definition switchRoom :: "string \<Rightarrow> 'k room_manager \<Rightarrow> 'k room_manager" where
  "switchRoom room m =
     (let m1 = updateRoomState room (\<lambda>s. s\<lparr>r_unread := 0\<rparr>) (setActiveRoom room m)
      in m1\<lparr>activeKeyRef := map_get (keyRefs m1) room\<rparr>)"

section \<open>Effects\<close>

text \<open>The effects of a render: references, then the current key, then the QR code of the share link.\<close>

definition sync_refs :: "'k room_manager \<Rightarrow> 'k room_manager" where
  "sync_refs m = m\<lparr>roomsRef := rooms m, activeRoomRef := activeRoom m\<rparr>"

definition sync_active_key :: "'k room_manager \<Rightarrow> 'k room_manager" where
  "sync_active_key m =
     (if effect_deps m = (rooms_rev m, activeRoom m) then m
      else m\<lparr>activeKeyRef := map_get (keyRefs m) (activeRoom m), effect_deps := (rooms_rev m, activeRoom m)\<rparr>)"

definition start_qr :: "'k room_manager \<Rightarrow> 'k room_manager" where
  "start_qr m =
     (let link = r_shareLink (getRoomState m (activeRoom m)) in
      if qr_deps m = (link, activeRoom m) then m
      else m\<lparr>qr_deps := (link, activeRoom m), qr_job := (if link = [] then None else Some (activeRoom m))\<rparr>)"

definition render :: "'k room_manager \<Rightarrow> 'k room_manager" where
  "render m = start_qr (sync_active_key (sync_refs m))"

text \<open>\<open>QRCode.toDataURL\<close> has finished; a cancelled job has no effect.\<close>

definition qr_done :: "string option \<Rightarrow> 'k room_manager \<Rightarrow> 'k room_manager" where
  "qr_done url m =
     (case qr_job m of
        None \<Rightarrow> m
      | Some room \<Rightarrow>
          (updateRoomState room (\<lambda>s. s\<lparr>r_qrDataURL := (case url of Some u \<Rightarrow> u | None \<Rightarrow> [])\<rparr>) m)\<lparr>qr_job := None\<rparr>)"

text \<open>
  Both ways of copying end, once the clipboard has answered, by showing it for two
  seconds in the room that was active at the call.
\<close>

definition copyShareLink :: "'k room_manager \<Rightarrow> 'k room_manager" where
  "copyShareLink m =
     (case map_get (rooms m) (activeRoom m) of
        None \<Rightarrow> m
      | Some s \<Rightarrow> if r_shareLink s = [] then m else m\<lparr>copy_calls := copy_calls m @ [activeRoom m]\<rparr>)"

definition drop_nth :: "nat \<Rightarrow> 'a list \<Rightarrow> 'a list" where
  "drop_nth i xs = take i xs @ drop (Suc i) xs"

definition copy_settles :: "nat \<Rightarrow> 'k room_manager \<Rightarrow> 'k room_manager" where
  "copy_settles i m =
     (if i < length (copy_calls m)
      then let room = copy_calls m ! i;
               m1 = updateRoomState room (\<lambda>s. s\<lparr>r_copied := True\<rparr>) (m\<lparr>copy_calls := drop_nth i (copy_calls m)\<rparr>)
           in m1\<lparr>copied_timers := copied_timers m1 @ [room]\<rparr>
      else m)"

definition copied_expires :: "nat \<Rightarrow> 'k room_manager \<Rightarrow> 'k room_manager" where
  "copied_expires i m =
     (if i < length (copied_timers m)
      then updateRoomState (copied_timers m ! i) (\<lambda>s. s\<lparr>r_copied := False\<rparr>)
             (m\<lparr>copied_timers := drop_nth i (copied_timers m)\<rparr>)
      else m)"

section \<open>Keys and share links\<close>

text \<open>\<open>decodeURIComponent\<close>: percent escapes become bytes; the result must be well-formed UTF-8.\<close>

fun percent_decode :: "string \<Rightarrow> string option" where
  "percent_decode [] = Some []"
| "percent_decode (c # r) =
     (if c = CHR ''%'' then
        (case r of
           h # l # r' \<Rightarrow>
             (case (hex_value h, hex_value l) of
                (Some x, Some y) \<Rightarrow> map_option (Cons (char_of (x * 16 + y))) (percent_decode r')
              | _ \<Rightarrow> None)
         | _ \<Rightarrow> None)
      else map_option (Cons c) (percent_decode r))"

definition decodeURIComponent :: "string \<Rightarrow> js_error + string" where
  "decodeURIComponent s =
     (case percent_decode s of
        None \<Rightarrow> Inl (ErrorMsg ''URI malformed'')
      | Some t \<Rightarrow> if utf8_decode 0 0 0 [] (text_encode t) = t then Inr t else Inl (ErrorMsg ''URI malformed''))"

text \<open>The URL fragment after \<open>#\<close>: a room name and a key, on mount.\<close>

definition read_fragment :: "string \<Rightarrow> 'k room_manager \<Rightarrow> js_error + 'k room_manager" where
  "read_fragment hash m =
     (if CHR ''/'' \<notin> set hash then Inr m
      else case take 2 (js_split (CHR ''/'') hash) of
        [roomName, keyFragment] \<Rightarrow>
          if roomName \<noteq> [] \<and> keyFragment \<noteq> []
          then bind (decodeURIComponent roomName)
                 (\<lambda>room. Inr (m\<lparr>keyRefs := map_set room (Fragment keyFragment) (keyRefs m)\<rparr>))
          else Inr m
      | _ \<Rightarrow> Inr m)"

text \<open>\<open>page\<close> is \<open>window.location.origin + window.location.pathname\<close>.\<close>

definition share_link :: "string \<Rightarrow> string \<Rightarrow> string \<Rightarrow> string" where
  "share_link page room exported = page @ ''#'' @ encodeURIComponent room @ ''/'' @ exported"

text \<open>The key and the link of \<open>setupRoomKey\<close>, for a link that the branch taken has not made itself.\<close>

definition finish_setup :: "'k webcrypto \<Rightarrow> string \<Rightarrow> string \<Rightarrow> 'k key_ref \<Rightarrow> 'k key_ref \<times> string" where
  "finish_setup P page room key =
     (case key of
        Fragment s \<Rightarrow> (key, share_link page room [])
      | Key k \<Rightarrow>
          (case exportKey P k of
             Inr exported \<Rightarrow> (key, share_link page room exported)
           | Inl _ \<Rightarrow> (key, share_link page room [])))"

text \<open>
  \<open>setupRoomKey\<close> up to its first \<open>await\<close>, and on from each: the import of a key from a link, the
  derivation from a passphrase, the generation of a new key, the export for the link (of a new
  key, or of one that was there). \<open>roomSalt\<close> and \<open>fresh\<close> are what the platform's generators
  return.
\<close>

datatype 'k setup_wait =
    ImportWait string
  | DeriveWait string "byte list"
  | GenerateWait
  | ExportWait 'k bool

definition setup_begin ::
  "byte list \<Rightarrow> string \<Rightarrow> string \<Rightarrow> 'k room_manager \<Rightarrow> 'k room_manager \<times> 'k setup_wait" where
  "setup_begin roomSalt room passphrase m =
     (case map_get (keyRefs m) room of
        Some (Fragment (c # cs)) \<Rightarrow> (m, ImportWait (c # cs))
      | existing \<Rightarrow>
          if js_trim passphrase \<noteq> [] then
            (m\<lparr>saltRefs := map_set room roomSalt (saltRefs m), passphraseRefs := map_set room passphrase (passphraseRefs m)\<rparr>,
             DeriveWait passphrase roomSalt)
          else case existing of
            Some (Key k) \<Rightarrow> (m, ExportWait k False)
          | _ \<Rightarrow> (m, GenerateWait))"

fun setup_resume ::
  "'k webcrypto \<Rightarrow> string \<Rightarrow> js_error + 'k \<Rightarrow> string \<Rightarrow> 'k setup_wait \<Rightarrow> 'k room_manager
     \<Rightarrow> 'k room_manager \<times> ('k setup_wait + (js_error + ('k key_ref \<times> string)))" where
  "setup_resume P page fresh room (ImportWait s) m =
     (case importKey P s of
        Inl e \<Rightarrow> (m, Inr (Inl e))
      | Inr key \<Rightarrow> (m\<lparr>keyRefs := map_set room (Key key) (keyRefs m), fragment_cleared := True\<rparr>, Inl (ExportWait key False)))"
| "setup_resume P page fresh room (DeriveWait passphrase roomSalt) m =
     (case deriveRoomKey P room passphrase (Some roomSalt) of
        Inl e \<Rightarrow> (m, Inr (Inl e))
      | Inr key \<Rightarrow> (m\<lparr>keyRefs := map_set room (Key key) (keyRefs m)\<rparr>, Inr (Inr (Key key, share_link page room []))))"
| "setup_resume P page fresh room GenerateWait m =
     (case fresh of
        Inl e \<Rightarrow> (m, Inr (Inl e))
      | Inr key \<Rightarrow> (m\<lparr>keyRefs := map_set room (Key key) (keyRefs m)\<rparr>, Inl (ExportWait key True)))"
| "setup_resume P page fresh room (ExportWait key generated) m =
     (if generated then
        (case exportKey P key of
           Inl e \<Rightarrow> (m, Inr (Inl e))
         | Inr exported \<Rightarrow> (m\<lparr>fragment_cleared := True\<rparr>, Inr (Inr (Key key, share_link page room exported))))
      else (m, Inr (Inr (finish_setup P page room (Key key)))))"

text \<open>The whole of \<open>setupRoomKey\<close>, when nothing runs in between.\<close>

definition setupRoomKey ::
  "'k webcrypto \<Rightarrow> string \<Rightarrow> byte list \<Rightarrow> js_error + 'k \<Rightarrow> string \<Rightarrow> string \<Rightarrow> 'k room_manager
     \<Rightarrow> 'k room_manager \<times> (js_error + ('k key_ref \<times> string))" where
  "setupRoomKey P page roomSalt fresh room passphrase m =
     (case map_get (keyRefs m) room of
        Some (Fragment (c # cs)) \<Rightarrow>
          (case importKey P (c # cs) of
             Inl e \<Rightarrow> (m, Inl e)
           | Inr key \<Rightarrow>
               (m\<lparr>keyRefs := map_set room (Key key) (keyRefs m), fragment_cleared := True\<rparr>,
                Inr (finish_setup P page room (Key key))))
      | existing \<Rightarrow>
          if js_trim passphrase \<noteq> [] then
            (let m1 = m\<lparr>saltRefs := map_set room roomSalt (saltRefs m),
                        passphraseRefs := map_set room passphrase (passphraseRefs m)\<rparr>
             in case deriveRoomKey P room passphrase (Some roomSalt) of
                  Inl e \<Rightarrow> (m1, Inl e)
                | Inr key \<Rightarrow>
                    (m1\<lparr>keyRefs := map_set room (Key key) (keyRefs m1)\<rparr>,
                     Inr (Key key, share_link page room [])))
          else case existing of
            Some (Key k) \<Rightarrow> (m, Inr (finish_setup P page room (Key k)))
          | _ \<Rightarrow>
              (case fresh of
                 Inl e \<Rightarrow> (m, Inl e)
               | Inr key \<Rightarrow>
                   (let m1 = m\<lparr>keyRefs := map_set room (Key key) (keyRefs m)\<rparr> in
                    case exportKey P key of
                      Inl e \<Rightarrow> (m1, Inl e)
                    | Inr exported \<Rightarrow>
                        (m1\<lparr>fragment_cleared := True\<rparr>, Inr (Key key, share_link page room exported)))))"

section \<open>Steps\<close>

text \<open>
  A patch is an update of a room that leaves its messages alone, as every caller of
  \<open>updateRoomState\<close> and \<open>setRooms\<close> outside this file makes it; the flag asks for an
  existing room.
\<close>

datatype 'k room_event =
    RmAppend string chat_msg
  | RmPatch bool string "room_state \<Rightarrow> room_state"
  | RmRemove string
  | RmSwitch string
  | RmSetActive string
  | RmRender
  | RmQr "string option"
  | RmCopy
  | RmCopyDone nat
  | RmCopiedTimer nat
  | RmFragment string
  | RmSetup "'k webcrypto" string "byte list" "js_error + 'k" string string

definition keeping_messages :: "(room_state \<Rightarrow> room_state) \<Rightarrow> room_state \<Rightarrow> room_state" where
  "keeping_messages f s = (f s)\<lparr>r_messages := r_messages s\<rparr>"

definition patch_room :: "bool \<Rightarrow> string \<Rightarrow> (room_state \<Rightarrow> room_state) \<Rightarrow> 'k room_manager \<Rightarrow> 'k room_manager" where
  "patch_room existing room f m =
     (if existing \<and> \<not> map_has (rooms m) room then m else updateRoomState room (keeping_messages f) m)"

fun room_step :: "'k room_manager \<Rightarrow> 'k room_event \<Rightarrow> 'k room_manager" where
  "room_step m (RmAppend room msg) = appendMessageToRoom room msg m"
| "room_step m (RmPatch existing room f) = patch_room existing room f m"
| "room_step m (RmRemove room) = removeRoom room m"
| "room_step m (RmSwitch room) = switchRoom room m"
| "room_step m (RmSetActive room) = setActiveRoom room m"
| "room_step m RmRender = render m"
| "room_step m (RmQr url) = qr_done url m"
| "room_step m RmCopy = copyShareLink m"
| "room_step m (RmCopyDone i) = copy_settles i m"
| "room_step m (RmCopiedTimer i) = copied_expires i m"
| "room_step m (RmFragment hash) = (case read_fragment hash m of Inl _ \<Rightarrow> m | Inr m' \<Rightarrow> m')"
| "room_step m (RmSetup P page salt fresh room pass) = fst (setupRoomKey P page salt fresh room pass m)"

abbreviation room_run :: "'k room_manager \<Rightarrow> 'k room_event list \<Rightarrow> 'k room_manager" where
  "room_run \<equiv> foldl room_step"

section \<open>Frame rules\<close>

lemma setRooms_frame [simp]:
  "revoked (setRooms f m) = revoked m" "keyRefs (setRooms f m) = keyRefs m" "activeRoom (setRooms f m) = activeRoom m"
  "activeRoomRef (setRooms f m) = activeRoomRef m" "activeKeyRef (setRooms f m) = activeKeyRef m"
  "saltRefs (setRooms f m) = saltRefs m" "passphraseRefs (setRooms f m) = passphraseRefs m"
  "roomsRef (setRooms f m) = roomsRef m" "status (setRooms f m) = status m" "view (setRooms f m) = view m"
  by (simp_all add: setRooms_def split: option.split)

lemma rooms_setRooms: "rooms (setRooms f m) = (case f (rooms m) of None \<Rightarrow> rooms m | Some n \<Rightarrow> n)"
  by (simp add: setRooms_def split: option.split)

lemma updateRoomState_frame [simp]:
  "revoked (updateRoomState r f m) = revoked m" "keyRefs (updateRoomState r f m) = keyRefs m"
  "activeRoom (updateRoomState r f m) = activeRoom m" "activeRoomRef (updateRoomState r f m) = activeRoomRef m"
  "activeKeyRef (updateRoomState r f m) = activeKeyRef m" "saltRefs (updateRoomState r f m) = saltRefs m"
  "passphraseRefs (updateRoomState r f m) = passphraseRefs m" "status (updateRoomState r f m) = status m"
  by (simp_all add: updateRoomState_def)

lemma rooms_update: "rooms (updateRoomState r f m) = map_set r (f (getRoomState m r)) (rooms m)"
  by (simp add: updateRoomState_def rooms_setRooms getRoomState_def Let_def)

lemma render_frame [simp]:
  "rooms (render m) = rooms m" "revoked (render m) = revoked m" "keyRefs (render m) = keyRefs m"
  "activeRoom (render m) = activeRoom m" "activeRoomRef (render m) = activeRoom m" "rooms_rev (render m) = rooms_rev m"
  "saltRefs (render m) = saltRefs m" "passphraseRefs (render m) = passphraseRefs m"
  by (simp_all add: render_def start_qr_def sync_active_key_def sync_refs_def Let_def)

lemma setup_frame [simp]:
  "rooms (fst (setupRoomKey P page salt fresh room pass m)) = rooms m"
  "revoked (fst (setupRoomKey P page salt fresh room pass m)) = revoked m"
  by (auto simp: setupRoomKey_def Let_def split: option.split key_ref.split list.split sum.split)

lemma setup_begin_frame [simp]:
  "rooms (fst (setup_begin salt room pass m)) = rooms m" "keyRefs (fst (setup_begin salt room pass m)) = keyRefs m"
  by (auto simp: setup_begin_def split: option.split key_ref.split list.split)

lemma setup_resume_frame [simp]: "rooms (fst (setup_resume P page fresh room w m)) = rooms m"
  by (cases w) (auto split: sum.split)

text \<open>Uninterrupted, the steps give what \<open>setupRoomKey\<close> returns, after one or two of them.\<close>

lemma setup_steps:
  assumes "setup_begin salt room pass m = (m1, w)"
  shows "setupRoomKey P page salt fresh room pass m =
    (case setup_resume P page fresh room w m1 of
       (m2, Inr r) \<Rightarrow> (m2, r)
     | (m2, Inl w2) \<Rightarrow> (case setup_resume P page fresh room w2 m2 of (m3, Inr r) \<Rightarrow> (m3, r) | (m3, Inl w3) \<Rightarrow> undefined))"
  using assms
  by (auto simp: setupRoomKey_def setup_begin_def Let_def split: option.splits key_ref.splits list.splits sum.splits if_splits)

lemma fragment_frame: "read_fragment hash m = Inr m' \<Longrightarrow> rooms m' = rooms m \<and> revoked m' = revoked m"
  by (auto simp: read_fragment_def bind_Inr split: if_splits list.splits)

section \<open>Messages and object URLs\<close>

lemma evicted_kept: "evicted_messages ms @ kept_messages ms = ms"
  by (simp add: evicted_messages_def kept_messages_def)

lemma blob_urls_append: "blob_urls (xs @ ys) = blob_urls xs @ blob_urls ys"
  by (simp add: blob_urls_def map_filter_def)

lemma blob_urls_split: "mset (blob_urls (evicted_messages ms)) + mset (blob_urls (kept_messages ms)) = mset (blob_urls ms)"
  by (simp flip: mset_append blob_urls_append add: evicted_kept)

definition held_urls :: "'k room_manager \<Rightarrow> string multiset" where
  "held_urls m = map_sum (\<lambda>s. mset (blob_urls (r_messages s))) (rooms m)"

definition url_balance :: "'k room_manager \<Rightarrow> string multiset" where
  "url_balance m = mset (revoked m) + held_urls m"

definition url_in :: "'k room_manager \<Rightarrow> 'k room_event \<Rightarrow> string multiset" where
  "url_in m e =
     (case e of
        RmAppend room msg \<Rightarrow> if map_has (rooms m) room then mset (blob_urls [msg]) else {#}
      | _ \<Rightarrow> {#})"

text \<open>Rooms are kept once each, with at most \<open>MAX_MESSAGES\<close> messages.\<close>

definition rooms_ok :: "'k room_manager \<Rightarrow> bool" where
  "rooms_ok m \<longleftrightarrow> map_ok (rooms m) \<and> (\<forall>x\<in>set (rooms m). length (r_messages (snd x)) \<le> MAX_MESSAGES)"

lemma set_map_set: "set (map_set k v m) \<subseteq> insert (k, v) (set m)"
  by (induction m) (auto simp: map_set_def)

lemma rooms_ok_set:
  "rooms_ok m \<Longrightarrow> length (r_messages s) \<le> MAX_MESSAGES \<Longrightarrow> rooms m' = map_set k s (rooms m) \<Longrightarrow> rooms_ok m'"
  using set_map_set [of k s "rooms m"] by (auto simp: rooms_ok_def)

lemma rooms_ok_cong: "rooms_ok m \<Longrightarrow> rooms m' = rooms m \<Longrightarrow> rooms_ok m'"
  by (simp add: rooms_ok_def)

lemma rooms_ok_getRoomState: "rooms_ok m \<Longrightarrow> length (r_messages (getRoomState m r)) \<le> MAX_MESSAGES"
  by (auto simp: getRoomState_def rooms_ok_def defaultRoomState_def split: option.split dest!: map_get_in_set)

lemma rooms_ok_update:
  "rooms_ok m \<Longrightarrow> (\<And>s. r_messages (f s) = r_messages s) \<Longrightarrow> rooms_ok (updateRoomState r f m)"
  by (rule rooms_ok_set [of m "f (getRoomState m r)"]) (simp_all add: rooms_update rooms_ok_getRoomState)

lemma length_kept: "length (kept_messages ms) \<le> MAX_MESSAGES"
  by (simp add: kept_messages_def)

lemma append_existing:
  assumes "map_get (rooms m) room = Some s"
  shows "rooms (appendMessageToRoom room msg m) =
      map_set room (s\<lparr>r_messages := kept_messages (r_messages s @ [msg]),
        r_unread := (if room \<noteq> activeRoomRef m then r_unread s + 1 else r_unread s)\<rparr>) (rooms m)"
    and "revoked (appendMessageToRoom room msg m) = revoked m @ blob_urls (evicted_messages (r_messages s @ [msg]))"
  using assms by (simp_all add: appendMessageToRoom_def Let_def rooms_setRooms)

lemma append_unknown: "map_get (rooms m) room = None \<Longrightarrow> appendMessageToRoom room msg m = m"
  by (simp add: appendMessageToRoom_def)

lemma rooms_ok_append: "rooms_ok m \<Longrightarrow> rooms_ok (appendMessageToRoom room msg m)"
proof (cases "map_get (rooms m) room")
  case (Some s)
  assume "rooms_ok m"
  then show ?thesis by (rule rooms_ok_set [OF _ _ append_existing(1) [OF Some]]) (simp add: length_kept)
qed (simp add: append_unknown)

lemma removeRoom_frame [simp]:
  "rooms (removeRoom room m) = map_delete room (rooms m)"
  "revoked (removeRoom room m) =
     revoked m @ (case map_get (rooms m) room of None \<Rightarrow> [] | Some s \<Rightarrow> blob_urls (r_messages s))"
  by (simp_all add: removeRoom_def Let_def rooms_setRooms split: option.split)

lemma rooms_ok_remove: "rooms_ok m \<Longrightarrow> rooms_ok (removeRoom room m)"
  by (auto simp: rooms_ok_def map_delete_def AList.delete_eq map_ok_def map_keys_def distinct_map_filter)

lemma url_update:
  "(\<And>s. r_messages (f s) = r_messages s) \<Longrightarrow> url_balance (updateRoomState r f m) = url_balance m"
  using map_sum_set [of "\<lambda>s. mset (blob_urls (r_messages s))" r "f (getRoomState m r)" "rooms m"]
  by (auto simp: url_balance_def held_urls_def rooms_update getRoomState_def defaultRoomState_def blob_urls_def
      map_filter_def split: option.splits)

lemma url_append:
  "url_balance (appendMessageToRoom room msg m) =
     url_balance m + (if map_has (rooms m) room then mset (blob_urls [msg]) else {#})"
proof (cases "map_get (rooms m) room")
  case (Some s)
  let ?f = "\<lambda>s. mset (blob_urls (r_messages s))"
  let ?ms = "r_messages s @ [msg]"
  have "map_sum ?f (rooms (appendMessageToRoom room msg m)) + ?f s = map_sum ?f (rooms m) + mset (blob_urls (kept_messages ?ms))"
    using map_sum_set [of ?f room _ "rooms m"] by (simp add: append_existing(1) [OF Some] Some)
  moreover have "mset (blob_urls (evicted_messages ?ms)) + mset (blob_urls (kept_messages ?ms)) = ?f s + mset (blob_urls [msg])"
    unfolding blob_urls_split by (simp add: blob_urls_append)
  ultimately have "mset (blob_urls (evicted_messages ?ms)) + map_sum ?f (rooms (appendMessageToRoom room msg m))
      = map_sum ?f (rooms m) + mset (blob_urls [msg])" by (rule balance_swap)
  then show ?thesis
    by (simp add: url_balance_def held_urls_def append_existing(2) [OF Some] map_has_get Some add.assoc)
qed (simp add: append_unknown map_has_get)

lemma url_remove: "rooms_ok m \<Longrightarrow> url_balance (removeRoom room m) = url_balance m"
  using map_sum_delete [of "rooms m" "\<lambda>s. mset (blob_urls (r_messages s))" room]
  by (auto simp: url_balance_def held_urls_def rooms_ok_def ac_simps split: option.splits)

lemma rooms_only [simp]:
  "rooms_ok (m\<lparr>activeKeyRef := k\<rparr>) = rooms_ok m" "rooms_ok (m\<lparr>qr_job := j\<rparr>) = rooms_ok m"
  "rooms_ok (m\<lparr>copy_calls := cs\<rparr>) = rooms_ok m" "rooms_ok (m\<lparr>copied_timers := cs\<rparr>) = rooms_ok m"
  "rooms_ok (m\<lparr>activeRoom := r\<rparr>) = rooms_ok m"
  by (simp_all add: rooms_ok_def)

lemma url_balance_only [simp]:
  "url_balance (m\<lparr>activeKeyRef := k\<rparr>) = url_balance m" "url_balance (m\<lparr>qr_job := j\<rparr>) = url_balance m"
  "url_balance (m\<lparr>copy_calls := cs\<rparr>) = url_balance m" "url_balance (m\<lparr>copied_timers := cs\<rparr>) = url_balance m"
  "url_balance (m\<lparr>activeRoom := r\<rparr>) = url_balance m"
  by (simp_all add: url_balance_def held_urls_def)

text \<open>What an operation other than appending and removing does: it updates rooms, or touches other fields.\<close>

lemmas room_op_defs =
  patch_room_def keeping_messages_def switchRoom_def setActiveRoom_def qr_done_def copyShareLink_def copy_settles_def
  copied_expires_def Let_def

lemma rooms_ok_step: "rooms_ok m \<Longrightarrow> rooms_ok (room_step m e)"
proof (cases e)
  case (RmFragment hash)
  assume "rooms_ok m"
  with RmFragment fragment_frame [of hash m] show ?thesis by (auto split: sum.split intro: rooms_ok_cong)
qed (simp_all add: rooms_ok_append rooms_ok_remove rooms_ok_update rooms_ok_cong room_op_defs split: option.split)

lemma url_cong: "rooms m' = rooms m \<Longrightarrow> revoked m' = revoked m \<Longrightarrow> url_balance m' = url_balance m"
  by (simp add: url_balance_def held_urls_def)

lemma url_render [simp]: "url_balance (render m) = url_balance m"
  by (rule url_cong) simp_all

lemma url_setup [simp]: "url_balance (fst (setupRoomKey P page salt fresh room pass m)) = url_balance m"
  by (rule url_cong) simp_all

lemma url_step: "rooms_ok m \<Longrightarrow> url_balance (room_step m e) = url_balance m + url_in m e"
proof (cases e)
  case (RmFragment hash)
  with fragment_frame [of hash m] show ?thesis by (auto simp: url_in_def split: sum.split intro: url_cong)
qed (simp_all add: url_in_def url_append url_remove url_update room_op_defs split: option.split)

interpretation room_urls: balance_machine room_step rooms_ok url_balance url_in
  by unfold_locales (simp_all add: rooms_ok_step url_step)

lemma rooms_ok_new [simp]: "rooms_ok new_room_manager"
  by (simp add: rooms_ok_def new_room_manager_def)

section \<open>Share links\<close>

lemma hex_digit_value: "n < 16 \<Longrightarrow> hex_value (hex_digit_upper n) = Some n"
proof -
  assume "n < 16"
  then have "n \<in> set [0..<16]" by simp
  then show ?thesis by (simp add: upt_rec) (auto simp: hex_value_def hex_digit_upper_def)
qed

lemma hex_digit_chars: "n < 16 \<Longrightarrow> hex_digit_upper n \<notin> {CHR ''/'', CHR ''#''}"
proof -
  assume "n < 16"
  then have "n \<in> set [0..<16]" by simp
  then show ?thesis by (simp add: upt_rec) (auto simp: hex_digit_upper_def char_of_def)
qed

lemma of_char_less: "(of_char (c :: char) :: nat) < 256"
  using of_char_mod_256 [of c, where ?'a = nat] by (metis mod_less_divisor zero_less_numeral)

lemma encode_Cons: "encodeURIComponent (c # s) =
    (if uri_unreserved c then [c]
     else [CHR ''%'', hex_digit_upper (of_char c div 16), hex_digit_upper (of_char c mod 16)]) @ encodeURIComponent s"
  by (simp add: encodeURIComponent_def)

lemma percent_not_unreserved: "\<not> uri_unreserved (CHR ''%'')" "\<not> uri_unreserved (CHR ''/'')" "\<not> uri_unreserved (CHR ''#'')"
  by (simp_all add: uri_unreserved_def)

lemma percent_decode_encode: "percent_decode (encodeURIComponent s) = Some s"
proof (induction s)
  case (Cons c s)
  have "of_char c div 16 < (16 :: nat)" using of_char_less [of c] by (simp add: less_mult_imp_div_less)
  with Cons show ?case
    using percent_not_unreserved(1) by (auto simp: encode_Cons hex_digit_value)
qed (simp add: encodeURIComponent_def)

lemma encoded_chars: "c \<in> set (encodeURIComponent s) \<Longrightarrow> c \<notin> {CHR ''/'', CHR ''#''}"
proof (induction s)
  case (Cons d s)
  have "of_char d div 16 < (16 :: nat)" using of_char_less [of d] by (simp add: less_mult_imp_div_less)
  with Cons hex_digit_chars [of "of_char d div 16"] hex_digit_chars [of "of_char d mod 16"] show ?case
    using percent_not_unreserved by (auto simp: encode_Cons split: if_splits)
qed (simp add: encodeURIComponent_def)

lemma encode_not_Nil: "s \<noteq> [] \<Longrightarrow> encodeURIComponent s \<noteq> []"
  by (cases s) (simp_all add: encode_Cons)

lemma js_split_none: "c \<notin> set s \<Longrightarrow> js_split c s = [s]"
  by (induction s) auto

lemma js_split_at: "c \<notin> set s \<Longrightarrow> js_split c (s @ c # t) = s # js_split c t"
  by (induction s) auto

lemma decode_encode: "utf8 s \<Longrightarrow> decodeURIComponent (encodeURIComponent s) = Inr s"
  by (simp add: decodeURIComponent_def percent_decode_encode utf8_decode_encode)

text \<open>\<open>window.location.hash.slice(1)\<close> of a URL.\<close>

definition url_fragment :: "string \<Rightarrow> string" where
  "url_fragment url = tl (dropWhile (\<lambda>c. c \<noteq> CHR ''#'') url)"

lemma fragment_of_link:
  assumes "CHR ''#'' \<notin> set page"
  shows "url_fragment (share_link page room exported) = encodeURIComponent room @ ''/'' @ exported"
proof -
  have "dropWhile (\<lambda>c. c \<noteq> CHR ''#'') page = []" using assms by (auto simp: dropWhile_eq_Nil_conv)
  then show ?thesis by (simp add: url_fragment_def share_link_def dropWhile_append)
qed

lemma read_link:
  assumes "CHR ''#'' \<notin> set page" "utf8 room" "room \<noteq> []" "exported \<noteq> []" "CHR ''/'' \<notin> set exported"
  shows "read_fragment (url_fragment (share_link page room exported)) m
    = Inr (m\<lparr>keyRefs := map_set room (Fragment exported) (keyRefs m)\<rparr>)"
proof -
  have "CHR ''/'' \<notin> set (encodeURIComponent room)" using encoded_chars by blast
  then have "js_split (CHR ''/'') (encodeURIComponent room @ ''/'' @ exported) = [encodeURIComponent room, exported]"
    using assms(5) by (simp add: js_split_at js_split_none)
  then show ?thesis
    using assms by (simp add: fragment_of_link read_fragment_def decode_encode encode_not_Nil)
qed

section \<open>Properties\<close>

text \<open>
  C21: No object URL of received media leaks or is revoked early. In every run, the URLs of
  the messages that were appended to existing rooms are, each exactly once, either
  revoked or still shown by a message of a room: evicting old messages and leaving a
  room revoke exactly what they drop.
\<close>

theorem object_urls_are_revoked_once:
  "mset (revoked (room_run new_room_manager es)) + held_urls (room_run new_room_manager es)
     = inflows room_step url_in new_room_manager es"
  using room_urls.balance_run [of new_room_manager es]
  by (simp add: url_balance_def held_urls_def new_room_manager_def map_sum_def rooms_ok_new [unfolded new_room_manager_def])

text \<open>The newest \<open>MAX_MESSAGES\<close> of a list, and what is older.\<close>

definition newest :: "'a list \<Rightarrow> 'a list" where
  "newest xs = drop (length xs - MAX_MESSAGES) xs"

definition older :: "'a list \<Rightarrow> 'a list" where
  "older xs = take (length xs - MAX_MESSAGES) xs"

lemma kept_newest: "kept_messages ms = newest ms" "evicted_messages ms = older ms"
  by (simp_all add: kept_messages_def evicted_messages_def newest_def older_def)

lemma newest_append: "newest (newest xs @ ys) = newest (xs @ ys)"
proof (cases "length xs \<le> MAX_MESSAGES")
  case False
  then have "length (newest xs) = MAX_MESSAGES" by (simp add: newest_def)
  with False show ?thesis by (simp add: newest_def add.commute)
qed (simp add: newest_def)

lemma older_newest: "older xs @ newest xs = xs"
  by (simp add: newest_def older_def)

lemma older_append: "older xs @ older (newest xs @ ys) = older (xs @ ys)"
proof -
  have "older xs @ older (newest xs @ ys) @ newest (newest xs @ ys) = older (xs @ ys) @ newest (xs @ ys)"
    by (simp only: older_newest) (simp add: older_newest flip: append_assoc)
  then have "(older xs @ older (newest xs @ ys)) @ newest (xs @ ys) = older (xs @ ys) @ newest (xs @ ys)"
    by (simp add: newest_append)
  then show ?thesis by (rule append_same_eq [THEN iffD1])
qed

lemma append_run:
  assumes "map_get (rooms m) room = Some s" "length (r_messages s) \<le> MAX_MESSAGES"
  shows "\<exists>s'. map_get (rooms (room_run m (map (RmAppend room) msgs))) room = Some s'
     \<and> r_messages s' = newest (r_messages s @ msgs)
     \<and> revoked (room_run m (map (RmAppend room) msgs)) = revoked m @ blob_urls (older (r_messages s @ msgs))
     \<and> r_unread s' = r_unread s + (if room = activeRoomRef m then 0 else length msgs)"
  using assms
proof (induction msgs arbitrary: m s)
  case Nil
  then show ?case by (simp add: newest_def older_def blob_urls_def)
next
  case (Cons msg msgs)
  let ?m = "appendMessageToRoom room msg m"
  let ?s = "s\<lparr>r_messages := newest (r_messages s @ [msg]), r_unread := (if room \<noteq> activeRoomRef m then r_unread s + 1 else r_unread s)\<rparr>"
  have get: "map_get (rooms ?m) room = Some ?s" by (simp add: append_existing(1) [OF Cons.prems(1)] kept_newest)
  have "activeRoomRef ?m = activeRoomRef m"
    by (simp add: appendMessageToRoom_def Let_def split: option.split)
  moreover have "revoked ?m = revoked m @ blob_urls (older (r_messages s @ [msg]))"
    by (simp add: append_existing(2) [OF Cons.prems(1)] kept_newest)
  moreover have "length (r_messages ?s) \<le> MAX_MESSAGES" by (simp add: newest_def)
  ultimately show ?case
    using Cons.IH [OF get] newest_append [of "r_messages s @ [msg]" msgs] older_append [of "r_messages s @ [msg]" msgs]
    by (auto simp: blob_urls_append [symmetric])
qed

text \<open>
  A room shows its newest 500 messages in order. Appending any number of messages to a
  room of a reachable state keeps the last 500 of all of them, revokes the object URLs
  of the older ones in order, and counts them as unread unless the room is the active one.
\<close>

theorem room_keeps_newest_messages:
  assumes "map_get (rooms (room_run new_room_manager es)) room = Some s"
  shows "\<exists>s'. map_get (rooms (room_run new_room_manager (es @ map (RmAppend room) msgs))) room = Some s'
     \<and> r_messages s' = drop (length (r_messages s @ msgs) - 500) (r_messages s @ msgs)
     \<and> revoked (room_run new_room_manager (es @ map (RmAppend room) msgs))
         = revoked (room_run new_room_manager es) @ blob_urls (take (length (r_messages s @ msgs) - 500) (r_messages s @ msgs))
     \<and> r_unread s' = r_unread s + (if room = activeRoomRef (room_run new_room_manager es) then 0 else length msgs)"
proof -
  have "rooms_ok (room_run new_room_manager es)" by (rule room_urls.inv_run) simp
  with assms have "length (r_messages s) \<le> MAX_MESSAGES"
    using rooms_ok_getRoomState [of "room_run new_room_manager es" room] by (simp add: getRoomState_def)
  from append_run [OF assms this, of msgs] show ?thesis
    by (simp add: newest_def older_def MAX_MESSAGES_def)
qed

definition demo_msg :: "string \<Rightarrow> chat_msg" where
  "demo_msg url =
     \<lparr>cm_id = JStr ''m'', cm_text = [], cm_own = False, cm_error = False, cm_system = False, cm_p2p = False,
      cm_queued = False, cm_sender = None, cm_nickname = [],
      cm_media = Some \<lparr>mi_url = url, mi_mimeType = None, mi_fileName = None, mi_fileSize = None\<rparr>\<rparr>"

lemma room_keeps_newest_messages_witness:
  "\<exists>s'. map_get (rooms (room_run (new_room_manager :: byte room_manager)
          ([RmPatch False ''r'' id] @ map (RmAppend ''r'') (demo_msg ''blob:1'' # replicate 500 (demo_msg ''blob:2''))))) ''r'' = Some s'
     \<and> r_messages s' = replicate 500 (demo_msg ''blob:2'') \<and> r_unread s' = 501"
proof -
  let ?m = "room_run (new_room_manager :: byte room_manager) [RmPatch False ''r'' id]"
  have "map_get (rooms ?m) ''r'' = Some defaultRoomState" "activeRoomRef ?m = []"
    by code_simp+
  from room_keeps_newest_messages [OF this(1), of "demo_msg ''blob:1'' # replicate 500 (demo_msg ''blob:2'')"] this(2)
  show ?thesis by (auto simp: defaultRoomState_def)
qed

text \<open>
  C22: A share link gives its reader the room's key. For a room created without a
  passphrase, a browser that opens the link reads the same room name and sets the room
  up with the same key, provided the exported key contains no slash.
\<close>

theorem share_link_carries_the_key:
  assumes "raw_keys_correct P" and "CHR ''#'' \<notin> set page" and "utf8 room" and "room \<noteq> []"
    and "map_get (keyRefs m) room = None" and "js_trim pass = []"
    and "setupRoomKey P page salt (Inr k) room pass m = (m', Inr (key, link))"
    and "exportKey P k = Inr exported" and "exported \<noteq> []" and "CHR ''/'' \<notin> set exported"
  shows "key = Key k \<and> (\<exists>n. read_fragment (url_fragment link) new_room_manager = Inr n
     \<and> snd (setupRoomKey P page salt' fresh room pass' n) = Inr (Key k, link))"
proof -
  have link: "key = Key k" "link = share_link page room exported"
    using assms(5-8) by (auto simp: setupRoomKey_def Let_def)
  have "importKey P exported = Inr k"
    using assms(1,8) unfolding raw_keys_correct_def exportKey_def importKey_def
    by (metis base64_roundtrip bind_simps(2) sum.inject(2))
  moreover obtain c cs where "exported = c # cs" using assms(9) by (cases exported) auto
  ultimately have "snd (setupRoomKey P page salt' fresh room pass' (n\<lparr>keyRefs := map_set room (Fragment exported) (keyRefs n)\<rparr>))
      = Inr (Key k, link)" for n
    using assms(8) link by (simp add: setupRoomKey_def finish_setup_def)
  from this [of new_room_manager] read_link [OF assms(2-4,9,10), of new_room_manager] link(1) show ?thesis
    unfolding link(2) by blast
qed

lemma share_link_carries_the_key_witness:
  "\<exists>n. read_fragment (url_fragment ''https://h/#a%2Fb/Bw=='') new_room_manager = Inr n
     \<and> snd (setupRoomKey demo_crypto ''https://h/'' [] (Inr 1) ''a/b'' [] n) = Inr (Key 7, ''https://h/#a%2Fb/Bw=='')"
proof -
  have set: "setupRoomKey demo_crypto ''https://h/'' [] (Inr 7) ''a/b'' [] new_room_manager
      = (new_room_manager\<lparr>keyRefs := [(''a/b'', Key 7)], fragment_cleared := True\<rparr>, Inr (Key 7, ''https://h/#a%2Fb/Bw==''))"
    and exp: "exportKey demo_crypto 7 = Inr ''Bw==''"
    by code_simp+
  have "utf8 ''a/b''" by (rule utf8_ascii) simp
  from share_link_carries_the_key [OF demo_crypto_ok(3) _ this _ _ _ set exp, of "[]" "Inr 1" "[]"] show ?thesis
    by (simp add: new_room_manager_def js_trim_def)
qed

text \<open>
  The alphabet of \<open>btoa\<close> has the slash, at which the fragment is cut: the reader of such
  a link gets a part of the key, or none and then makes a key of its own without notice.
\<close>

lemma share_link_cuts_key_at_slash:
  "(case setupRoomKey demo_crypto ''https://h/'' [] (Inr 255) ''a'' [] new_room_manager of
      (_, Inr (_, link)) \<Rightarrow>
        link = ''https://h/#a//w==''
        \<and> (case read_fragment (url_fragment link) new_room_manager of
             Inr n \<Rightarrow> snd (setupRoomKey demo_crypto ''https://h/'' [] (Inr 1) ''a'' [] n) = Inr (Key 1, ''https://h/#a/AQ=='')
           | Inl _ \<Rightarrow> False)
    | _ \<Rightarrow> False)"
  by code_simp

text \<open>
  \<open>updateRoomState\<close> makes a missing room: a callback that comes after the room was left
  brings it back, and it counts among the rooms again.
\<close>

lemma late_callback_restores_left_room:
  "map_keys (rooms (room_run (new_room_manager :: byte room_manager)
     [RmPatch False ''r'' id, RmRemove ''r'', RmPatch False ''r'' (\<lambda>s. s\<lparr>r_isP2P := False\<rparr>)])) = [''r'']"
  by code_simp

end
