(* ===== verification/KeyRotation.thy ===== *)
theory KeyRotation
  imports Crypto
begin

text \<open>
  Key rotation in the user interface (\<^verbatim>\<open>apps/trapchat/src/hooks/useKeyRotation.js\<close>): each
  \<open>startRotation\<close> makes a \<open>KeyRotator\<close> whose callback announces new keys in the room it closed
  over; announcements of other peers are accepted.

  The rotators are a heap, since a replaced rotator may still have a rotation under way.
  What is sent with \<open>client.send('key_rotation', ...)\<close> and the notes appended to the
  rooms are recorded. A handler stops at its \<open>await\<close>: an announcement waits for the encryption of
  the new key, a message for the decryption and import of the key it carries, and other events run
  in between. Those of a rotation itself are steps of the rotator.
\<close>

text \<open>\<open>parseInt(s, 10)\<close>; \<open>None\<close> is \<open>NaN\<close>.\<close>

definition parse_int :: "string \<Rightarrow> int option" where
  "parse_int s =
     (let t = dropWhile is_ws s;
          neg = (case t of c # _ \<Rightarrow> c = CHR ''-'' | [] \<Rightarrow> False);
          u = (case t of c # r \<Rightarrow> if c = CHR ''-'' \<or> c = CHR ''+'' then r else t | [] \<Rightarrow> []);
          ds = takeWhile is_digit u
      in if ds = [] then None else Some (if neg then - int (read_nat ds) else int (read_nat ds)))"

definition KEY_ROTATION_INTERVAL :: "string option \<Rightarrow> int" where
  "KEY_ROTATION_INTERVAL env =
     (let text = (case env of None \<Rightarrow> ''1800000'' | Some s \<Rightarrow> if s = [] then ''1800000'' else s)
      in max 60000 (case parse_int text of None \<Rightarrow> 1800000 | Some n \<Rightarrow> if n = 0 then 1800000 else n))"

datatype rotation_note = KeyRotated | KeyRotatedByPeer | RotationFailed

text \<open>What a message is decrypted with: the rotator, with its current key as it was then, or the key itself.\<close>

datatype 'k opener = ByRotator nat "'k rotator" | ByKey "'k option"

datatype 'k incoming = Opening string string "'k opener" | Opened

datatype announcement = Announcing string "js_error + string" | Announced

record 'k key_hook =
  rotators :: "('k rotator \<times> string) list"
  rotatorRef :: "nat option"
  keyRef :: "'k option"
  rotations_sent :: "(string \<times> string) list"
  rotation_notes :: "(string \<times> rotation_note) list"
  announcements :: "announcement list"
  incoming_keys :: "'k incoming list"

definition new_key_hook :: "'k key_hook" where
  "new_key_hook = \<lparr>rotators = [], rotatorRef = None, keyRef = None, rotations_sent = [], rotation_notes = [],
     announcements = [], incoming_keys = []\<rparr>"

definition update_rotator :: "nat \<Rightarrow> ('k rotator \<Rightarrow> 'k rotator) \<Rightarrow> 'k key_hook \<Rightarrow> 'k key_hook" where
  "update_rotator i f h = h\<lparr>rotators := (rotators h)[i := (f (fst (rotators h ! i)), snd (rotators h ! i))]\<rparr>"

text \<open>\<open>rotatorRef.current.stop()\<close>, when there is a rotator.\<close>

definition stop_current :: "'k key_hook \<Rightarrow> 'k key_hook" where
  "stop_current h = (case rotatorRef h of None \<Rightarrow> h | Some i \<Rightarrow> update_rotator i rotator_stop h)"

definition startRotation :: "int \<Rightarrow> string \<Rightarrow> 'k option \<Rightarrow> 'k key_hook \<Rightarrow> 'k key_hook" where
  "startRotation intv room key h =
     (let h1 = stop_current h
      in h1\<lparr>rotators := rotators h1 @ [(rotator_start key (new_KeyRotator intv True), room)],
            rotatorRef := Some (length (rotators h1))\<rparr>)"

definition stopRotation :: "'k key_hook \<Rightarrow> 'k key_hook" where
  "stopRotation h = (stop_current h)\<lparr>rotatorRef := None\<rparr>"

text \<open>
  The callback \<open>onRotate\<close>, up to its \<open>await\<close>: \<open>iv\<close> is what \<open>encrypt\<close> draws. With no old key the
  encryption fails; the error is logged and the key is not announced.
\<close>

definition on_rotate ::
  "'k webcrypto \<Rightarrow> byte list \<Rightarrow> string \<Rightarrow> 'k option \<times> string \<times> 'k option \<Rightarrow> 'k key_hook \<Rightarrow> 'k key_hook" where
  "on_rotate P iv room args h =
     (case args of (newKey, exportedKey, oldKey) \<Rightarrow>
        h\<lparr>keyRef := newKey,
          announcements := announcements h @ [Announcing room (with_key oldKey (\<lambda>k. encrypt P iv k exportedKey))]\<rparr>)"

definition announce :: "nat \<Rightarrow> 'k key_hook \<Rightarrow> 'k key_hook" where
  "announce n h =
     (if n < length (announcements h) then
        (case announcements h ! n of
           Announced \<Rightarrow> h
         | Announcing room r \<Rightarrow>
             (let h1 = h\<lparr>announcements := (announcements h)[n := Announced]\<rparr>;
                  h2 = (case r of
                          Inl _ \<Rightarrow> h1
                        | Inr encryptedNewKey \<Rightarrow> h1\<lparr>rotations_sent := rotations_sent h1 @ [(room, encryptedNewKey)]\<rparr>)
              in h2\<lparr>rotation_notes := rotation_notes h2 @ [(room, KeyRotated)]\<rparr>))
      else h)"

definition opener_of :: "'k key_hook \<Rightarrow> 'k opener" where
  "opener_of h = (case rotatorRef h of Some i \<Rightarrow> ByRotator i (fst (rotators h ! i)) | None \<Rightarrow> ByKey (keyRef h))"

text \<open>A rotator tries its previous key, if it still has one, after the current key failed.\<close>

definition open_text :: "'k webcrypto \<Rightarrow> 'k opener \<Rightarrow> string \<Rightarrow> 'k key_hook \<Rightarrow> js_error + string" where
  "open_text P op payload now =
     (case op of
        ByRotator i r \<Rightarrow> rotator_decrypt P r (fst (rotators now ! i)) payload
      | ByKey k \<Rightarrow> with_key k (\<lambda>k. decrypt P k payload))"

definition handleKeyRotationMessage :: "string \<Rightarrow> string \<Rightarrow> 'k key_hook \<Rightarrow> 'k key_hook" where
  "handleKeyRotationMessage room payload h =
     h\<lparr>incoming_keys := incoming_keys h @ [Opening room payload (opener_of h)]\<rparr>"

text \<open>The rest of the handler, once the key is decrypted and imported.\<close>

definition key_opened :: "'k webcrypto \<Rightarrow> nat \<Rightarrow> 'k key_hook \<Rightarrow> 'k key_hook" where
  "key_opened P n h =
     (if n < length (incoming_keys h) then
        (case incoming_keys h ! n of
           Opened \<Rightarrow> h
         | Opening room payload op \<Rightarrow>
             (let h0 = h\<lparr>incoming_keys := (incoming_keys h)[n := Opened]\<rparr> in
              case bind (open_text P op payload h0) (importKey P) of
                Inl _ \<Rightarrow> h0\<lparr>rotation_notes := rotation_notes h0 @ [(room, RotationFailed)]\<rparr>
              | Inr newKey \<Rightarrow>
                  (let h1 = h0\<lparr>keyRef := Some newKey\<rparr>;
                       h2 = (case rotatorRef h1 of None \<Rightarrow> h1 | Some i \<Rightarrow> update_rotator i (acceptKey newKey) h1)
                   in h2\<lparr>rotation_notes := rotation_notes h2 @ [(room, KeyRotatedByPeer)]\<rparr>)))
      else h)"

text \<open>\<open>decryptWithRotation\<close> when nothing runs in between.\<close>

definition decryptWithRotation :: "'k webcrypto \<Rightarrow> string \<Rightarrow> 'k key_hook \<Rightarrow> js_error + string" where
  "decryptWithRotation P ciphertext h = open_text P (opener_of h) ciphertext h"

text \<open>An event of the rotator \<open>i\<close>: its timers and awaited calls; finished rotations call back.\<close>

fun by_platform :: "'k rotator_event \<Rightarrow> bool" where
  "by_platform (RInterval _) = True"
| "by_platform (RGenerated _ _) = True"
| "by_platform (RExported _) = True"
| "by_platform (RGrace _) = True"
| "by_platform _ = False"

definition rotator_event :: "'k webcrypto \<Rightarrow> byte list \<Rightarrow> nat \<Rightarrow> 'k rotator_event \<Rightarrow> 'k key_hook \<Rightarrow> 'k key_hook" where
  "rotator_event P iv i e h =
     (if i < length (rotators h) \<and> by_platform e then
        (let (r, room) = rotators h ! i;
             h1 = update_rotator i (\<lambda>r. rotator_step P r e) h
         in fold (on_rotate P iv room) (drop (length (rotated r)) (rotated (rotator_step P r e))) h1)
      else h)"

datatype 'k key_event =
    KrStart string "'k option"
  | KrStop
  | KrRotator nat "'k rotator_event" "byte list"
  | KrMessage string string
  | KrAnnounced nat
  | KrOpened nat

fun key_step :: "'k webcrypto \<Rightarrow> int \<Rightarrow> 'k key_hook \<Rightarrow> 'k key_event \<Rightarrow> 'k key_hook" where
  "key_step P intv h (KrStart room key) = startRotation intv room key h"
| "key_step P intv h KrStop = stopRotation h"
| "key_step P intv h (KrRotator i e iv) = rotator_event P iv i e h"
| "key_step P intv h (KrMessage room payload) = handleKeyRotationMessage room payload h"
| "key_step P intv h (KrAnnounced n) = announce n h"
| "key_step P intv h (KrOpened n) = key_opened P n h"

section \<open>Only the current rotator has timers\<close>

text \<open>Every rotator keeps its own timers in order, and only the one in \<open>rotatorRef\<close> still ticks.\<close>

definition key_hook_ok :: "'k key_hook \<Rightarrow> bool" where
  "key_hook_ok h \<longleftrightarrow>
     (\<forall>x\<in>set (rotators h). rotator_inv (fst x))
     \<and> (\<forall>i<length (rotators h). rotatorRef h \<noteq> Some i \<longrightarrow> live_intervals (fst (rotators h ! i)) = [])
     \<and> (\<forall>i. rotatorRef h = Some i \<longrightarrow> i < length (rotators h))"

lemma rotator_inv_stop: "rotator_inv r \<Longrightarrow> rotator_inv (rotator_stop r) \<and> live_intervals (rotator_stop r) = []"
  by (auto simp: rotator_inv_def rotator_stop_def Let_def split: option.splits)

lemma intervals_frame:
  "live_intervals (set_grace r) = live_intervals r" "live_intervals (clear_grace r) = live_intervals r"
  by (simp_all add: set_grace_def clear_grace_def split: option.split)

lemma intervals_platform: "by_platform e \<Longrightarrow> live_intervals (rotator_step P r e) = live_intervals r"
  by (cases e) (auto simp: rotate_begin_def rotate_generated_def rotate_exported_def grace_fires_def intervals_frame Let_def
      split: rotation.split sum.split)

lemma key_hook_stop: "key_hook_ok h \<Longrightarrow> key_hook_ok ((stop_current h)\<lparr>rotatorRef := None\<rparr>)"
  using rotator_inv_stop
  by (auto simp: key_hook_ok_def stop_current_def update_rotator_def nth_list_update all_set_conv_all_nth split: option.split)

lemma key_hook_start: "key_hook_ok h \<Longrightarrow> key_hook_ok (startRotation intv room key h)"
proof -
  assume "key_hook_ok h"
  then have "key_hook_ok ((stop_current h)\<lparr>rotatorRef := None\<rparr>)" by (rule key_hook_stop)
  moreover have "rotator_inv (rotator_start key (new_KeyRotator intv True))"
    by (simp add: rotator_inv_def new_KeyRotator_def rotator_start_def rotator_stop_def)
  ultimately show ?thesis
    by (auto simp: key_hook_ok_def startRotation_def Let_def nth_append less_Suc_eq)
qed

lemma key_hook_update:
  assumes "key_hook_ok h" "\<And>r. rotator_inv r \<Longrightarrow> rotator_inv (f r)" "\<And>r. live_intervals (f r) = live_intervals r"
  shows "key_hook_ok (update_rotator i f h)"
proof (cases "i < length (rotators h)")
  case True
  with assms show ?thesis
    by (auto simp: key_hook_ok_def update_rotator_def nth_list_update all_set_conv_all_nth)
next
  case False
  with assms(1) show ?thesis by (simp add: update_rotator_def list_update_beyond not_less)
qed

lemma key_hook_frame [simp]:
  "key_hook_ok (h\<lparr>keyRef := k\<rparr>) = key_hook_ok h" "key_hook_ok (h\<lparr>rotation_notes := ns\<rparr>) = key_hook_ok h"
  "key_hook_ok (h\<lparr>rotations_sent := ss\<rparr>) = key_hook_ok h" "key_hook_ok (h\<lparr>announcements := as\<rparr>) = key_hook_ok h"
  "key_hook_ok (h\<lparr>incoming_keys := is\<rparr>) = key_hook_ok h"
  by (simp_all add: key_hook_ok_def)

lemma key_hook_on_rotate: "key_hook_ok h \<Longrightarrow> key_hook_ok (on_rotate P iv room args h)"
  by (cases args) (simp add: on_rotate_def)

lemma key_hook_fold: "key_hook_ok h \<Longrightarrow> key_hook_ok (fold (on_rotate P iv room) xs h)"
  by (induction xs arbitrary: h) (simp_all add: key_hook_on_rotate)

lemma intervals_accept: "live_intervals (acceptKey k r) = live_intervals r"
  by (simp add: acceptKey_def set_grace_def clear_grace_def Let_def split: option.split)

lemma key_hook_step: "key_hook_ok h \<Longrightarrow> key_hook_ok (key_step P intv h e)"
proof (cases e)
  case (KrStart room key)
  assume "key_hook_ok h"
  with KrStart show ?thesis by (simp add: key_hook_start)
next
  case KrStop
  assume "key_hook_ok h"
  with KrStop show ?thesis by (simp add: stopRotation_def key_hook_stop)
next
  case (KrRotator i ev iv)
  assume ok: "key_hook_ok h"
  have "key_hook_ok (update_rotator i (\<lambda>r. rotator_step P r ev) h)" if "by_platform ev"
    using ok that by (intro key_hook_update) (simp_all add: rotator_inv_step intervals_platform)
  with ok KrRotator show ?thesis
    by (auto simp: rotator_event_def Let_def key_hook_fold split: prod.split)
next
  case (KrMessage room payload)
  assume "key_hook_ok h"
  with KrMessage show ?thesis by (simp add: handleKeyRotationMessage_def)
next
  case (KrAnnounced n)
  assume "key_hook_ok h"
  with KrAnnounced show ?thesis by (simp add: announce_def Let_def split: announcement.split sum.split)
next
  case (KrOpened n)
  assume ok: "key_hook_ok h"
  have "key_hook_ok (update_rotator i (acceptKey k) h)" for i k
    using ok by (intro key_hook_update) (use rotator_inv_step [of _ P "RAccept k"] intervals_accept in simp_all)
  moreover have "update_rotator i f (h\<lparr>incoming_keys := x, keyRef := k\<rparr>) = (update_rotator i f h)\<lparr>incoming_keys := x, keyRef := k\<rparr>" for i f k x
    by (simp add: update_rotator_def)
  ultimately show ?thesis
    using ok KrOpened by (auto simp: key_opened_def Let_def split: incoming.split sum.split option.split)
qed

interpretation key_hook: event_machine "key_step P intv" key_hook_ok for P intv
  by unfold_locales (rule key_hook_step)

section \<open>Properties\<close>

lemma key_hook_run: "key_hook_ok (foldl (key_step P intv) new_key_hook es)"
  by (rule key_hook.inv_run) (simp add: key_hook_ok_def new_key_hook_def)

text \<open>An exported key is ASCII text, so encryption carries it unchanged.\<close>

lemma exported_text:
  assumes "exportKey P k = Inr exported"
  shows "text_decode (text_encode exported) = exported"
proof -
  obtain raw where raw: "exported = btoa raw" using assms by (auto simp: exportKey_def bind_Inr uint8ToBase64_eq)
  show ?thesis
  proof (cases exported)
    case Nil
    then show ?thesis by (simp add: text_encode_def text_decode_def bom_def)
  next
    case (Cons c cs)
    then have "(of_char c :: nat) < 128" using btoa_ascii [of _ raw] raw by (metis list.set_intros(1))
    with Cons ascii_start_no_bom [of c cs] have "take 3 (text_encode exported) \<noteq> bom" by simp
    then show ?thesis using utf8_btoa [of raw] raw by (simp add: text_decode_encode)
  qed
qed

text \<open>
  C27: A finished rotation brings the peers to the new key. When a rotator finishes exporting a
  key that it made from the shared key, exactly one announcement goes to its room; a peer whose
  rotator holds the shared key accepts it: both then use the new key, and the peer keeps the
  shared key as its previous one, with a grace timer that will erase it.
\<close>

theorem finished_rotation_reaches_peer:
  assumes "aes_gcm_correct P" and "raw_keys_correct P" and "length iv = IV_LENGTH"
    and "i < length (rotators a)" and "rotators a ! i = (r, room)" and "onRotate r"
    and "j < length (rotations r)" and "rotations r ! j = Exporting (Some k) (exportKey P k')"
    and "currentKey r = Some k'"
    and "rotatorRef b = Some m" and "m < length (rotators b)" and "currentKey (fst (rotators b ! m)) = Some k"
  shows "\<exists>c. let a' = foldl (key_step P intv) a [KrRotator i (RExported j) iv, KrAnnounced (length (announcements a))];
                b' = foldl (key_step P intv) b [KrMessage room' c, KrOpened (length (incoming_keys b))]
     in keyRef a' = Some k' \<and> rotations_sent a' = rotations_sent a @ [(room, c)]
        \<and> keyRef b' = Some k' \<and> currentKey (fst (rotators b' ! m)) = Some k'
        \<and> previousKey (fst (rotators b' ! m)) = Some k \<and> graceTimer (fst (rotators b' ! m)) \<noteq> None
        \<and> rotation_notes b' = rotation_notes b @ [(room', KeyRotatedByPeer)]"
proof -
  obtain exported where ex: "exportKey P k' = Inr exported" using exportKey_ok [OF assms(2)] by blast
  then have imp: "importKey P exported = Inr k'"
    using assms(2) unfolding raw_keys_correct_def exportKey_def importKey_def
    by (metis base64_roundtrip bind_simps(2) sum.inject(2))
  obtain c where c: "encrypt P iv k exported = Inr c" "decrypt P k c = Inr exported"
    using encrypt_Inr [OF assms(1,3), of k exported] exported_text [OF ex] by metis
  have "rotated (set_grace (clear_grace q)) = rotated q" for q :: "'a rotator"
    by (simp add: set_grace_def clear_grace_def split: option.split)
  then have "rotated (rotator_step P r (RExported j)) = rotated r @ [(Some k', exported, Some k)]"
    using assms(6-9) by (simp add: rotate_exported_def ex Let_def)
  then have a: "key_step P intv a (KrRotator i (RExported j) iv)
      = on_rotate P iv room (Some k', exported, Some k) (update_rotator i (\<lambda>r. rotator_step P r (RExported j)) a)"
    using assms(4,5) by (simp add: rotator_event_def)
  have a': "keyRef (foldl (key_step P intv) a [KrRotator i (RExported j) iv, KrAnnounced (length (announcements a))]) = Some k'
      \<and> rotations_sent (foldl (key_step P intv) a [KrRotator i (RExported j) iv, KrAnnounced (length (announcements a))])
        = rotations_sent a @ [(room, c)]"
    unfolding foldl_Cons foldl_Nil a by (simp add: on_rotate_def with_key_def c(1) announce_def update_rotator_def)
  let ?b = "b\<lparr>incoming_keys := incoming_keys b @ [Opened]\<rparr>"
  have "open_text P (ByRotator m (fst (rotators b ! m))) c ?b = Inr exported"
    using assms(12) c(2) by (simp add: open_text_def rotator_decrypt_def try_keys_def with_key_def)
  then have b: "foldl (key_step P intv) b [KrMessage room' c, KrOpened (length (incoming_keys b))]
      = (let h = update_rotator m (acceptKey k') (?b\<lparr>keyRef := Some k'\<rparr>) in h\<lparr>rotation_notes := rotation_notes h @ [(room', KeyRotatedByPeer)]\<rparr>)"
    using assms(10) imp by (simp add: handleKeyRotationMessage_def key_opened_def opener_of_def)
  have "previousKey (acceptKey k' q) = currentKey q" "currentKey (acceptKey k' q) = Some k'" "graceTimer (acceptKey k' q) \<noteq> None" for q
    by (simp_all add: acceptKey_def set_grace_def clear_grace_def Let_def split: option.split)
  then have b': "let b' = foldl (key_step P intv) b [KrMessage room' c, KrOpened (length (incoming_keys b))]
     in keyRef b' = Some k' \<and> currentKey (fst (rotators b' ! m)) = Some k'
        \<and> previousKey (fst (rotators b' ! m)) = Some k \<and> graceTimer (fst (rotators b' ! m)) \<noteq> None
        \<and> rotation_notes b' = rotation_notes b @ [(room', KeyRotatedByPeer)]"
    using assms(11,12) unfolding b by (simp add: Let_def update_rotator_def)
  from a' b' show ?thesis unfolding Let_def by blast
qed

text \<open>Two peers that start from the key 7; one rotates to 9.\<close>

definition demo_rotating :: "byte key_hook" where
  "demo_rotating =
     foldl (key_step demo_crypto 60000) new_key_hook
       [KrStart ''r'' (Some 7), KrRotator 0 (RInterval 1) [], KrRotator 0 (RGenerated 0 (Inr 9)) []]"

definition demo_peer :: "byte key_hook" where
  "demo_peer = key_step demo_crypto 60000 new_key_hook (KrStart ''r'' (Some 7))"

lemma finished_rotation_reaches_peer_witness:
  "\<exists>c. rotations_sent (foldl (key_step demo_crypto 60000) demo_rotating [KrRotator 0 (RExported 0) (replicate 12 0), KrAnnounced 0])
        = [(''r'', c)]
     \<and> keyRef (foldl (key_step demo_crypto 60000) demo_peer [KrMessage ''r'' c, KrOpened 0]) = Some 9"
proof -
  have a: "length (rotators demo_rotating) = 1" "snd (rotators demo_rotating ! 0) = ''r''" "rotations_sent demo_rotating = []"
    "onRotate (fst (rotators demo_rotating ! 0))" "length (rotations (fst (rotators demo_rotating ! 0))) = 1"
    "rotations (fst (rotators demo_rotating ! 0)) ! 0 = Exporting (Some 7) (exportKey demo_crypto 9)"
    "currentKey (fst (rotators demo_rotating ! 0)) = Some 9"
    "announcements demo_rotating = []" "incoming_keys demo_peer = []"
    and b: "rotatorRef demo_peer = Some 0" "length (rotators demo_peer) = 1" "currentKey (fst (rotators demo_peer ! 0)) = Some 7"
    by code_simp+
  have iv: "length (replicate 12 0 :: byte list) = IV_LENGTH" by (simp add: IV_LENGTH_def)
  have pair: "rotators demo_rotating ! 0 = (fst (rotators demo_rotating ! 0), ''r'')" using a(2) by (metis prod.collapse)
  from finished_rotation_reaches_peer [OF demo_crypto_ok(1,3) iv _ pair a(4) _ a(6,7) b(1) _ b(3), of 60000 "''r''"] a b
  show ?thesis by (auto simp: Let_def simp del: foldl_Cons)
qed

text \<open>
  Two peers whose rotations cross each accept the other's key: their current keys are then
  swapped, and each can read the other only through its previous key, for thirty seconds.
\<close>

lemma crossing_rotations_swap_keys:
  "(let a = foldl (key_step demo_crypto 60000) demo_rotating [KrRotator 0 (RExported 0) (replicate 12 0), KrAnnounced 0];
        b = foldl (key_step demo_crypto 60000) demo_peer
              [KrRotator 0 (RInterval 1) [], KrRotator 0 (RGenerated 0 (Inr 8)) [], KrRotator 0 (RExported 0) (replicate 12 0), KrAnnounced 0];
        a' = foldl (key_step demo_crypto 60000) a [KrMessage ''r'' (snd (hd (rotations_sent b))), KrOpened 0];
        b' = foldl (key_step demo_crypto 60000) b [KrMessage ''r'' (snd (hd (rotations_sent a))), KrOpened 0]
    in keyRef a' = Some 8 \<and> keyRef b' = Some 9
       \<and> currentKey (fst (rotators a' ! 0)) = Some 8 \<and> currentKey (fst (rotators b' ! 0)) = Some 9)"
  by code_simp

text \<open>A rotator that was started without a key never announces what it rotates to, yet the key is used.\<close>

lemma rotation_without_key_is_not_announced:
  "let h' = announce (length (announcements h)) (on_rotate P iv room (Some k', exported, None) h)
   in rotations_sent h' = rotations_sent h \<and> keyRef h' = Some k'"
  by (simp add: on_rotate_def with_key_def announce_def Let_def)

text \<open>
  Two rotations of a peer in quick succession: the second key is encrypted under the first, but
  its message is already being opened with the key before that, so it is lost.
\<close>

lemma second_rotation_is_lost:
  "(let c1 = (case encrypt demo_crypto (replicate 12 0) 7 ''CQ=='' of Inr c \<Rightarrow> c | Inl _ \<Rightarrow> []);
        c2 = (case encrypt demo_crypto (replicate 12 1) 9 ''Cg=='' of Inr c \<Rightarrow> c | Inl _ \<Rightarrow> [])
    in keyRef (foldl (key_step demo_crypto 60000) demo_peer [KrMessage ''r'' c1, KrOpened 0, KrMessage ''r'' c2, KrOpened 1]) = Some 10
       \<and> keyRef (foldl (key_step demo_crypto 60000) demo_peer [KrMessage ''r'' c1, KrMessage ''r'' c2, KrOpened 0, KrOpened 1]) = Some 9)"
  by code_simp

end
