(* ===== verification/WebRTC.thy ===== *)
theory WebRTC
  imports JsLang
begin

text \<open>
  The peer connections (\<^verbatim>\<open>apps/trapchat/src/lib/webrtc.js\<close>). \<open>PeerConnection\<close> drives a
  browser \<open>RTCPeerConnection\<close>; \<open>PeerMesh\<close> keeps one of them per remote peer.

  The browser's objects live in heaps inside the connection that made them: the
  \<open>RTCPeerConnection\<close>s (\<open>rtcs\<close>) and the data channels (\<open>channels\<close>). Every
  \<open>await\<close> ends a segment of an async method: what remains is a continuation in
  \<open>c_awaiting\<close>, resumed by a \<open>Settle\<close> event with the outcome the browser decides. So
  segments of several calls interleave in any order, and \<open>#pc\<close> may be \<open>null\<close> when a
  segment resumes. A rejected promise of a method is recorded in \<open>c_rejections\<close>.

  The constructors \<open>RTCSessionDescription\<close> and \<open>RTCIceCandidate\<close> of the browser, which
  throw on malformed arguments, are the parameters in \<open>rtc_api\<close>.
\<close>

section \<open>Configuration\<close>

definition js_default :: "string option \<Rightarrow> string \<Rightarrow> string" where
  "js_default v d = (case v of None \<Rightarrow> d | Some s \<Rightarrow> if s = [] then d else s)"

definition set_var :: "string option \<Rightarrow> string option" where
  "set_var v = (case v of None \<Rightarrow> None | Some s \<Rightarrow> if s = [] then None else Some s)"

text \<open>The \<open>VITE_\<close> variables of the build: STUN URLs, TURN URL, user and credential, transport policy.\<close>

record rtc_env =
  STUN_URLS :: "string option"
  TURN_URL :: "string option"
  TURN_USERNAME :: "string option"
  TURN_CREDENTIAL :: "string option"
  ICE_TRANSPORT_POLICY :: "string option"

definition buildIceServers :: "rtc_env \<Rightarrow> json list" where
  "buildIceServers env =
     (let stunUrls = (case set_var (STUN_URLS env) of
            Some s \<Rightarrow> map js_trim (js_split CHR '','' s)
          | None \<Rightarrow> [''stun:stun.l.google.com:19302'', ''stun:stun1.l.google.com:19302'']);
          stun = JObj [(''urls'', JArr (map JStr stunUrls))]
      in case set_var (TURN_URL env) of
           None \<Rightarrow> [stun]
         | Some turnUrl \<Rightarrow>
             [stun, JObj [(''urls'', JStr turnUrl), (''username'', JStr (js_default (TURN_USERNAME env) [])),
                          (''credential'', JStr (js_default (TURN_CREDENTIAL env) []))]])"

definition RTC_CONFIG :: "rtc_env \<Rightarrow> json" where
  "RTC_CONFIG env =
     JObj [(''iceServers'', JArr (buildIceServers env)),
           (''iceTransportPolicy'', JStr (js_default (ICE_TRANSPORT_POLICY env) ''all''))]"

section \<open>Browser objects\<close>

record rtc_api =
  valid_description :: "json \<Rightarrow> bool"
  valid_candidate :: "json \<Rightarrow> bool"

text \<open>\<open>new RTCSessionDescription(undefined)\<close> throws in every browser.\<close>

definition description_ok :: "rtc_api \<Rightarrow> json option \<Rightarrow> bool" where
  "description_ok P sdp = (case sdp of None \<Rightarrow> False | Some d \<Rightarrow> valid_description P d)"

text \<open>A track is named by its stream and its place in it.\<close>

type_synonym track = "nat \<times> nat"
type_synonym stream = "track list"

text \<open>
  An \<open>RTCPeerConnection\<close>: its descriptions, its senders (a removed sender keeps its
  place with no track), and the candidates passed to \<open>addIceCandidate\<close>, each with
  whether a remote description was set at the time.
\<close>

record rtc =
  rtc_closed :: bool
  rtc_local :: json
  rtc_remote :: "json option"
  rtc_state :: string
  rtc_senders :: "track option list"
  rtc_on_channel :: bool
  rtc_ice :: "(json \<times> bool) list"

datatype channel_state = DcConnecting | DcOpen | DcClosing | DcClosed

record channel =
  ch_state :: channel_state
  ch_sent :: "string list"

definition new_rtc :: "bool \<Rightarrow> rtc" where
  "new_rtc on_channel =
     \<lparr>rtc_closed = False, rtc_local = JNull, rtc_remote = None, rtc_state = ''new'', rtc_senders = [],
      rtc_on_channel = on_channel, rtc_ice = []\<rparr>"

section \<open>PeerConnection\<close>

datatype callback = Connected | Disconnected | Track stream | Message string

text \<open>
  What is left of an async method after an \<open>await\<close>. The flag of the offer steps marks the
  handler of \<open>negotiationneeded\<close>, which catches; the flag of the others marks
  \<open>handleOffer\<close>, which goes on to answer.
\<close>

datatype cont =
    OfferCreated bool
  | OfferSet bool json
  | RemoteSet bool json
  | Flushing bool json "json list"
  | Flushed bool
  | AnswerCreated
  | AnswerSet json
  | IceAdded json

datatype outcome = Fulfilled json | Failed js_error

text \<open>The private fields, then the browser's side and the traces of what was called.\<close>

record conn =
  c_pc :: "nat option"
  c_dc :: "nat option"
  c_connected :: bool
  c_remoteSet :: bool
  c_pending :: "json list"
  rtcs :: "rtc list"
  channels :: "channel list"
  c_awaiting :: "(nat \<times> nat \<times> cont) list"
  c_next_call :: nat
  c_signals :: "(string \<times> json) list"
  c_callbacks :: "callback list"
  c_rejections :: "js_error list"
  c_warned :: "(json \<times> bool) list"

definition new_conn :: conn where
  "new_conn =
     \<lparr>c_pc = None, c_dc = None, c_connected = False, c_remoteSet = False, c_pending = [], rtcs = [], channels = [],
      c_awaiting = [], c_next_call = 0, c_signals = [], c_callbacks = [], c_rejections = [], c_warned = []\<rparr>"

definition update_rtc :: "nat \<Rightarrow> (rtc \<Rightarrow> rtc) \<Rightarrow> conn \<Rightarrow> conn" where
  "update_rtc i f c = c\<lparr>rtcs := (rtcs c)[i := f (rtcs c ! i)]\<rparr>"

definition update_channel :: "nat \<Rightarrow> (channel \<Rightarrow> channel) \<Rightarrow> conn \<Rightarrow> conn" where
  "update_channel i f c = c\<lparr>channels := (channels c)[i := f (channels c ! i)]\<rparr>"

text \<open>\<open>await\<close> of a call on the \<open>RTCPeerConnection\<close> \<open>i\<close>, with the continuation \<open>k\<close>.\<close>

definition await_call :: "nat \<Rightarrow> cont \<Rightarrow> conn \<Rightarrow> conn" where
  "await_call i k c = c\<lparr>c_awaiting := c_awaiting c @ [(c_next_call c, i, k)], c_next_call := Suc (c_next_call c)\<rparr>"

definition reject_call :: "js_error \<Rightarrow> conn \<Rightarrow> conn" where
  "reject_call e c = c\<lparr>c_rejections := c_rejections c @ [e]\<rparr>"

definition callback :: "callback \<Rightarrow> conn \<Rightarrow> conn" where
  "callback b c = c\<lparr>c_callbacks := c_callbacks c @ [b]\<rparr>"

definition send_signal :: "string \<Rightarrow> json \<Rightarrow> conn \<Rightarrow> conn" where
  "send_signal ty dat c = c\<lparr>c_signals := c_signals c @ [(ty, dat)]\<rparr>"

text \<open>The warning about a candidate; the flag tells whether \<open>addIceCandidate\<close> had been called with it.\<close>

definition warn_candidate :: "bool \<Rightarrow> json \<Rightarrow> conn \<Rightarrow> conn" where
  "warn_candidate called k c = c\<lparr>c_warned := c_warned c @ [(k, called)]\<rparr>"

definition create_rtc :: "bool \<Rightarrow> conn \<Rightarrow> conn" where
  "create_rtc on_channel c = c\<lparr>rtcs := rtcs c @ [new_rtc on_channel], c_pc := Some (length (rtcs c))\<rparr>"

text \<open>A call or a read on \<open>this.#pc\<close>, which throws when \<open>#pc\<close> is \<open>null\<close>.\<close>

definition on_pc :: "conn \<Rightarrow> (nat \<Rightarrow> conn) \<Rightarrow> conn \<Rightarrow> conn" where
  "on_pc c f thrown = (case c_pc c of None \<Rightarrow> thrown | Some i \<Rightarrow> f i)"

text \<open>A failed step of an offer: the renegotiation handler catches and logs it.\<close>

definition offer_fails :: "bool \<Rightarrow> js_error \<Rightarrow> conn \<Rightarrow> conn" where
  "offer_fails caught e c = (if caught then c else reject_call e c)"

definition pc_createOffer :: "conn \<Rightarrow> conn" where
  "pc_createOffer c =
     (let c1 = create_rtc False c;
          c2 = c1\<lparr>channels := channels c1 @ [\<lparr>ch_state = DcConnecting, ch_sent = []\<rparr>], c_dc := Some (length (channels c1))\<rparr>
      in await_call (length (rtcs c)) (OfferCreated False) c2)"

definition negotiation_needed :: "conn \<Rightarrow> conn" where
  "negotiation_needed c = on_pc c (\<lambda>i. await_call i (OfferCreated True) c) c"

definition handleOffer :: "rtc_api \<Rightarrow> json option \<Rightarrow> conn \<Rightarrow> conn" where
  "handleOffer P sdp c =
     (let c1 = (if c_pc c = None then create_rtc True c else c) in
      if description_ok P sdp
      then on_pc c1 (\<lambda>i. await_call i (RemoteSet True (the sdp)) c1) (reject_call TypeError c1)
      else reject_call TypeError c1)"

definition handleAnswer :: "rtc_api \<Rightarrow> json option \<Rightarrow> conn \<Rightarrow> conn" where
  "handleAnswer P sdp c =
     (case c_pc c of
        None \<Rightarrow> c
      | Some i \<Rightarrow>
          if description_ok P sdp then await_call i (RemoteSet False (the sdp)) c else reject_call TypeError c)"

text \<open>\<open>addIceCandidate\<close> on the \<open>RTCPeerConnection\<close> \<open>i\<close>.\<close>

definition add_ice :: "nat \<Rightarrow> json \<Rightarrow> conn \<Rightarrow> conn" where
  "add_ice i k c = update_rtc i (\<lambda>r. r\<lparr>rtc_ice := rtc_ice r @ [(k, rtc_remote r \<noteq> None)]\<rparr>) c"

definition handleIceCandidate :: "rtc_api \<Rightarrow> json option \<Rightarrow> conn \<Rightarrow> conn" where
  "handleIceCandidate P candidate c =
     (case c_pc c of
        None \<Rightarrow> c
      | Some i \<Rightarrow>
          if \<not> truthy candidate then c
          else let k = the candidate in
            if \<not> c_remoteSet c then c\<lparr>c_pending := c_pending c @ [k]\<rparr>
            else if valid_candidate P k then await_call i (IceAdded k) (add_ice i k c)
            else warn_candidate False k c)"

text \<open>The loop of \<open>#flushPendingCandidates\<close>, up to its next \<open>await\<close> or its end.\<close>

fun flush_candidates :: "rtc_api \<Rightarrow> bool \<Rightarrow> nat \<Rightarrow> json list \<Rightarrow> conn \<Rightarrow> conn" where
  "flush_candidates P answering r [] c = await_call r (Flushed answering) c"
| "flush_candidates P answering r (k # ks) c =
     (case c_pc c of
        None \<Rightarrow> flush_candidates P answering r ks (warn_candidate False k c)
      | Some i \<Rightarrow>
          if valid_candidate P k then await_call i (Flushing answering k ks) (add_ice i k c)
          else flush_candidates P answering r ks (warn_candidate False k c))"

definition flushPendingCandidates :: "rtc_api \<Rightarrow> bool \<Rightarrow> nat \<Rightarrow> conn \<Rightarrow> conn" where
  "flushPendingCandidates P answering r c =
     (let candidates = c_pending c in flush_candidates P answering r candidates (c\<lparr>c_pending := []\<rparr>))"

text \<open>A resumed method; \<open>r\<close> is the \<open>RTCPeerConnection\<close> whose call has settled.\<close>

fun resume :: "rtc_api \<Rightarrow> nat \<Rightarrow> cont \<Rightarrow> outcome \<Rightarrow> conn \<Rightarrow> conn" where
  "resume P r (OfferCreated caught) (Fulfilled offer) c =
     on_pc c (\<lambda>i. await_call i (OfferSet caught offer) c) (offer_fails caught TypeError c)"
| "resume P r (OfferCreated caught) (Failed e) c = offer_fails caught e c"
| "resume P r (OfferSet caught offer) (Fulfilled _) c =
     (let c1 = update_rtc r (\<lambda>x. x\<lparr>rtc_local := offer\<rparr>) c in
      on_pc c1 (\<lambda>i. send_signal ''offer'' (rtc_local (rtcs c1 ! i)) c1) (offer_fails caught TypeError c1))"
| "resume P r (OfferSet caught offer) (Failed e) c = offer_fails caught e c"
| "resume P r (RemoteSet answering sdp) (Fulfilled _) c =
     flushPendingCandidates P answering r
       ((update_rtc r (\<lambda>x. x\<lparr>rtc_remote := Some sdp\<rparr>) c)\<lparr>c_remoteSet := True\<rparr>)"
| "resume P r (RemoteSet answering sdp) (Failed e) c = reject_call e c"
| "resume P r (Flushing answering k ks) (Fulfilled _) c = flush_candidates P answering r ks c"
| "resume P r (Flushing answering k ks) (Failed e) c = flush_candidates P answering r ks (warn_candidate True k c)"
| "resume P r (Flushed answering) _ c =
     (if answering then on_pc c (\<lambda>i. await_call i AnswerCreated c) (reject_call TypeError c) else c)"
| "resume P r AnswerCreated (Fulfilled answer) c =
     on_pc c (\<lambda>i. await_call i (AnswerSet answer) c) (reject_call TypeError c)"
| "resume P r AnswerCreated (Failed e) c = reject_call e c"
| "resume P r (AnswerSet answer) (Fulfilled _) c =
     (let c1 = update_rtc r (\<lambda>x. x\<lparr>rtc_local := answer\<rparr>) c in
      on_pc c1 (\<lambda>i. send_signal ''answer'' (rtc_local (rtcs c1 ! i)) c1) (reject_call TypeError c1))"
| "resume P r (AnswerSet answer) (Failed e) c = reject_call e c"
| "resume P r (IceAdded k) (Fulfilled _) c = c"
| "resume P r (IceAdded k) (Failed e) c = warn_candidate True k c"

text \<open>\<open>addTrack\<close> throws when the track already has a sender.\<close>

fun add_tracks :: "nat \<Rightarrow> stream \<Rightarrow> conn \<Rightarrow> conn \<times> js_error option" where
  "add_tracks i [] c = (c, None)"
| "add_tracks i (t # ts) c =
     (if Some t \<in> set (rtc_senders (rtcs c ! i)) then (c, Some (ErrorMsg ''InvalidAccessError''))
      else add_tracks i ts (update_rtc i (\<lambda>r. r\<lparr>rtc_senders := rtc_senders r @ [Some t]\<rparr>) c))"

definition addLocalStream :: "stream \<Rightarrow> conn \<Rightarrow> conn \<times> js_error option" where
  "addLocalStream stream c = (case c_pc c of None \<Rightarrow> (c, None) | Some i \<Rightarrow> add_tracks i stream c)"

definition removeLocalStream :: "conn \<Rightarrow> conn" where
  "removeLocalStream c =
     (case c_pc c of
        None \<Rightarrow> c
      | Some i \<Rightarrow>
          update_rtc i (\<lambda>r. r\<lparr>rtc_senders := map (\<lambda>t. if t \<noteq> None then None else t) (rtc_senders r)\<rparr>) c)"

definition pc_send :: "string \<Rightarrow> conn \<Rightarrow> conn \<times> bool" where
  "pc_send dat c =
     (case c_dc c of
        None \<Rightarrow> (c, False)
      | Some d \<Rightarrow>
          if ch_state (channels c ! d) \<noteq> DcOpen then (c, False)
          else (update_channel d (\<lambda>x. x\<lparr>ch_sent := ch_sent x @ [dat]\<rparr>) c, True))"

text \<open>
  \<open>close\<close> of a data channel. Closing a \<open>RTCPeerConnection\<close> ends all its data channels,
  those included that \<open>#dc\<close> no longer refers to; their \<open>close\<close> event may still come.
\<close>

definition end_channel :: "channel \<Rightarrow> channel" where
  "end_channel x = (if ch_state x = DcClosed then x else x\<lparr>ch_state := DcClosing\<rparr>)"

definition close_channel :: "conn \<Rightarrow> conn" where
  "close_channel c =
     (case c_dc c of
        None \<Rightarrow> c
      | Some d \<Rightarrow>
          (update_channel d end_channel c)\<lparr>c_dc := None\<rparr>)"

definition close_rtc :: "conn \<Rightarrow> conn" where
  "close_rtc c =
     (case c_pc c of
        None \<Rightarrow> c
      | Some i \<Rightarrow>
          (update_rtc i (\<lambda>r. r\<lparr>rtc_closed := True, rtc_state := ''closed''\<rparr>) c)
            \<lparr>channels := map end_channel (channels c), c_pc := None\<rparr>)"

definition pc_close :: "conn \<Rightarrow> conn" where
  "pc_close c = callback Disconnected (close_rtc (close_channel (c\<lparr>c_connected := False\<rparr>)))"

section \<open>Events of the browser\<close>

text \<open>A closed \<open>RTCPeerConnection\<close> fires no event; a channel moves forward through its states.\<close>

datatype rtc_event =
    Settle nat outcome
  | NegotiationNeeded nat
  | IceCandidate nat "json option"
  | ConnectionState nat string
  | TrackEvent nat "stream list"
  | DataChannel nat
  | ChannelOpen nat
  | ChannelClose nat
  | ChannelMessage nat string

definition rtc_alive :: "conn \<Rightarrow> nat \<Rightarrow> bool" where
  "rtc_alive c r = (r < length (rtcs c) \<and> \<not> rtc_closed (rtcs c ! r))"

text \<open>\<open>onconnectionstatechange\<close> reads the state of the current \<open>#pc\<close>.\<close>

definition connection_state_changed :: "conn \<Rightarrow> conn" where
  "connection_state_changed c =
     (case c_pc c of
        None \<Rightarrow> c
      | Some i \<Rightarrow>
          if rtc_state (rtcs c ! i) \<in> {''disconnected'', ''failed''}
          then callback Disconnected (c\<lparr>c_connected := False\<rparr>) else c)"

definition settle :: "rtc_api \<Rightarrow> nat \<Rightarrow> outcome \<Rightarrow> conn \<Rightarrow> conn" where
  "settle P n v c =
     (case map_of (c_awaiting c) n of
        None \<Rightarrow> c
      | Some (r, k) \<Rightarrow> resume P r k v (c\<lparr>c_awaiting := AList.delete n (c_awaiting c)\<rparr>))"

fun rtc_step :: "rtc_api \<Rightarrow> conn \<Rightarrow> rtc_event \<Rightarrow> conn" where
  "rtc_step P c (Settle n v) = settle P n v c"
| "rtc_step P c (NegotiationNeeded r) = (if rtc_alive c r then negotiation_needed c else c)"
| "rtc_step P c (IceCandidate r k) =
     (if rtc_alive c r \<and> truthy k then send_signal ''ice'' (the k) c else c)"
| "rtc_step P c (ConnectionState r s) =
     (if rtc_alive c r then connection_state_changed (update_rtc r (\<lambda>x. x\<lparr>rtc_state := s\<rparr>) c) else c)"
| "rtc_step P c (TrackEvent r streams) =
     (if rtc_alive c r \<and> streams \<noteq> [] then callback (Track (hd streams)) c else c)"
| "rtc_step P c (DataChannel r) =
     (if rtc_alive c r \<and> rtc_on_channel (rtcs c ! r)
      then c\<lparr>channels := channels c @ [\<lparr>ch_state = DcConnecting, ch_sent = []\<rparr>], c_dc := Some (length (channels c))\<rparr>
      else c)"
| "rtc_step P c (ChannelOpen d) =
     (if d < length (channels c) \<and> ch_state (channels c ! d) = DcConnecting
      then callback Connected ((update_channel d (\<lambda>x. x\<lparr>ch_state := DcOpen\<rparr>) c)\<lparr>c_connected := True\<rparr>) else c)"
| "rtc_step P c (ChannelClose d) =
     (if d < length (channels c) \<and> ch_state (channels c ! d) \<noteq> DcClosed
      then callback Disconnected ((update_channel d (\<lambda>x. x\<lparr>ch_state := DcClosed\<rparr>) c)\<lparr>c_connected := False\<rparr>) else c)"
| "rtc_step P c (ChannelMessage d text) =
     (if d < length (channels c) \<and> ch_state (channels c ! d) = DcOpen then callback (Message text) c else c)"

section \<open>PeerMesh\<close>

text \<open>
  The \<open>PeerConnection\<close> objects are a heap, since a closed one may still have awaiting calls;
  \<open>connections\<close> is the \<open>Map\<close> of the class. A callback of object \<open>i\<close> is the mesh's callback
  for the peer \<open>i\<close> was made for (\<open>mesh_peers\<close>).
\<close>

record mesh =
  conns :: "conn list"
  mesh_peers :: "string list"
  connections :: "(string, nat) jmap"

definition new_mesh :: mesh where
  "new_mesh = \<lparr>conns = [], mesh_peers = [], connections = []\<rparr>"

definition update_conn :: "nat \<Rightarrow> (conn \<Rightarrow> conn) \<Rightarrow> mesh \<Rightarrow> mesh" where
  "update_conn i f m = m\<lparr>conns := (conns m)[i := f (conns m ! i)]\<rparr>"

definition addPeer :: "string \<Rightarrow> bool \<Rightarrow> mesh \<Rightarrow> mesh" where
  "addPeer peer isInitiator m =
     (if map_has (connections m) peer then m
      else let i = length (conns m);
               m1 = m\<lparr>conns := conns m @ [new_conn], mesh_peers := mesh_peers m @ [peer],
                      connections := map_set peer i (connections m)\<rparr>
           in if isInitiator then update_conn i pc_createOffer m1 else m1)"

definition removePeer :: "string \<Rightarrow> mesh \<Rightarrow> mesh" where
  "removePeer peer m =
     (case map_get (connections m) peer of
        None \<Rightarrow> m
      | Some i \<Rightarrow> (update_conn i pc_close m)\<lparr>connections := map_delete peer (connections m)\<rparr>)"

definition mesh_handleSignal :: "rtc_api \<Rightarrow> string \<Rightarrow> string \<Rightarrow> json option \<Rightarrow> mesh \<Rightarrow> mesh" where
  "mesh_handleSignal P from signalType dat m =
     (case map_get (connections m) from of
        None \<Rightarrow> m
      | Some i \<Rightarrow>
          if signalType = ''offer'' then update_conn i (handleOffer P dat) m
          else if signalType = ''answer'' then update_conn i (handleAnswer P dat) m
          else if signalType = ''ice'' then update_conn i (handleIceCandidate P dat) m
          else m)"

text \<open>\<open>addLocalStream\<close> never waits for the browser; an exception of it ends the loop.\<close>

fun broadcast_loop :: "stream \<Rightarrow> nat list \<Rightarrow> mesh \<Rightarrow> mesh \<times> js_error option" where
  "broadcast_loop stream [] m = (m, None)"
| "broadcast_loop stream (i # is) m =
     (case addLocalStream stream (conns m ! i) of
        (c, None) \<Rightarrow> broadcast_loop stream is (update_conn i (\<lambda>_. c) m)
      | (c, Some e) \<Rightarrow> (update_conn i (\<lambda>_. c) m, Some e))"

definition broadcastStream :: "stream \<Rightarrow> mesh \<Rightarrow> mesh \<times> js_error option" where
  "broadcastStream stream m = broadcast_loop stream (map snd (connections m)) m"

definition removeAllStreams :: "mesh \<Rightarrow> mesh" where
  "removeAllStreams m = fold (\<lambda>i. update_conn i removeLocalStream) (map snd (connections m)) m"

definition connectedPeers :: "mesh \<Rightarrow> string list" where
  "connectedPeers m = map fst (filter (\<lambda>(peer, i). c_connected (conns m ! i)) (connections m))"

definition getConnection :: "mesh \<Rightarrow> string \<Rightarrow> nat option" where
  "getConnection m peer = map_get (connections m) peer"

definition closeAll :: "mesh \<Rightarrow> mesh" where
  "closeAll m = (fold (\<lambda>i. update_conn i pc_close) (map snd (connections m)) m)\<lparr>connections := []\<rparr>"

datatype mesh_event =
    AddPeer string bool
  | RemovePeer string
  | Signal string string "json option"
  | Broadcast stream
  | RemoveStreams
  | CloseAll
  | SendTo string string
  | Browser nat rtc_event

fun mesh_step :: "rtc_api \<Rightarrow> mesh \<Rightarrow> mesh_event \<Rightarrow> mesh" where
  "mesh_step P m (AddPeer peer initiator) = addPeer peer initiator m"
| "mesh_step P m (RemovePeer peer) = removePeer peer m"
| "mesh_step P m (Signal from ty dat) = mesh_handleSignal P from ty dat m"
| "mesh_step P m (Broadcast stream) = fst (broadcastStream stream m)"
| "mesh_step P m RemoveStreams = removeAllStreams m"
| "mesh_step P m CloseAll = closeAll m"
| "mesh_step P m (SendTo peer dat) =
     (case getConnection m peer of None \<Rightarrow> m | Some i \<Rightarrow> update_conn i (fst \<circ> pc_send dat) m)"
| "mesh_step P m (Browser i e) =
     (if i < length (conns m) then update_conn i (\<lambda>c. rtc_step P c e) m else m)"

abbreviation mesh_run :: "rtc_api \<Rightarrow> mesh \<Rightarrow> mesh_event list \<Rightarrow> mesh" where
  "mesh_run P \<equiv> foldl (mesh_step P)"

section \<open>One browser connection per peer connection\<close>

text \<open>The continuations that run only after a remote description was set.\<close>

fun needs_remote :: "cont \<Rightarrow> bool" where
  "needs_remote (Flushing _ _ _) = True"
| "needs_remote (Flushed _) = True"
| "needs_remote AnswerCreated = True"
| "needs_remote (AnswerSet _) = True"
| "needs_remote (IceAdded _) = True"
| "needs_remote _ = False"

definition awaiting_ok :: "conn \<Rightarrow> nat \<times> nat \<times> cont \<Rightarrow> bool" where
  "awaiting_ok c x \<longleftrightarrow>
     fst x < c_next_call c \<and> fst (snd x) < length (rtcs c) \<and> (needs_remote (snd (snd x)) \<longrightarrow> c_remoteSet c)"

definition ended :: "channel \<Rightarrow> bool" where
  "ended x \<longleftrightarrow> ch_state x = DcClosing \<or> ch_state x = DcClosed"

text \<open>
  At most one \<open>RTCPeerConnection\<close> was made; it is closed exactly when \<open>#pc\<close> is
  \<open>null\<close>, and then its data channels have ended; \<open>#remoteDescriptionSet\<close> tells the truth
  about it; candidates reached it only with a remote description.
\<close>

definition conn_ok :: "conn \<Rightarrow> bool" where
  "conn_ok c \<longleftrightarrow>
     length (rtcs c) \<le> 1
     \<and> (\<forall>i. c_pc c = Some i \<longrightarrow> i < length (rtcs c))
     \<and> (\<forall>r\<in>set (rtcs c). rtc_closed r \<longleftrightarrow> c_pc c = None)
     \<and> (\<forall>d. c_dc c = Some d \<longrightarrow> d < length (channels c))
     \<and> (c_pc c = None \<longrightarrow> list_all ended (channels c))
     \<and> (\<forall>x\<in>set (c_awaiting c). awaiting_ok c x) \<and> distinct (map fst (c_awaiting c))
     \<and> (c_remoteSet c \<longrightarrow> rtcs c \<noteq> [] \<and> (\<forall>r\<in>set (rtcs c). rtc_remote r \<noteq> None))
     \<and> (\<forall>r\<in>set (rtcs c). \<forall>x\<in>set (rtc_ice r). snd x)"

text \<open>No call has made a browser connection and dropped it: the state of every connection in the mesh.\<close>

definition conn_usable :: "conn \<Rightarrow> bool" where
  "conn_usable c \<longleftrightarrow> (c_pc c = None \<longrightarrow> rtcs c = [])"

lemmas conn_prims =
  update_rtc_def update_channel_def await_call_def reject_call_def callback_def send_signal_def warn_candidate_def
  create_rtc_def add_ice_def offer_fails_def on_pc_def

lemma one_rtc_cases:
  assumes "length xs \<le> (1 :: nat)"
  obtains "xs = []" | x where "xs = [x]"
  using assms by (cases xs) auto

lemma conn_ok_createOffer: "conn_ok c \<Longrightarrow> rtcs c = [] \<Longrightarrow> c_pc c = None \<Longrightarrow> conn_ok (pc_createOffer c)"
  by (auto simp: conn_ok_def pc_createOffer_def conn_prims Let_def new_rtc_def awaiting_ok_def less_Suc_eq)

lemma conn_ok_await:
  "conn_ok c \<Longrightarrow> r < length (rtcs c) \<Longrightarrow> needs_remote k \<longrightarrow> c_remoteSet c \<Longrightarrow> conn_ok (await_call r k c)"
  by (fastforce simp: conn_ok_def await_call_def awaiting_ok_def less_Suc_eq)

lemma conn_ok_trace [simp]:
  "conn_ok (reject_call e c) = conn_ok c" "conn_ok (callback b c) = conn_ok c"
  "conn_ok (send_signal ty d c) = conn_ok c" "conn_ok (warn_candidate w k c) = conn_ok c"
  "conn_ok (c\<lparr>c_pending := ks\<rparr>) = conn_ok c" "conn_ok (c\<lparr>c_connected := b'\<rparr>) = conn_ok c"
  by (simp_all add: conn_ok_def conn_prims awaiting_ok_def)

lemma conn_ok_offer_fails [simp]: "conn_ok (offer_fails caught e c) = conn_ok c"
  by (simp add: offer_fails_def)

lemma conn_ok_pc: "conn_ok c \<Longrightarrow> c_pc c = Some i \<Longrightarrow> i < length (rtcs c) \<and> \<not> rtc_closed (rtcs c ! i)"
  by (auto simp: conn_ok_def)

lemma conn_ok_update_rtc:
  assumes "conn_ok c" "\<And>r. rtc_closed (f r) = rtc_closed r" "\<And>r. rtc_remote r \<noteq> None \<Longrightarrow> rtc_remote (f r) \<noteq> None"
    "\<And>r. \<forall>x\<in>set (rtc_ice r). snd x \<Longrightarrow> r \<in> set (rtcs c) \<Longrightarrow> \<forall>x\<in>set (rtc_ice (f r)). snd x"
  shows "conn_ok (update_rtc i f c)"
proof -
  have "length (rtcs c) \<le> 1" using assms(1) by (simp add: conn_ok_def)
  then show ?thesis
  proof (cases rule: one_rtc_cases)
    case 1
    with assms(1) show ?thesis by (simp add: conn_ok_def update_rtc_def awaiting_ok_def)
  next
    case (2 r)
    with assms show ?thesis
      by (cases i) (auto simp: conn_ok_def update_rtc_def awaiting_ok_def)
  qed
qed

lemma conn_ok_add_ice: "conn_ok c \<Longrightarrow> c_remoteSet c \<Longrightarrow> conn_ok (add_ice i k c)"
  unfolding add_ice_def by (rule conn_ok_update_rtc) (auto simp: conn_ok_def)

lemma add_ice_frame [simp]:
  "length (rtcs (add_ice i k c)) = length (rtcs c)" "c_remoteSet (add_ice i k c) = c_remoteSet c"
  "c_pc (add_ice i k c) = c_pc c"
  by (simp_all add: add_ice_def update_rtc_def)

lemma warn_frame [simp]:
  "rtcs (warn_candidate w k c) = rtcs c" "c_remoteSet (warn_candidate w k c) = c_remoteSet c"
  "c_pc (warn_candidate w k c) = c_pc c"
  by (simp_all add: warn_candidate_def)

lemma conn_ok_flush:
  "conn_ok c \<Longrightarrow> c_remoteSet c \<Longrightarrow> r < length (rtcs c) \<Longrightarrow> conn_ok (flush_candidates P a r ks c)"
proof (induction P a r ks c rule: flush_candidates.induct)
  case (1 P a r c)
  then show ?case by (simp add: conn_ok_await)
next
  case (2 P a r k ks c)
  then show ?case
    by (auto split: option.split intro!: conn_ok_await conn_ok_add_ice dest: conn_ok_pc)
qed

lemma conn_ok_description:
  assumes "conn_ok c" "r < length (rtcs c)"
  shows "conn_ok ((update_rtc r (\<lambda>x. x\<lparr>rtc_remote := Some sdp\<rparr>) c)\<lparr>c_remoteSet := True\<rparr>)"
proof -
  have "length (rtcs c) \<le> 1" using assms(1) by (simp add: conn_ok_def)
  then show ?thesis
    using assms by (cases rule: one_rtc_cases) (auto simp: conn_ok_def update_rtc_def awaiting_ok_def)
qed

lemma conn_ok_local: "conn_ok c \<Longrightarrow> conn_ok (update_rtc r (\<lambda>x. x\<lparr>rtc_local := d\<rparr>) c)"
  by (rule conn_ok_update_rtc) auto

lemma conn_ok_on_pc:
  "(\<And>i. c_pc c = Some i \<Longrightarrow> conn_ok (f i)) \<Longrightarrow> conn_ok d \<Longrightarrow> conn_ok (on_pc c f d)"
  by (simp add: on_pc_def split: option.split)

lemma conn_ok_resume:
  assumes "conn_ok c" "r < length (rtcs c)" "needs_remote k \<longrightarrow> c_remoteSet c"
  shows "conn_ok (resume P r k v c)"
  using assms
proof (induction P r k v c rule: resume.induct)
  case (5 P r answering sdp u c)
  then have "conn_ok ((update_rtc r (\<lambda>x. x\<lparr>rtc_remote := Some sdp\<rparr>) c)\<lparr>c_remoteSet := True\<rparr>)"
    by (simp add: conn_ok_description)
  with 5 show ?case
    by (auto simp: flushPendingCandidates_def update_rtc_def intro!: conn_ok_flush)
qed (auto simp: Let_def intro!: conn_ok_on_pc conn_ok_await conn_ok_flush conn_ok_local dest: conn_ok_pc)

lemma awaiting_delete:
  assumes "conn_ok c"
  shows "conn_ok (c\<lparr>c_awaiting := AList.delete n (c_awaiting c)\<rparr>)"
  using assms by (auto simp: conn_ok_def awaiting_ok_def AList.delete_eq distinct_map_filter)

lemma conn_ok_settle: "conn_ok c \<Longrightarrow> conn_ok (settle P n v c)"
proof (cases "map_of (c_awaiting c) n")
  case (Some x)
  obtain r k where x: "x = (r, k)" by (cases x)
  assume ok: "conn_ok c"
  have "(n, r, k) \<in> set (c_awaiting c)" using Some x by (simp add: map_of_SomeD)
  with ok have "awaiting_ok c (n, r, k)" by (auto simp: conn_ok_def)
  with awaiting_delete [OF ok, of n] show ?thesis
    using Some x by (auto simp: settle_def awaiting_ok_def intro!: conn_ok_resume)
qed (simp add: settle_def)

lemma ended_end [simp]: "ended (end_channel x)"
  by (simp add: end_channel_def ended_def)

lemma ended_map [simp]: "list_all ended (map end_channel xs)"
  by (induction xs) simp_all

lemma ended_update: "list_all ended xs \<Longrightarrow> (\<And>x. ended x \<Longrightarrow> ended (f x)) \<Longrightarrow> list_all ended (xs[i := f (xs ! i)])"
  by (cases "i < length xs") (auto simp: list_all_length nth_list_update)

lemma ended_nth: "list_all ended xs \<Longrightarrow> i < length xs \<Longrightarrow> ch_state (xs ! i) = DcClosing \<or> ch_state (xs ! i) = DcClosed"
  by (simp add: list_all_length ended_def)

lemma conn_ok_channels:
  "conn_ok c \<Longrightarrow> (\<And>x. ended x \<Longrightarrow> ended (f x)) \<Longrightarrow> conn_ok (update_channel d f c)"
  "conn_ok c \<Longrightarrow> c_pc c \<noteq> None \<Longrightarrow> conn_ok (update_channel d f c)"
  "conn_ok c \<Longrightarrow> c_pc c \<noteq> None \<Longrightarrow> conn_ok (c\<lparr>channels := channels c @ [x], c_dc := Some (length (channels c))\<rparr>)"
  by (auto simp: conn_ok_def update_channel_def awaiting_ok_def ended_update)

lemma alive_pc: "conn_ok c \<Longrightarrow> rtc_alive c r \<Longrightarrow> c_pc c \<noteq> None"
  by (auto simp: conn_ok_def rtc_alive_def)

lemma connecting_pc:
  assumes "conn_ok c" "d < length (channels c)" "ch_state (channels c ! d) \<in> {DcConnecting, DcOpen}"
  shows "c_pc c \<noteq> None"
  using assms ended_nth [of "channels c" d] by (auto simp: conn_ok_def)

lemma conn_ok_rtc_step: "conn_ok c \<Longrightarrow> conn_ok (rtc_step P c e)"
proof (cases e)
  case (ConnectionState r st)
  assume "conn_ok c"
  then have "conn_ok (update_rtc r (\<lambda>x. x\<lparr>rtc_state := st\<rparr>) c)" by (rule conn_ok_update_rtc) auto
  with \<open>conn_ok c\<close> ConnectionState show ?thesis
    by (simp add: connection_state_changed_def split: option.split)
next
  case (ChannelOpen d)
  assume ok: "conn_ok c"
  show ?thesis
    using conn_ok_channels(2) [OF ok connecting_pc [OF ok, of d]] ChannelOpen ok by simp
next
  case (ChannelClose d)
  assume "conn_ok c"
  then have "conn_ok (update_channel d (\<lambda>x. x\<lparr>ch_state := DcClosed\<rparr>) c)"
    by (rule conn_ok_channels(1)) (simp add: ended_def)
  with \<open>conn_ok c\<close> ChannelClose show ?thesis by simp
qed (auto simp: conn_ok_settle negotiation_needed_def simp del: not_None_eq
    intro!: conn_ok_on_pc conn_ok_await conn_ok_channels(3) dest: conn_ok_pc alive_pc)

lemma conn_ok_close: "conn_ok c \<Longrightarrow> conn_ok (pc_close c)"
proof -
  assume ok: "conn_ok c"
  have "conn_ok (close_channel (c\<lparr>c_connected := False\<rparr>))"
    using ok by (auto simp: close_channel_def conn_ok_def update_channel_def awaiting_ok_def split: option.split
        intro!: ended_update)
  moreover have "conn_ok (close_rtc d)" if d: "conn_ok d" for d
  proof -
    have "length (rtcs d) \<le> 1" using d by (simp add: conn_ok_def)
    then show ?thesis
      using d by (cases rule: one_rtc_cases) (auto simp: close_rtc_def conn_ok_def update_rtc_def awaiting_ok_def split: option.split)
  qed
  ultimately show ?thesis by (simp add: pc_close_def)
qed

lemma conn_ok_create: "conn_ok c \<Longrightarrow> rtcs c = [] \<Longrightarrow> conn_ok (create_rtc b c)"
  by (auto simp: conn_ok_def create_rtc_def new_rtc_def awaiting_ok_def)

lemma conn_ok_handleOffer:
  assumes "conn_ok c" "conn_usable c"
  shows "conn_ok (handleOffer P sdp c)"
proof -
  have "conn_ok (if c_pc c = None then create_rtc True c else c)"
    using assms by (simp add: conn_ok_create conn_usable_def)
  then show ?thesis
    by (auto simp: handleOffer_def Let_def intro!: conn_ok_on_pc conn_ok_await dest: conn_ok_pc)
qed

lemma conn_ok_handleAnswer: "conn_ok c \<Longrightarrow> conn_ok (handleAnswer P sdp c)"
  by (auto simp: handleAnswer_def split: option.split intro!: conn_ok_await dest: conn_ok_pc)

lemma conn_ok_handleIce: "conn_ok c \<Longrightarrow> conn_ok (handleIceCandidate P k c)"
  by (auto simp: handleIceCandidate_def Let_def split: option.split intro!: conn_ok_await conn_ok_add_ice dest: conn_ok_pc)

lemma conn_ok_add_tracks: "conn_ok c \<Longrightarrow> conn_ok (fst (add_tracks i ts c))"
proof (induction i ts c rule: add_tracks.induct)
  case (2 i t ts c)
  then have "conn_ok (update_rtc i (\<lambda>r. r\<lparr>rtc_senders := rtc_senders r @ [Some t]\<rparr>) c)"
    by (auto intro!: conn_ok_update_rtc)
  with 2 show ?case by simp
qed simp

lemma conn_ok_streams:
  "conn_ok c \<Longrightarrow> conn_ok (fst (addLocalStream ts c))" "conn_ok c \<Longrightarrow> conn_ok (removeLocalStream c)"
  "conn_ok c \<Longrightarrow> conn_ok (fst (pc_send dat c))"
  by (auto simp: addLocalStream_def removeLocalStream_def pc_send_def conn_ok_add_tracks
      intro!: conn_ok_update_rtc conn_ok_channels(1) split: option.split) (simp add: ended_def)

lemma conn_ok_new [simp]: "conn_ok new_conn" "conn_usable new_conn"
  by (simp_all add: new_conn_def conn_ok_def conn_usable_def)

section \<open>What an event leaves unchanged\<close>

text \<open>No event of the browser makes, closes or drops a browser connection.\<close>

definition same_pc :: "conn \<Rightarrow> conn \<Rightarrow> bool" where
  "same_pc c d \<longleftrightarrow> c_pc d = c_pc c \<and> map rtc_closed (rtcs d) = map rtc_closed (rtcs c)"

lemma same_pc_refl [simp]: "same_pc c c"
  by (simp add: same_pc_def)

lemma same_pc_trans: "same_pc c d \<Longrightarrow> same_pc d e \<Longrightarrow> same_pc c e"
  by (simp add: same_pc_def)

lemma same_pc_trace [simp]:
  "same_pc c (reject_call e c)" "same_pc c (callback b c)" "same_pc c (send_signal ty d c)"
  "same_pc c (warn_candidate w k c)" "same_pc c (await_call i k' c)" "same_pc c (update_channel n g c)"
  "same_pc c (offer_fails caught e c)" "same_pc c (c\<lparr>c_pending := ks\<rparr>)" "same_pc c (c\<lparr>c_connected := b'\<rparr>)"
  "same_pc c (c\<lparr>c_awaiting := aw\<rparr>)" "same_pc c (c\<lparr>c_remoteSet := b'\<rparr>)" "same_pc c (c\<lparr>channels := chs, c_dc := dc\<rparr>)"
  by (simp_all add: same_pc_def conn_prims)

lemma map_update_same: "(\<And>x. g (f x) = g x) \<Longrightarrow> map g (xs[i := f (xs ! i)]) = map g xs"
  by (induction xs arbitrary: i) (auto split: nat.split)

lemma same_pc_update: "(\<And>r. rtc_closed (f r) = rtc_closed r) \<Longrightarrow> same_pc c (update_rtc i f c)"
  by (simp add: same_pc_def update_rtc_def map_update_same)

lemma same_pc_ice [simp]: "same_pc c (add_ice i k c)"
  unfolding add_ice_def by (rule same_pc_update) simp

lemma same_pc_flush: "same_pc c (flush_candidates P a r ks c)"
proof (induction P a r ks c rule: flush_candidates.induct)
  case (2 P a r k ks c)
  then show ?case
    by (auto split: option.split intro: same_pc_trans [OF same_pc_ice same_pc_trace(5)] same_pc_trans [OF same_pc_trace(4)])
qed simp

lemma same_pc_on_pc: "(\<And>i. same_pc c (f i)) \<Longrightarrow> same_pc c d \<Longrightarrow> same_pc c (on_pc c' f d)"
  by (simp add: on_pc_def split: option.split)

lemma same_pc_resume: "same_pc c (resume P r k v c)"
proof (induction P r k v c rule: resume.induct)
  case (5 P r answering sdp u c)
  let ?c = "(update_rtc r (\<lambda>x. x\<lparr>rtc_remote := Some sdp\<rparr>) c)\<lparr>c_remoteSet := True\<rparr>"
  have "same_pc c ?c" using same_pc_update [of "\<lambda>x. x\<lparr>rtc_remote := Some sdp\<rparr>" c r] by (simp add: same_pc_def)
  moreover have "same_pc ?c (flushPendingCandidates P answering r ?c)"
    unfolding flushPendingCandidates_def Let_def by (rule same_pc_trans [OF same_pc_trace(8) same_pc_flush])
  ultimately show ?case using same_pc_trans by simp
next
  case (3 P r caught offer u c)
  have "same_pc c (update_rtc r (\<lambda>x. x\<lparr>rtc_local := offer\<rparr>) c)" by (rule same_pc_update) simp
  then show ?case by (auto simp: Let_def intro!: same_pc_on_pc intro: same_pc_trans)
next
  case (12 P r answer u c)
  have "same_pc c (update_rtc r (\<lambda>x. x\<lparr>rtc_local := answer\<rparr>) c)" by (rule same_pc_update) simp
  then show ?case by (auto simp: Let_def intro!: same_pc_on_pc intro: same_pc_trans)
qed (auto intro!: same_pc_on_pc same_pc_flush intro: same_pc_trans [OF same_pc_trace(4) same_pc_flush])

lemma same_pc_step: "same_pc c (rtc_step P c e)"
proof (cases e)
  case (Settle n v)
  have "same_pc (c\<lparr>c_awaiting := aw\<rparr>) (resume P r k v (c\<lparr>c_awaiting := aw\<rparr>))" for aw r k
    by (rule same_pc_resume)
  then have "same_pc c (resume P r k v (c\<lparr>c_awaiting := aw\<rparr>))" for aw r k
    by (rule same_pc_trans [OF same_pc_trace(10)])
  with Settle show ?thesis by (auto simp: settle_def split: option.split)
next
  case (ConnectionState r st)
  have "same_pc c (update_rtc r (\<lambda>x. x\<lparr>rtc_state := st\<rparr>) c)" by (rule same_pc_update) simp
  with ConnectionState show ?thesis
    by (simp add: connection_state_changed_def same_pc_def conn_prims split: option.split)
qed (simp_all add: negotiation_needed_def on_pc_def same_pc_def conn_prims split: option.split)

text \<open>
  A connection whose \<open>#pc\<close> is \<open>null\<close> sends no signal, adds no candidate and writes to no
  channel; it reports no message, stream or connection, only that it is disconnected,
  whatever still settles and whatever the browser still fires.
\<close>

definition silent_as :: "conn \<Rightarrow> conn \<Rightarrow> bool" where
  "silent_as c d \<longleftrightarrow>
     c_signals d = c_signals c \<and> map rtc_ice (rtcs d) = map rtc_ice (rtcs c)
     \<and> map ch_sent (channels d) = map ch_sent (channels c)
     \<and> (\<exists>n. c_callbacks d = c_callbacks c @ replicate n Disconnected)"

lemma silent_same:
  "c_signals d = c_signals c \<Longrightarrow> map rtc_ice (rtcs d) = map rtc_ice (rtcs c) \<Longrightarrow>
     map ch_sent (channels d) = map ch_sent (channels c) \<Longrightarrow> c_callbacks d = c_callbacks c \<Longrightarrow> silent_as c d"
  by (auto simp: silent_as_def intro: exI [of _ 0])

lemma silent_refl [simp]: "silent_as c c"
  by (rule silent_same) simp_all

lemma silent_trans:
  assumes "silent_as c d" "silent_as d e"
  shows "silent_as c e"
proof -
  obtain n k where "c_callbacks d = c_callbacks c @ replicate n Disconnected"
    "c_callbacks e = c_callbacks d @ replicate k Disconnected"
    using assms by (auto simp: silent_as_def)
  then have "c_callbacks e = c_callbacks c @ replicate (n + k) Disconnected" by (simp add: replicate_add)
  with assms show ?thesis by (auto simp: silent_as_def)
qed

lemma silent_trace:
  "silent_as c (warn_candidate w k c)" "silent_as c (await_call i k' c)" "silent_as c (reject_call e c)"
  "silent_as c (offer_fails caught e c)" "silent_as c (c\<lparr>c_awaiting := aw\<rparr>)" "silent_as c (c\<lparr>c_remoteSet := b, c_pending := ks\<rparr>)"
  by (rule silent_same; simp add: conn_prims)+

lemma silent_update: "(\<And>r. rtc_ice (f r) = rtc_ice r) \<Longrightarrow> silent_as c (update_rtc i f c)"
  by (rule silent_same) (simp_all add: update_rtc_def map_update_same)

lemma silent_flush: "c_pc c = None \<Longrightarrow> silent_as c (flush_candidates P a r ks c)"
proof (induction P a r ks c rule: flush_candidates.induct)
  case (2 P a r k ks c)
  then show ?case using silent_trans [OF silent_trace(1)] by simp
qed (simp add: silent_trace)

lemma silent_resume: "c_pc c = None \<Longrightarrow> silent_as c (resume P r k v c)"
proof (induction P r k v c rule: resume.induct)
  case (5 P r answering sdp u c)
  let ?d = "update_rtc r (\<lambda>x. x\<lparr>rtc_remote := Some sdp\<rparr>) c"
  let ?c = "?d\<lparr>c_remoteSet := True, c_pending := []\<rparr>"
  have "silent_as c ?d" by (rule silent_update) simp
  moreover have "silent_as ?d ?c" by (rule silent_trace)
  moreover have "silent_as ?c (flush_candidates P answering r (c_pending c) ?c)"
    by (rule silent_flush) (simp add: update_rtc_def 5)
  ultimately have "silent_as c (flush_candidates P answering r (c_pending c) ?c)" by (blast intro: silent_trans)
  then show ?case by (simp add: flushPendingCandidates_def Let_def update_rtc_def)
next
  case (8 P r answering k ks e c)
  have "silent_as (warn_candidate True k c) (flush_candidates P answering r ks (warn_candidate True k c))"
    by (rule silent_flush) (simp add: 8)
  then show ?case using silent_trans [OF silent_trace(1)] by simp
next
  case (3 P r caught offer u c)
  then show ?case
    using silent_trans [OF silent_update [of "\<lambda>x. x\<lparr>rtc_local := offer\<rparr>" c r] silent_trace(4)]
    by (simp add: on_pc_def Let_def update_rtc_def)
next
  case (12 P r answer u c)
  then show ?case
    using silent_trans [OF silent_update [of "\<lambda>x. x\<lparr>rtc_local := answer\<rparr>" c r] silent_trace(3)]
    by (simp add: on_pc_def Let_def update_rtc_def)
qed (simp_all add: silent_flush silent_trace on_pc_def)

lemma silent_settle: "c_pc c = None \<Longrightarrow> silent_as c (settle P n v c)"
proof (cases "map_of (c_awaiting c) n")
  case (Some x)
  assume "c_pc c = None"
  then have "silent_as (c\<lparr>c_awaiting := aw\<rparr>) (resume P r k v (c\<lparr>c_awaiting := aw\<rparr>))" for aw r k
    by (simp add: silent_resume)
  with Some show ?thesis by (auto simp: settle_def split: prod.split intro: silent_trans [OF silent_trace(5)])
qed (simp add: settle_def)

lemma silent_step:
  assumes "conn_ok c" "c_pc c = None"
  shows "silent_as c (rtc_step P c e)"
proof -
  have dead: "\<not> rtc_alive c r" for r
    using assms alive_pc by blast
  have over: "ch_state (channels c ! d) \<noteq> DcConnecting" "ch_state (channels c ! d) \<noteq> DcOpen" if "d < length (channels c)" for d
    using connecting_pc [OF assms(1) that] assms(2) by auto
  show ?thesis
  proof (cases e)
    case (Settle n v)
    with assms(2) show ?thesis by (simp add: silent_settle)
  next
    case (ChannelClose d)
    have "silent_as c (callback Disconnected ((update_channel d (\<lambda>x. x\<lparr>ch_state := DcClosed\<rparr>) c)\<lparr>c_connected := False\<rparr>))"
      by (auto simp: silent_as_def callback_def update_channel_def map_update_same intro: exI [of _ 1])
    with ChannelClose show ?thesis by simp
  qed (use over in \<open>auto simp: dead\<close>)
qed

section \<open>The mesh invariant\<close>

text \<open>
  Each peer of the map has its own connection object; an object outside the map is
  closed for good.
\<close>

definition in_map :: "mesh \<Rightarrow> nat \<Rightarrow> bool" where
  "in_map m i = (i \<in> snd ` set (connections m))"

definition slot_ok :: "bool \<Rightarrow> conn \<Rightarrow> bool" where
  "slot_ok inside c \<longleftrightarrow> conn_ok c \<and> (if inside then conn_usable c else c_pc c = None)"

definition mesh_ok :: "mesh \<Rightarrow> bool" where
  "mesh_ok m \<longleftrightarrow>
     map_ok (connections m) \<and> length (mesh_peers m) = length (conns m)
     \<and> (\<forall>(p, i)\<in>set (connections m). i < length (conns m) \<and> mesh_peers m ! i = p)
     \<and> (\<forall>i<length (conns m). slot_ok (in_map m i) (conns m ! i))"

lemma same_pc_usable: "same_pc c d \<Longrightarrow> conn_usable c \<Longrightarrow> conn_usable d"
  by (auto simp: same_pc_def conn_usable_def)

lemma slot_ok_same: "slot_ok b c \<Longrightarrow> (conn_ok c \<Longrightarrow> conn_ok d) \<Longrightarrow> same_pc c d \<Longrightarrow> slot_ok b d"
  by (auto simp: slot_ok_def same_pc_def conn_usable_def)

lemma mesh_ok_indices: "mesh_ok m \<Longrightarrow> \<forall>i\<in>set (map snd (connections m)). i < length (conns m)"
  by (auto simp: mesh_ok_def)

lemma update_conn_frame [simp]:
  "mesh_peers (update_conn i f m) = mesh_peers m" "connections (update_conn i f m) = connections m"
  "length (conns (update_conn i f m)) = length (conns m)" "in_map (update_conn i f m) = in_map m"
  by (simp_all add: update_conn_def in_map_def fun_eq_iff)

lemma nth_update_conn: "i < length (conns m) \<Longrightarrow> conns (update_conn j f m) ! i = (if i = j then f (conns m ! i) else conns m ! i)"
  by (simp add: update_conn_def nth_list_update)

lemma mesh_ok_slot: "mesh_ok m \<Longrightarrow> i < length (conns m) \<Longrightarrow> slot_ok (in_map m i) (conns m ! i)"
  by (simp add: mesh_ok_def)

lemma mesh_ok_update:
  "mesh_ok m \<Longrightarrow> i < length (conns m) \<Longrightarrow> slot_ok (in_map m i) (f (conns m ! i)) \<Longrightarrow> mesh_ok (update_conn i f m)"
  by (simp add: mesh_ok_def nth_update_conn)

lemma in_map_index: "mesh_ok m \<Longrightarrow> in_map m i \<Longrightarrow> i < length (conns m)"
  by (auto simp: mesh_ok_def in_map_def)

lemma in_map_get: "map_get (connections m) p = Some i \<Longrightarrow> in_map m i"
  by (force simp: in_map_def dest: map_get_in_set)

text \<open>An operation on a connection of the map, and one that leaves \<open>#pc\<close> alone.\<close>

lemma mesh_ok_update_in:
  assumes "mesh_ok m" "in_map m i" "\<And>c. conn_ok c \<Longrightarrow> conn_usable c \<Longrightarrow> conn_ok (f c) \<and> conn_usable (f c)"
  shows "mesh_ok (update_conn i f m)"
proof -
  have i: "i < length (conns m)" using assms(1,2) by (rule in_map_index)
  from mesh_ok_slot [OF assms(1) i] assms(2,3) have "slot_ok (in_map m i) (f (conns m ! i))"
    by (simp add: slot_ok_def)
  with assms(1) i show ?thesis by (rule mesh_ok_update)
qed

lemma mesh_ok_update_same:
  assumes "mesh_ok m" "i < length (conns m)" "\<And>c. conn_ok c \<Longrightarrow> conn_ok (f c)" "\<And>c. same_pc c (f c)"
  shows "mesh_ok (update_conn i f m)"
  using slot_ok_same [OF mesh_ok_slot [OF assms(1,2)] assms(3,4)] assms(1,2) by (simp add: mesh_ok_update)

lemma conn_usable_ops:
  "conn_usable c \<Longrightarrow> conn_usable (handleOffer P sdp c)" "conn_usable c \<Longrightarrow> conn_usable (handleAnswer P sdp c)"
  "conn_usable c \<Longrightarrow> conn_usable (handleIceCandidate P k c)" "conn_usable (pc_createOffer c)"
  by (auto simp: handleOffer_def handleAnswer_def handleIceCandidate_def pc_createOffer_def conn_usable_def Let_def
      conn_prims split: option.split)

lemma same_pc_add_tracks: "same_pc c (fst (add_tracks i ts c))"
proof (induction i ts c rule: add_tracks.induct)
  case (2 i t ts c)
  let ?c = "update_rtc i (\<lambda>r. r\<lparr>rtc_senders := rtc_senders r @ [Some t]\<rparr>) c"
  have "same_pc c ?c" by (rule same_pc_update) simp
  with 2 show ?case by (auto intro: same_pc_trans)
qed simp

lemma same_pc_streams: "same_pc c (fst (addLocalStream ts c))" "same_pc c (removeLocalStream c)" "same_pc c (fst (pc_send dat c))"
  by (auto simp: addLocalStream_def removeLocalStream_def pc_send_def same_pc_add_tracks intro!: same_pc_update
      split: option.split)

lemma close_drops_pc [simp]: "c_pc (pc_close c) = None" "c_dc (pc_close c) = None"
  by (auto simp: pc_close_def close_rtc_def close_channel_def conn_prims split: option.split)

text \<open>\<open>removePeer\<close> and \<open>closeAll\<close> close connections before they leave the map.\<close>

definition closed_conns :: "nat list \<Rightarrow> mesh \<Rightarrow> mesh" where
  "closed_conns is m = fold (\<lambda>i. update_conn i pc_close) is m"

lemma closed_conns_simps [simp]:
  "closed_conns [] m = m" "closed_conns (i # is) m = closed_conns is (update_conn i pc_close m)"
  by (simp_all add: closed_conns_def)

lemma closed_conns_frame [simp]:
  "mesh_peers (closed_conns is m) = mesh_peers m" "connections (closed_conns is m) = connections m"
  "length (conns (closed_conns is m)) = length (conns m)"
  by (induction "is" arbitrary: m) auto

lemma closed_conns_other: "i < length (conns m) \<Longrightarrow> i \<notin> set is \<Longrightarrow> conns (closed_conns is m) ! i = conns m ! i"
  by (induction "is" arbitrary: m) (auto simp: nth_update_conn)

lemma closed_conns_conn_ok:
  "i < length (conns m) \<Longrightarrow> conn_ok (conns m ! i) \<Longrightarrow> conn_ok (conns (closed_conns is m) ! i)"
proof (induction "is" arbitrary: m)
  case (Cons j js)
  then show ?case
    using Cons.IH [of "update_conn j pc_close m"] by (cases "i = j") (simp_all add: nth_update_conn conn_ok_close)
qed simp

lemma closed_conns_keep:
  "i < length (conns m) \<Longrightarrow> c_pc (conns m ! i) = None \<Longrightarrow> c_pc (conns (closed_conns is m) ! i) = None"
  by (induction "is" arbitrary: m) (auto simp: nth_update_conn)

lemma closed_conns_closed:
  "i < length (conns m) \<Longrightarrow> i \<in> set is \<Longrightarrow> c_pc (conns (closed_conns is m) ! i) = None"
proof (induction "is" arbitrary: m)
  case (Cons j js)
  then show ?case
    by (cases "i = j") (auto intro!: closed_conns_keep simp: nth_update_conn)
qed simp

lemma mesh_ok_close_out:
  assumes ok: "mesh_ok m" and cs: "map_ok cs" "set cs \<subseteq> set (connections m)"
    and "is": "\<And>i. i \<in> set is \<longleftrightarrow> in_map m i \<and> i \<notin> snd ` set cs"
  shows "mesh_ok ((closed_conns is m)\<lparr>connections := cs\<rparr>)"
proof -
  have slot: "slot_ok (i \<in> snd ` set cs) (conns (closed_conns is m) ! i)" if i: "i < length (conns m)" for i
  proof (cases "i \<in> set is")
    case True
    then have "i \<notin> snd ` set cs" using "is" by blast
    with closed_conns_closed [OF i True] mesh_ok_slot [OF ok i] closed_conns_conn_ok [OF i] show ?thesis
      by (simp add: slot_ok_def)
  next
    case False
    then have "in_map m i \<longleftrightarrow> i \<in> snd ` set cs" using "is" cs(2) by (auto simp: in_map_def)
    with closed_conns_other [OF i False] mesh_ok_slot [OF ok i] show ?thesis by simp
  qed
  have "\<forall>(p, i)\<in>set cs. i < length (conns m) \<and> mesh_peers m ! i = p"
    using ok cs(2) unfolding mesh_ok_def by blast
  with slot ok cs(1) show ?thesis
    unfolding mesh_ok_def by (simp add: in_map_def)
qed

text \<open>A new entry of the map, for a new object.\<close>

definition insert_conn :: "string \<Rightarrow> mesh \<Rightarrow> mesh" where
  "insert_conn peer m =
     m\<lparr>conns := conns m @ [new_conn], mesh_peers := mesh_peers m @ [peer],
       connections := map_set peer (length (conns m)) (connections m)\<rparr>"

lemma mesh_ok_insert:
  assumes ok: "mesh_ok m" and new: "\<not> map_has (connections m) peer"
  shows "mesh_ok (insert_conn peer m)" "in_map (insert_conn peer m) (length (conns m))"
proof -
  have eq: "connections (insert_conn peer m) = connections m @ [(peer, length (conns m))]"
    using new by (simp add: insert_conn_def map_set_new)
  then have "in_map (insert_conn peer m) i \<longleftrightarrow> in_map m i \<or> i = length (conns m)" for i
    by (auto simp: in_map_def)
  moreover have "map_ok (connections (insert_conn peer m))"
    using ok by (simp add: insert_conn_def mesh_ok_def)
  ultimately show "mesh_ok (insert_conn peer m)"
    using ok eq by (auto simp: mesh_ok_def insert_conn_def nth_append less_Suc_eq slot_ok_def)
  show "in_map (insert_conn peer m) (length (conns m))" by (simp add: in_map_def eq)
qed

lemma addPeer_insert:
  "addPeer peer initiator m =
     (if map_has (connections m) peer then m
      else if initiator then update_conn (length (conns m)) pc_createOffer (insert_conn peer m) else insert_conn peer m)"
  by (simp add: addPeer_def insert_conn_def Let_def)

lemma mesh_ok_addPeer: "mesh_ok m \<Longrightarrow> mesh_ok (addPeer peer initiator m)"
proof (cases "map_has (connections m) peer")
  case False
  assume ok: "mesh_ok m"
  note ins = mesh_ok_insert [OF ok False]
  have last: "conns (insert_conn peer m) ! length (conns m) = new_conn" "length (conns m) < length (conns (insert_conn peer m))"
    by (simp_all add: insert_conn_def)
  have "slot_ok True (pc_createOffer new_conn)"
    by (simp add: slot_ok_def conn_usable_ops(4) conn_ok_createOffer new_conn_def [THEN arg_cong, of rtcs]
        new_conn_def [THEN arg_cong, of c_pc])
  with ins last have "mesh_ok (update_conn (length (conns m)) pc_createOffer (insert_conn peer m))"
    by (intro mesh_ok_update) simp_all
  with ins False show ?thesis by (simp add: addPeer_insert)
qed (simp add: addPeer_insert)

lemma mesh_ok_removePeer:
  assumes ok: "mesh_ok m"
  shows "mesh_ok (removePeer peer m)"
proof (cases "map_get (connections m) peer")
  case (Some i)
  let ?cs = "map_delete peer (connections m)"
  have maps: "map_ok (connections m)" "mesh_peers m ! k = p" if "(p, k) \<in> set (connections m)" for p k
    using ok that by (auto simp: mesh_ok_def)
  have sub: "set ?cs = {x \<in> set (connections m). fst x \<noteq> peer}"
    by (auto simp: map_delete_def AList.delete_eq)
  have entry: "(peer, i) \<in> set (connections m)" using Some by (rule map_get_in_set)
  have "j \<in> set [i] \<longleftrightarrow> in_map m j \<and> j \<notin> snd ` set ?cs" for j
  proof
    assume "j \<in> set [i]"
    then have j: "j = i" by simp
    have "i \<notin> snd ` set ?cs"
    proof
      assume "i \<in> snd ` set ?cs"
      then obtain q where "(q, i) \<in> set (connections m)" "q \<noteq> peer" using sub by auto
      with maps(2) [OF entry] maps(2) [of q i] show False by simp
    qed
    with j in_map_get [OF Some] show "in_map m j \<and> j \<notin> snd ` set ?cs" by blast
  next
    assume "in_map m j \<and> j \<notin> snd ` set ?cs"
    then obtain p where "(p, j) \<in> set (connections m)" by (auto simp: in_map_def)
    moreover have "(p, j) \<notin> set ?cs" using \<open>in_map m j \<and> j \<notin> snd ` set ?cs\<close> by (metis image_eqI snd_conv)
    ultimately have "(p, j) \<in> set (connections m)" "p = peer" using sub by auto
    then have "map_get (connections m) peer = Some j" using map_get_iff [OF maps(1) [OF entry]] by simp
    with Some show "j \<in> set [i]" by simp
  qed
  then have "mesh_ok ((closed_conns [i] m)\<lparr>connections := ?cs\<rparr>)"
    using ok maps(1) [OF entry] sub by (intro mesh_ok_close_out) auto
  with Some show ?thesis by (simp add: removePeer_def)
qed (simp add: removePeer_def ok)

lemma mesh_ok_closeAll: "mesh_ok m \<Longrightarrow> mesh_ok (closeAll m)"
proof -
  assume "mesh_ok m"
  then have "mesh_ok ((closed_conns (map snd (connections m)) m)\<lparr>connections := []\<rparr>)"
    by (intro mesh_ok_close_out) (auto simp: in_map_def)
  then show ?thesis by (simp add: closeAll_def closed_conns_def)
qed

lemma mesh_ok_broadcast: "mesh_ok m \<Longrightarrow> \<forall>i\<in>set is. i < length (conns m) \<Longrightarrow> mesh_ok (fst (broadcast_loop s is m))"
proof (induction s "is" m rule: broadcast_loop.induct)
  case (2 s i "is" m)
  let ?c = "fst (addLocalStream s (conns m ! i))"
  have "slot_ok (in_map m i) (conns m ! i)" using 2 by (simp add: mesh_ok_slot)
  then have "slot_ok (in_map m i) ?c" by (rule slot_ok_same) (rule conn_ok_streams same_pc_streams; assumption?)+
  then have "mesh_ok (update_conn i (\<lambda>_. ?c) m)" using 2 by (simp add: mesh_ok_update)
  with 2 show ?case by (auto split: prod.split option.split)
qed simp

lemma mesh_ok_remove_streams:
  "mesh_ok m \<Longrightarrow> \<forall>i\<in>set is. i < length (conns m) \<Longrightarrow> mesh_ok (fold (\<lambda>i. update_conn i removeLocalStream) is m)"
proof (induction "is" arbitrary: m)
  case (Cons i "is")
  then have "mesh_ok (update_conn i removeLocalStream m)"
    by (intro mesh_ok_update_same) (auto simp: conn_ok_streams same_pc_streams)
  with Cons show ?case by simp
qed simp

lemma mesh_ok_removeAllStreams: "mesh_ok m \<Longrightarrow> mesh_ok (removeAllStreams m)"
  unfolding removeAllStreams_def by (blast intro: mesh_ok_remove_streams dest: mesh_ok_indices)

lemma mesh_ok_step: "mesh_ok m \<Longrightarrow> mesh_ok (mesh_step P m e)"
proof (cases e)
  case (Signal sender ty dat)
  assume "mesh_ok m"
  with Signal show ?thesis
    by (auto simp: mesh_handleSignal_def conn_ok_handleOffer conn_ok_handleAnswer conn_ok_handleIce conn_usable_ops
        split: option.split intro!: mesh_ok_update_in dest: in_map_get)
next
  case (Broadcast s)
  assume "mesh_ok m"
  with mesh_ok_broadcast [OF _ mesh_ok_indices] Broadcast show ?thesis by (simp add: broadcastStream_def)
next
  case (SendTo p d)
  assume ok: "mesh_ok m"
  with SendTo show ?thesis
    by (auto simp: getConnection_def conn_ok_streams same_pc_streams split: option.split
        intro!: mesh_ok_update_same dest: in_map_get in_map_index [OF ok])
qed (auto simp: mesh_ok_addPeer mesh_ok_removePeer mesh_ok_closeAll mesh_ok_removeAllStreams conn_ok_rtc_step same_pc_step
    intro!: mesh_ok_update_same)

interpretation mesh: event_machine "mesh_step P" mesh_ok for P
  by unfold_locales (rule mesh_ok_step)

lemma mesh_ok_new: "mesh_ok new_mesh"
  by (simp add: mesh_ok_def new_mesh_def)

section \<open>The account of the candidates\<close>

text \<open>Where a candidate handed to \<open>handleIceCandidate\<close> can be: waiting, added, given up, or left in a flush.\<close>

fun to_flush :: "cont \<Rightarrow> json multiset" where
  "to_flush (Flushing _ _ ks) = mset ks"
| "to_flush _ = {#}"

definition tried :: "conn \<Rightarrow> json multiset" where
  "tried c = sum_list (map (\<lambda>r. mset (map fst (rtc_ice r))) (rtcs c))"

definition given_up :: "conn \<Rightarrow> json multiset" where
  "given_up c = mset (map fst (filter (\<lambda>x. \<not> snd x) (c_warned c)))"

definition left_over :: "conn \<Rightarrow> json multiset" where
  "left_over c = mset (c_pending c) + sum_list (map (\<lambda>x. to_flush (snd (snd x))) (c_awaiting c))"

definition handed :: "conn \<Rightarrow> json multiset" where
  "handed c = tried c + given_up c + left_over c"

lemmas handed_defs = handed_def tried_def given_up_def left_over_def

lemma handed_trace [simp]:
  "handed (reject_call e c) = handed c" "handed (callback b c) = handed c" "handed (send_signal ty d c) = handed c"
  "handed (update_channel n g c) = handed c" "handed (offer_fails caught e c) = handed c"
  "handed (c\<lparr>c_connected := b'\<rparr>) = handed c" "handed (c\<lparr>c_remoteSet := b'\<rparr>) = handed c"
  "handed (c\<lparr>channels := chs\<rparr>) = handed c" "handed (c\<lparr>c_pc := i\<rparr>) = handed c"
  "handed (c\<lparr>c_dc := dc\<rparr>) = handed c" "handed (c\<lparr>c_remoteSet := b', c_pending := ks\<rparr>) = handed (c\<lparr>c_pending := ks\<rparr>)"
  by (simp_all add: handed_defs conn_prims)

lemma handed_await [simp]: "handed (await_call i k c) = handed c + to_flush k"
  by (simp add: handed_defs await_call_def)

lemma handed_warn [simp]: "handed (warn_candidate called k c) = handed c + (if called then {#} else {#k#})"
  by (simp add: handed_defs warn_candidate_def)

lemma handed_update_rtc: "(\<And>r. rtc_ice (f r) = rtc_ice r) \<Longrightarrow> handed (update_rtc i f c) = handed c"
  using map_update_same [of "\<lambda>r. mset (map fst (rtc_ice r))" f "rtcs c" i]
  by (simp add: handed_defs update_rtc_def)

lemma handed_add_ice: "i < length (rtcs c) \<Longrightarrow> handed (add_ice i k c) = handed c + {#k#}"
  using sum_list_update_add [of i "rtcs c" "\<lambda>r. mset (map fst (rtc_ice r))"
      "(rtcs c ! i)\<lparr>rtc_ice := rtc_ice (rtcs c ! i) @ [(k, rtc_remote (rtcs c ! i) \<noteq> None)]\<rparr>" "{#k#}"]
  by (simp add: handed_defs add_ice_def update_rtc_def ac_simps)

lemma handed_flush:
  "(\<And>i. c_pc c = Some i \<Longrightarrow> i < length (rtcs c)) \<Longrightarrow> handed (flush_candidates P a r ks c) = handed c + mset ks"
proof (induction P a r ks c rule: flush_candidates.induct)
  case (2 P a r k ks c)
  then show ?case by (simp add: handed_add_ice split: option.split)
qed simp

lemma handed_on_pc: "(\<And>i. c_pc c = Some i \<Longrightarrow> handed (f i) = x) \<Longrightarrow> handed d = x \<Longrightarrow> handed (on_pc c f d) = x"
  by (simp add: on_pc_def split: option.split)

lemma handed_pending: "handed (c\<lparr>c_pending := []\<rparr>) + mset (c_pending c) = handed c"
  by (simp add: handed_defs)

lemma handed_resume:
  "(\<And>i. c_pc c = Some i \<Longrightarrow> i < length (rtcs c)) \<Longrightarrow> handed (resume P r k v c) = handed c + to_flush k"
proof (induction P r k v c rule: resume.induct)
  case (5 P r answering sdp u c)
  let ?c = "update_rtc r (\<lambda>x. x\<lparr>rtc_remote := Some sdp\<rparr>) c"
  have "handed (flush_candidates P answering r (c_pending ?c) (?c\<lparr>c_remoteSet := True, c_pending := []\<rparr>))
      = handed (?c\<lparr>c_pending := []\<rparr>) + mset (c_pending ?c)"
    using 5 by (subst handed_flush) (auto simp: update_rtc_def)
  then show ?case
    by (simp add: flushPendingCandidates_def Let_def handed_pending handed_update_rtc)
next
  case (8 P r answering k ks e c)
  then have "handed (flush_candidates P answering r ks (warn_candidate True k c)) = handed (warn_candidate True k c) + mset ks"
    by (intro handed_flush) simp
  then show ?case by simp
qed (auto simp: Let_def handed_update_rtc handed_flush intro!: handed_on_pc)

lemma handed_delete:
  assumes "distinct (map fst (c_awaiting c))" "map_of (c_awaiting c) n = Some (r, k)"
  shows "handed (c\<lparr>c_awaiting := AList.delete n (c_awaiting c)\<rparr>) + to_flush k = handed c"
proof -
  have "sum_list (map (\<lambda>x. to_flush (snd (snd x))) (AList.delete n xs)) + to_flush k
      = sum_list (map (\<lambda>x. to_flush (snd (snd x))) xs)"
    if "distinct (map fst xs)" "map_of xs n = Some (r, k)" for xs
    using that
  proof (induction xs)
    case (Cons x xs)
    have "AList.delete n xs = xs" if "n \<notin> fst ` set xs"
      using that by (force simp: AList.delete_eq filter_id_conv)
    with Cons show ?case by (auto simp: ac_simps split: if_splits)
  qed simp
  from this [OF assms] show ?thesis by (simp add: handed_defs ac_simps)
qed

lemma handed_settle: "conn_ok c \<Longrightarrow> handed (settle P n v c) = handed c"
proof (cases "map_of (c_awaiting c) n")
  case (Some x)
  obtain r k where x: "x = (r, k)" by (cases x)
  assume ok: "conn_ok c"
  have "handed (settle P n v c) = handed (c\<lparr>c_awaiting := AList.delete n (c_awaiting c)\<rparr>) + to_flush k"
    using ok Some x by (auto simp: settle_def conn_ok_def intro!: handed_resume)
  with handed_delete [of c n r k] ok Some x show ?thesis by (simp add: conn_ok_def)
qed (simp add: settle_def)

lemma handed_step: "conn_ok c \<Longrightarrow> handed (rtc_step P c e) = handed c"
  by (cases e) (auto simp: handed_settle negotiation_needed_def connection_state_changed_def handed_update_rtc
      intro!: handed_on_pc split: option.split)

lemma handed_create: "handed (create_rtc b c) = handed c"
  by (simp add: handed_defs create_rtc_def new_rtc_def)

lemma handed_ops:
  "handed (pc_createOffer c) = handed c" "handed (handleOffer P sdp c) = handed c"
  "handed (handleAnswer P sdp c) = handed c" "handed (removeLocalStream c) = handed c"
  "handed (fst (pc_send dat c)) = handed c" "handed (pc_close c) = handed c"
  by (auto simp: pc_createOffer_def handleOffer_def handleAnswer_def removeLocalStream_def pc_send_def pc_close_def
      close_rtc_def close_channel_def Let_def handed_create handed_update_rtc intro!: handed_on_pc split: option.split)

lemma handed_add_tracks: "handed (fst (add_tracks i ts c)) = handed c"
  by (induction i ts c rule: add_tracks.induct) (auto simp: handed_update_rtc)

lemma handed_addLocalStream: "handed (fst (addLocalStream ts c)) = handed c"
  by (simp add: addLocalStream_def handed_add_tracks split: option.split)

lemma handed_ice:
  "conn_ok c \<Longrightarrow> handed (handleIceCandidate P k c) =
     handed c + (if c_pc c \<noteq> None \<and> truthy k then {#the k#} else {#})"
  using conn_ok_pc [of c]
  by (auto simp: handleIceCandidate_def Let_def handed_add_ice split: option.split) (simp add: handed_defs)

definition mesh_handed :: "mesh \<Rightarrow> json multiset" where
  "mesh_handed m = sum_list (map handed (conns m))"

text \<open>The candidate an event hands to a connection that has made its browser connection.\<close>

definition candidate_in :: "mesh \<Rightarrow> mesh_event \<Rightarrow> json multiset" where
  "candidate_in m e =
     (case e of
        Signal sender ty dat \<Rightarrow>
          (case map_get (connections m) sender of
             Some i \<Rightarrow> if ty = ''ice'' \<and> c_pc (conns m ! i) \<noteq> None \<and> truthy dat then {#the dat#} else {#}
           | None \<Rightarrow> {#})
      | _ \<Rightarrow> {#})"

lemma mesh_handed_update:
  "i < length (conns m) \<Longrightarrow> handed (f (conns m ! i)) = handed (conns m ! i) + d \<Longrightarrow>
     mesh_handed (update_conn i f m) = mesh_handed m + d"
  by (simp add: mesh_handed_def update_conn_def sum_list_update_add)

lemma mesh_handed_same:
  "i < length (conns m) \<Longrightarrow> handed (f (conns m ! i)) = handed (conns m ! i) \<Longrightarrow>
     mesh_handed (update_conn i f m) = mesh_handed m"
  using mesh_handed_update [of i m f "{#}"] by simp

lemma mesh_handed_fold:
  "(\<And>c. handed (f c) = handed c) \<Longrightarrow> \<forall>i\<in>set is. i < length (conns m) \<Longrightarrow>
     mesh_handed (fold (\<lambda>i. update_conn i f) is m) = mesh_handed m"
  by (induction "is" arbitrary: m) (simp_all add: mesh_handed_same)

lemma mesh_handed_broadcast:
  "\<forall>i\<in>set is. i < length (conns m) \<Longrightarrow> mesh_handed (fst (broadcast_loop s is m)) = mesh_handed m"
proof (induction s "is" m rule: broadcast_loop.induct)
  case (2 s i "is" m)
  have "mesh_handed (update_conn i (\<lambda>_. fst (addLocalStream s (conns m ! i))) m) = mesh_handed m"
    using 2 by (simp add: mesh_handed_same handed_addLocalStream)
  with 2 show ?case by (auto split: prod.split option.split)
qed simp

lemma mesh_handed_map [simp]: "mesh_handed (m\<lparr>connections := cs\<rparr>) = mesh_handed m"
  by (simp add: mesh_handed_def)

lemma handed_new [simp]: "handed new_conn = {#}"
  by (simp add: handed_defs new_conn_def)

lemma mesh_handed_insert [simp]: "mesh_handed (insert_conn p m) = mesh_handed m"
  by (simp add: mesh_handed_def insert_conn_def)

lemma mesh_handed_signal:
  assumes ok: "mesh_ok m"
  shows "mesh_handed (mesh_handleSignal P s ty dat m) = mesh_handed m + candidate_in m (Signal s ty dat)"
proof (cases "map_get (connections m) s")
  case (Some i)
  have i: "i < length (conns m)" using in_map_index [OF ok in_map_get [OF Some]] .
  with mesh_ok_slot [OF ok i] have "conn_ok (conns m ! i)" by (simp add: slot_ok_def)
  then show ?thesis
    using Some i handed_ice [of "conns m ! i" P dat]
    by (auto simp: mesh_handleSignal_def candidate_in_def handed_ops mesh_handed_same mesh_handed_update)
qed (simp add: mesh_handleSignal_def candidate_in_def)

lemma mesh_handed_step:
  assumes ok: "mesh_ok m"
  shows "mesh_handed (mesh_step P m e) = mesh_handed m + candidate_in m e"
proof (cases e)
  case (Signal s ty dat)
  with mesh_handed_signal [OF ok] show ?thesis by simp
next
  case (AddPeer p b)
  have "mesh_handed (update_conn (length (conns m)) pc_createOffer (insert_conn p m)) = mesh_handed (insert_conn p m)"
    by (rule mesh_handed_same) (simp_all add: handed_ops insert_conn_def)
  with AddPeer show ?thesis by (simp add: addPeer_insert candidate_in_def)
next
  case (RemovePeer p)
  then show ?thesis
    using in_map_index [OF ok] in_map_get [of m p]
    by (auto simp: removePeer_def candidate_in_def handed_ops mesh_handed_same split: option.split)
next
  case (SendTo p d)
  then show ?thesis
    using in_map_index [OF ok] in_map_get [of m p]
    by (auto simp: getConnection_def candidate_in_def handed_ops mesh_handed_same split: option.split)
next
  case (Browser i ev)
  with mesh_ok_slot [OF ok, of i] show ?thesis
    by (auto simp: candidate_in_def slot_ok_def handed_step intro!: mesh_handed_same)
qed (use mesh_ok_indices [OF ok] in \<open>simp_all add: candidate_in_def broadcastStream_def removeAllStreams_def closeAll_def
      mesh_handed_broadcast mesh_handed_fold handed_ops\<close>)

interpretation mesh_account: balance_machine "mesh_step P" mesh_ok mesh_handed candidate_in for P
  by unfold_locales (rule mesh_handed_step)

section \<open>Closed connections\<close>

text \<open>An object outside the map stays outside, and only the browser still reaches it.\<close>

lemma update_conn_other: "j \<noteq> i \<Longrightarrow> conns (update_conn j f m) ! i = conns m ! i"
  by (simp add: update_conn_def)

lemma update_inside_other: "in_map m j \<Longrightarrow> \<not> in_map m i \<Longrightarrow> conns (update_conn j f m) ! i = conns m ! i"
  by (rule update_conn_other) auto

lemma fold_update_other: "i \<notin> set is \<Longrightarrow> conns (fold (\<lambda>j. update_conn j f) is m) ! i = conns m ! i"
  by (induction "is" arbitrary: m) (auto simp: update_conn_other)

lemma fold_update_frame [simp]:
  "connections (fold (\<lambda>j. update_conn j f) is m) = connections m"
  "length (conns (fold (\<lambda>j. update_conn j f) is m)) = length (conns m)"
  by (induction "is" arbitrary: m) auto

lemma broadcast_other: "i \<notin> set is \<Longrightarrow> conns (fst (broadcast_loop s is m)) ! i = conns m ! i"
  by (induction s "is" m rule: broadcast_loop.induct) (auto simp: update_conn_other split: prod.split option.split)

lemma broadcast_frame [simp]:
  "connections (fst (broadcast_loop s is m)) = connections m"
  "length (conns (fst (broadcast_loop s is m))) = length (conns m)"
  by (induction s "is" m rule: broadcast_loop.induct) (auto split: prod.split option.split)

lemma handleSignal_frame:
  "connections (mesh_handleSignal P s ty dat m) = connections m"
  "length (conns (mesh_handleSignal P s ty dat m)) = length (conns m)"
  "\<not> in_map m i \<Longrightarrow> conns (mesh_handleSignal P s ty dat m) ! i = conns m ! i"
  by (simp_all add: mesh_handleSignal_def update_inside_other [OF in_map_get] split: option.split)

lemma not_in_map: "\<not> in_map m i \<longleftrightarrow> i \<notin> set (map snd (connections m))"
  by (simp add: in_map_def)

lemma outside_step:
  assumes ok: "mesh_ok m" and i: "i < length (conns m)" "\<not> in_map m i"
  shows "i < length (conns (mesh_step P m e)) \<and> \<not> in_map (mesh_step P m e) i
     \<and> silent_as (conns m ! i) (conns (mesh_step P m e) ! i)"
proof (cases e)
  case (AddPeer p b)
  then show ?thesis
  proof (cases "map_has (connections m) p")
    case False
    then have "connections (insert_conn p m) = connections m @ [(p, length (conns m))]"
      by (simp add: insert_conn_def map_set_new)
    then have "\<not> in_map (insert_conn p m) i" using i by (auto simp: in_map_def)
    moreover have "conns (insert_conn p m) ! i = conns m ! i" "length (conns (insert_conn p m)) = Suc (length (conns m))"
      using i by (simp_all add: insert_conn_def nth_append)
    ultimately show ?thesis using AddPeer False i by (simp add: addPeer_insert update_conn_other)
  qed (use AddPeer i in \<open>simp add: addPeer_insert\<close>)
next
  case (RemovePeer p)
  have "\<not> in_map (m\<lparr>connections := map_delete p (connections m)\<rparr>) i"
    using i by (auto simp: in_map_def map_delete_def AList.delete_eq)
  with RemovePeer i show ?thesis
    by (simp add: removePeer_def update_inside_other [OF in_map_get] in_map_def split: option.split)
next
  case (Signal s ty dat)
  with i show ?thesis by (simp add: handleSignal_frame in_map_def)
next
  case (Broadcast s)
  with i show ?thesis by (simp add: broadcastStream_def broadcast_other in_map_def)
next
  case RemoveStreams
  with i show ?thesis by (simp add: removeAllStreams_def fold_update_other in_map_def)
next
  case CloseAll
  with i show ?thesis by (simp add: closeAll_def fold_update_other in_map_def)
next
  case (SendTo p d)
  with i show ?thesis
    by (simp add: getConnection_def update_inside_other [OF in_map_get] split: option.split)
next
  case (Browser j ev)
  have "conn_ok (conns m ! i)" "c_pc (conns m ! i) = None"
    using mesh_ok_slot [OF ok i(1)] i(2) by (simp_all add: slot_ok_def)
  then have "silent_as (conns m ! i) (rtc_step P (conns m ! i) ev)" by (rule silent_step)
  with Browser i show ?thesis by (auto simp: nth_update_conn)
qed

lemma outside_run:
  "mesh_ok m \<Longrightarrow> i < length (conns m) \<Longrightarrow> \<not> in_map m i \<Longrightarrow> silent_as (conns m ! i) (conns (mesh_run P m es) ! i)"
proof (induction es arbitrary: m)
  case (Cons e es)
  note step = outside_step [OF Cons.prems, of P e]
  have "silent_as (conns (mesh_step P m e) ! i) (conns (mesh_run P (mesh_step P m e) es) ! i)"
    using step by (intro Cons.IH) (simp_all add: mesh_ok_step Cons.prems)
  with step show ?case by (auto intro: silent_trans)
qed simp

section \<open>Properties\<close>

lemma mesh_ok_run: "mesh_ok (mesh_run P new_mesh es)"
  by (rule mesh.inv_run) (rule mesh_ok_new)

text \<open>
  C20: Every reference of a reachable mesh is valid. A peer id of the map leads to the
  connection object made for it; every object has made at most one
  \<open>RTCPeerConnection\<close>, which its \<open>#pc\<close> refers to until it is closed; its data channel
  exists; and every suspended call refers to the browser connection it awaits.
\<close>

theorem mesh_is_well_formed:
  fixes P :: rtc_api and es :: "mesh_event list"
  defines "m \<equiv> mesh_run P new_mesh es"
  shows "distinct (map_keys (connections m))
     \<and> (\<forall>(p, i)\<in>set (connections m). i < length (conns m) \<and> mesh_peers m ! i = p)
     \<and> (\<forall>c\<in>set (conns m).
          length (rtcs c) \<le> 1
          \<and> (case c_pc c of Some i \<Rightarrow> i < length (rtcs c) \<and> \<not> rtc_closed (rtcs c ! i)
             | None \<Rightarrow> \<forall>r\<in>set (rtcs c). rtc_closed r)
          \<and> (case c_dc c of Some d \<Rightarrow> d < length (channels c) | None \<Rightarrow> True)
          \<and> (\<forall>(n, r, k)\<in>set (c_awaiting c). r < length (rtcs c)))"
proof -
  have ok: "mesh_ok m" unfolding m_def by (rule mesh_ok_run)
  have "length (rtcs c) \<le> 1
          \<and> (case c_pc c of Some i \<Rightarrow> i < length (rtcs c) \<and> \<not> rtc_closed (rtcs c ! i)
             | None \<Rightarrow> \<forall>r\<in>set (rtcs c). rtc_closed r)
          \<and> (case c_dc c of Some d \<Rightarrow> d < length (channels c) | None \<Rightarrow> True)
          \<and> (\<forall>(n, r, k)\<in>set (c_awaiting c). r < length (rtcs c))" if "conn_ok c" for c
    using that by (auto simp: conn_ok_def awaiting_ok_def split: option.split)
  moreover have "\<forall>c\<in>set (conns m). conn_ok c"
    using ok by (auto simp: mesh_ok_def slot_ok_def in_set_conv_nth)
  ultimately show ?thesis using ok by (simp add: mesh_ok_def map_ok_def)
qed

definition demo_api :: rtc_api where
  "demo_api = \<lparr>valid_description = (\<lambda>_. True), valid_candidate = (\<lambda>k. k \<noteq> JNum 0)\<rparr>"

text \<open>A peer calls, its candidates come before and during the answer's description.\<close>

definition demo_call :: "mesh_event list" where
  "demo_call =
     [AddPeer ''b'' True, Browser 0 (Settle 0 (Fulfilled (JStr ''offer''))), Browser 0 (Settle 1 (Fulfilled JNull)),
      Signal ''b'' ''ice'' (Some (JStr ''c1'')), Signal ''b'' ''ice'' (Some (JStr ''c2'')),
      Signal ''b'' ''answer'' (Some (JStr ''sdp'')), Browser 0 (Settle 2 (Fulfilled JNull)),
      Signal ''b'' ''ice'' (Some (JStr ''c3'')), Browser 0 (Settle 3 (Fulfilled JNull))]"

lemma mesh_is_well_formed_witness:
  "length (rtcs (hd (conns (mesh_run demo_api new_mesh demo_call)))) \<le> 1
   \<and> c_pc (hd (conns (mesh_run demo_api new_mesh demo_call))) = Some 0"
proof -
  have pc: "conns (mesh_run demo_api new_mesh demo_call) \<noteq> []"
    "c_pc (hd (conns (mesh_run demo_api new_mesh demo_call))) = Some 0"
    by code_simp+
  from mesh_is_well_formed [of demo_api demo_call] pc show ?thesis
    by (metis (no_types, lifting) list.set_sel(1))
qed

text \<open>
  C14: Trickled candidates wait for the remote description. In every interleaving of
  signals, settled calls and browser events, no candidate is passed to
  \<open>addIceCandidate\<close> while the \<open>RTCPeerConnection\<close> has no remote description.
\<close>

theorem candidates_wait_for_remote_description:
  assumes "c \<in> set (conns (mesh_run P new_mesh es))" "r \<in> set (rtcs c)" "(k, described) \<in> set (rtc_ice r)"
  shows described
proof -
  have "conn_ok c"
    using mesh_ok_run [of P es] assms(1) by (auto simp: mesh_ok_def slot_ok_def in_set_conv_nth)
  with assms(2,3) show ?thesis by (force simp: conn_ok_def)
qed

lemma candidates_wait_for_remote_description_witness:
  "rtc_ice (hd (rtcs (hd (conns (mesh_run demo_api new_mesh demo_call)))))
     = [(JStr ''c1'', True), (JStr ''c3'', True), (JStr ''c2'', True)]
   \<and> snd (JStr ''c1'', True)"
proof -
  let ?c = "hd (conns (mesh_run demo_api new_mesh demo_call))"
  have mem: "conns (mesh_run demo_api new_mesh demo_call) \<noteq> []" "rtcs ?c \<noteq> []"
    and ice: "rtc_ice (hd (rtcs ?c)) = [(JStr ''c1'', True), (JStr ''c3'', True), (JStr ''c2'', True)]"
    by code_simp+
  have "snd (JStr ''c1'', True)"
    using candidates_wait_for_remote_description [of ?c demo_api demo_call "hd (rtcs ?c)" "JStr ''c1''" True] mem ice by simp
  with ice show ?thesis by simp
qed

text \<open>
  C18: No candidate is lost or added twice. Every candidate handed to a connection that has
  its browser connection is, at every moment of every run, in exactly one place: waiting
  for the remote description, left in a flush, passed to \<open>addIceCandidate\<close>, or given up
  with a warning because the browser cannot read it or the connection was closed.
\<close>

theorem candidates_are_accounted_for:
  "mesh_handed (mesh_run P new_mesh es) = inflows (mesh_step P) candidate_in new_mesh es"
  using mesh_account.balance_run [OF mesh_ok_new] by (simp add: mesh_handed_def new_mesh_def)

text \<open>
  C19: Closing is final. Once a peer was removed, its connection sends no offer, answer or
  candidate, adds no candidate and writes to none of its channels, and it hands the
  application no message, no stream and no report of a connection; all it may still report
  is that it is disconnected. So it is whatever calls were still suspended, whatever
  events the browser still fires for the connection and any of its channels, a
  channel included that was replaced by a later one, and whatever happens to the mesh, a
  new connection to the same peer included.
\<close>

theorem removed_peer_is_silent:
  assumes "map_get (connections (mesh_run P new_mesh es)) peer = Some i"
  shows "silent_as (conns (removePeer peer (mesh_run P new_mesh es)) ! i)
           (conns (mesh_run P (removePeer peer (mesh_run P new_mesh es)) later) ! i)"
proof -
  let ?m = "mesh_run P new_mesh es"
  have ok: "mesh_ok ?m" by (rule mesh_ok_run)
  have out: "\<not> in_map (removePeer peer ?m) i"
  proof
    assume "in_map (removePeer peer ?m) i"
    then obtain q where q: "(q, i) \<in> set (connections ?m)" "q \<noteq> peer"
      using assms by (auto simp: removePeer_def in_map_def map_delete_def AList.delete_eq)
    have "mesh_peers ?m ! k = p" if "(p, k) \<in> set (connections ?m)" for p k
      using ok that unfolding mesh_ok_def by blast
    from this [OF q(1)] this [OF map_get_in_set [OF assms]] q(2) show False by simp
  qed
  moreover have "i < length (conns (removePeer peer ?m))"
    using in_map_index [OF ok in_map_get [OF assms]] assms by (simp add: removePeer_def)
  ultimately show ?thesis using mesh_ok_removePeer [OF ok] by (intro outside_run)
qed

text \<open>The call with its channel open, and what may still come after its peer was removed.\<close>

definition demo_open_call :: "mesh_event list" where
  "demo_open_call = demo_call @ [Browser 0 (ChannelOpen 0), Browser 0 (ChannelMessage 0 ''hi'')]"

definition demo_late :: "mesh_event list" where
  "demo_late =
     [Browser 0 (ChannelMessage 0 ''late''), Browser 0 (Settle 4 (Failed TypeError)), Browser 0 (ChannelClose 0),
      AddPeer ''b'' True, Browser 0 (IceCandidate 0 (Some (JStr ''c4'')))]"

lemma removed_peer_is_silent_witness:
  "map_get (connections (mesh_run demo_api new_mesh demo_open_call)) ''b'' = Some 0
   \<and> c_callbacks (conns (mesh_run demo_api new_mesh demo_open_call) ! 0) = [Connected, Message ''hi'']
   \<and> silent_as (conns (removePeer ''b'' (mesh_run demo_api new_mesh demo_open_call)) ! 0)
       (conns (mesh_run demo_api (removePeer ''b'' (mesh_run demo_api new_mesh demo_open_call)) demo_late) ! 0)"
proof -
  have "map_get (connections (mesh_run demo_api new_mesh demo_open_call)) ''b'' = Some 0"
    "c_callbacks (conns (mesh_run demo_api new_mesh demo_open_call) ! 0) = [Connected, Message ''hi'']"
    by code_simp+
  then show ?thesis using removed_peer_is_silent by blast
qed

text \<open>
  The order of candidates is not kept: one that arrives while the waiting ones are being
  added overtakes those still to come (\<open>c3\<close> before \<open>c2\<close>).
\<close>

lemma late_candidate_overtakes:
  "map fst (rtc_ice (hd (rtcs (hd (conns (mesh_run demo_api new_mesh demo_call)))))) = [JStr ''c1'', JStr ''c3'', JStr ''c2'']"
  by code_simp

text \<open>A call still suspended when the connection is closed is rejected with a \<open>TypeError\<close>.\<close>

lemma suspended_offer_rejects_after_close:
  "c_rejections (hd (conns (mesh_run demo_api new_mesh
     [AddPeer ''b'' True, RemovePeer ''b'', Browser 0 (Settle 0 (Fulfilled (JStr ''offer'')))]))) = [TypeError]"
  by code_simp

end
