(* ===== verification/MeshHook.thy ===== *)
theory MeshHook
  imports WebRTC Client
begin

text \<open>
  The meshes of the rooms (\<^verbatim>\<open>apps/trapchat/src/hooks/useWebRTCMesh.js\<close>): when a room has two
  peers, one of them offers a peer connection; signals go through the WebSocket client,
  messages of the data channels come back as its \<open>p2p:message\<close> events.

  The \<open>PeerMesh\<close> objects are a heap, each made for one room. What a mesh signals and calls
  back in a step is handed on at once as outputs of the hook; \<open>deliver\<close> applies an output
  to the WebSocket client.
\<close>

datatype hook_output =
    SignalOut string string json
  | P2PMessage json
  | SetP2P string bool
  | RemoteStream string stream

record mesh_hook =
  meshes :: "mesh list"
  mesh_rooms :: "string list"
  peerMeshes :: "(string, nat) jmap"
  prevPeerCount :: "(string, json) jmap"
  offer_timers :: "(string \<times> string) list"
  pending_offers :: "string list"
  hook_out :: "hook_output list"

definition new_mesh_hook :: mesh_hook where
  "new_mesh_hook =
     \<lparr>meshes = [], mesh_rooms = [], peerMeshes = [], prevPeerCount = [], offer_timers = [], pending_offers = [],
      hook_out = []\<rparr>"

section \<open>What a mesh hands on\<close>

definition signal_payload :: "string \<Rightarrow> json \<Rightarrow> json" where
  "signal_payload ty dat = JObj [(''signalType'', JStr ty), (''data'', dat)]"

text \<open>The message of \<open>makeSignalSender\<close>.\<close>

definition signal_text :: "draws \<Rightarrow> string \<Rightarrow> string \<Rightarrow> json \<Rightarrow> string" where
  "signal_text d room remotePeerId signal =
     json_stringify (JObj [(''id'', JStr (d_id d)), (''type'', JStr ''signal''), (''room'', JStr room),
       (''to'', JStr remotePeerId), (''payload'', JStr (json_stringify signal)), (''timestamp'', JNum (d_now d))])"

definition sendSignal :: "draws \<Rightarrow> string \<Rightarrow> string \<Rightarrow> json \<Rightarrow> client \<Rightarrow> client" where
  "sendSignal d room remotePeerId signal c =
     (if connected c then fst (sendRaw (signal_text d room remotePeerId signal) c) else c)"

text \<open>\<open>{ ...JSON.parse(d), room }\<close>; a text that does not parse is ignored.\<close>

definition spread_fields :: "json \<Rightarrow> (string, json) jmap" where
  "spread_fields v =
     (case v of
        JObj fs \<Rightarrow> fs
      | JArr xs \<Rightarrow> map (\<lambda>(i, x). (show_nat i, x)) (List.enumerate 0 xs)
      | JStr s \<Rightarrow> map (\<lambda>(i, x). (show_nat i, JStr [x])) (List.enumerate 0 s)
      | _ \<Rightarrow> [])"

definition p2p_message :: "string \<Rightarrow> string \<Rightarrow> hook_output list" where
  "p2p_message room d =
     (case json_parse d of
        None \<Rightarrow> []
      | Some v \<Rightarrow> [P2PMessage (JObj (map_set ''room'' (JStr room) (spread_fields v)))])"

fun callback_output :: "string \<Rightarrow> string \<Rightarrow> callback \<Rightarrow> hook_output list" where
  "callback_output room peer Connected = [SetP2P room True]"
| "callback_output room peer Disconnected = [SetP2P room False]"
| "callback_output room peer (Track stream) = [RemoteStream peer stream]"
| "callback_output room peer (Message d) = p2p_message room d"

definition conn_output :: "string \<Rightarrow> string \<Rightarrow> conn \<Rightarrow> conn \<Rightarrow> hook_output list" where
  "conn_output room peer c c' =
     map (\<lambda>(ty, dat). SignalOut room peer (signal_payload ty dat)) (drop (length (c_signals c)) (c_signals c'))
     @ concat (map (callback_output room peer) (drop (length (c_callbacks c)) (c_callbacks c')))"

definition old_conn :: "mesh \<Rightarrow> nat \<Rightarrow> conn" where
  "old_conn m k = (if k < length (conns m) then conns m ! k else new_conn)"

definition mesh_output :: "string \<Rightarrow> mesh \<Rightarrow> mesh \<Rightarrow> hook_output list" where
  "mesh_output room m m' =
     concat (map (\<lambda>k. conn_output room (mesh_peers m' ! k) (old_conn m k) (conns m' ! k)) [0..<length (conns m')])"

definition on_mesh :: "nat \<Rightarrow> (mesh \<Rightarrow> mesh) \<Rightarrow> mesh_hook \<Rightarrow> mesh_hook" where
  "on_mesh i f h =
     h\<lparr>meshes := (meshes h)[i := f (meshes h ! i)],
       hook_out := hook_out h @ mesh_output (mesh_rooms h ! i) (meshes h ! i) (f (meshes h ! i))\<rparr>"

definition deliver :: "draws \<Rightarrow> hook_output \<Rightarrow> client \<Rightarrow> client" where
  "deliver d out c =
     (case out of
        SignalOut room peer signal \<Rightarrow> sendSignal d room peer signal c
      | P2PMessage v \<Rightarrow> emitP2P ''message'' (JsonData v) c
      | _ \<Rightarrow> c)"

section \<open>The hook\<close>

definition createMesh :: "string \<Rightarrow> mesh_hook \<Rightarrow> mesh_hook" where
  "createMesh room h =
     h\<lparr>meshes := meshes h @ [new_mesh], mesh_rooms := mesh_rooms h @ [room],
       peerMeshes := map_set room (length (meshes h)) (peerMeshes h)\<rparr>"

text \<open>\<open>Object.keys(peers).find(pid => pid !== selfId)\<close>.\<close>

definition remote_peer :: "json option \<Rightarrow> json option \<Rightarrow> string option" where
  "remote_peer peers selfId =
     (let pids = (if truthy peers then (case peers of Some (JObj fs) \<Rightarrow> map_keys fs | _ \<Rightarrow> []) else [])
      in List.find (\<lambda>pid. Some (JStr pid) \<noteq> selfId) pids)"

text \<open>\<open>selfId && remotePid && selfId < remotePid\<close>: the smaller id offers.\<close>

definition initiates :: "json option \<Rightarrow> string option \<Rightarrow> bool" where
  "initiates selfId remotePid =
     (case (selfId, remotePid) of
        (Some self, Some pid) \<Rightarrow> truthy selfId \<and> pid \<noteq> [] \<and> js_less self (JStr pid) = Some True
      | _ \<Rightarrow> False)"

definition handlePresenceMesh ::
  "string \<Rightarrow> json \<Rightarrow> json option \<Rightarrow> json option \<Rightarrow> mesh_hook \<Rightarrow> mesh_hook" where
  "handlePresenceMesh room cnt peers selfId h =
     (let prevCount = js_or (map_get (prevPeerCount h) room) (Some (JNum 0));
          h1 = h\<lparr>prevPeerCount := map_set room cnt (prevPeerCount h)\<rparr>
      in if cnt = JNum 2 \<and> prevCount \<noteq> Some (JNum 2) then
           (let remotePid = remote_peer peers selfId in
            if initiates selfId remotePid
            then h1\<lparr>offer_timers := offer_timers h1 @ [(room, the remotePid)]\<rparr> else h1)
         else case map_get (peerMeshes h1) room of
           None \<Rightarrow> h1
         | Some i \<Rightarrow>
             if cnt = JNum 2 then h1
             else (let h2 = on_mesh i closeAll h1;
                       h3 = h2\<lparr>peerMeshes := map_delete room (peerMeshes h2)\<rparr>
                   in h3\<lparr>hook_out := hook_out h3 @ [SetP2P room False]\<rparr>))"

text \<open>The timer of half a second; the peer's offer is awaited.\<close>

definition offer_timer :: "nat \<Rightarrow> mesh_hook \<Rightarrow> mesh_hook" where
  "offer_timer k h =
     (if k < length (offer_timers h) then
        (let (room, remotePid) = offer_timers h ! k;
             h1 = h\<lparr>offer_timers := take k (offer_timers h) @ drop (Suc k) (offer_timers h)\<rparr>
         in if map_has (peerMeshes h1) room then h1
            else (let h2 = createMesh room h1
                  in (on_mesh (length (meshes h1)) (addPeer remotePid True) h2)
                       \<lparr>pending_offers := pending_offers h2 @ [room]\<rparr>))
      else h)"

text \<open>The awaited offer has succeeded or failed.\<close>

definition offer_settles :: "nat \<Rightarrow> bool \<Rightarrow> mesh_hook \<Rightarrow> mesh_hook" where
  "offer_settles k ok h =
     (if k < length (pending_offers h) then
        (let room = pending_offers h ! k;
             h1 = h\<lparr>pending_offers := take k (pending_offers h) @ drop (Suc k) (pending_offers h)\<rparr>
         in if ok then h1 else h1\<lparr>peerMeshes := map_delete room (peerMeshes h1)\<rparr>)
      else h)"

text \<open>
  \<open>handleSignal\<close>: the mesh is made when needed; an offer adds its sender as a peer first.
  \<open>sender\<close> is \<open>data.id\<close>, which the gateway sets on every message it forwards.
\<close>

definition hook_handleSignal ::
  "rtc_api \<Rightarrow> string \<Rightarrow> json option \<Rightarrow> string \<Rightarrow> mesh_hook \<Rightarrow> mesh_hook \<times> js_error option" where
  "hook_handleSignal P sender payload room h =
     (case read_payload payload of
        Inl e \<Rightarrow> (h, Some e)
      | Inr signalData \<Rightarrow>
          (let h1 = (if map_has (peerMeshes h) room then h else createMesh room h);
               i = the (map_get (peerMeshes h1) room)
           in case js_read signalData ''signalType'' of
                Inl e \<Rightarrow> (h1, Some e)
              | Inr (Some (JStr ty)) \<Rightarrow>
                  (let dat = js_get (the signalData) ''data'';
                       h2 = (if ty = ''offer'' then on_mesh i (addPeer sender False) h1 else h1)
                   in (on_mesh i (mesh_handleSignal P sender ty dat) h2, None))
              | Inr _ \<Rightarrow> (h1, None)))"

definition cleanupRoom :: "string \<Rightarrow> mesh_hook \<Rightarrow> mesh_hook" where
  "cleanupRoom room h =
     (let h1 = (case map_get (peerMeshes h) room of
            None \<Rightarrow> h
          | Some i \<Rightarrow> (on_mesh i closeAll h)\<lparr>peerMeshes := map_delete room (peerMeshes h)\<rparr>)
      in h1\<lparr>prevPeerCount := map_delete room (prevPeerCount h1)\<rparr>)"

definition cleanupAll :: "mesh_hook \<Rightarrow> mesh_hook" where
  "cleanupAll h =
     (fold (\<lambda>i. on_mesh i closeAll) (map snd (peerMeshes h)) h)\<lparr>peerMeshes := [], prevPeerCount := []\<rparr>"

section \<open>Steps\<close>

datatype hook_event =
    HkPresence string json "json option" "json option"
  | HkTimer nat
  | HkOffer nat bool
  | HkSignal string "json option" string
  | HkMesh nat mesh_event
  | HkCleanup string
  | HkCleanupAll

fun hook_step :: "rtc_api \<Rightarrow> mesh_hook \<Rightarrow> hook_event \<Rightarrow> mesh_hook" where
  "hook_step P h (HkPresence room cnt peers selfId) = handlePresenceMesh room cnt peers selfId h"
| "hook_step P h (HkTimer k) = offer_timer k h"
| "hook_step P h (HkOffer k ok) = offer_settles k ok h"
| "hook_step P h (HkSignal sender payload room) = fst (hook_handleSignal P sender payload room h)"
| "hook_step P h (HkMesh i e) = (if i < length (meshes h) then on_mesh i (\<lambda>m. mesh_step P m e) h else h)"
| "hook_step P h (HkCleanup room) = cleanupRoom room h"
| "hook_step P h HkCleanupAll = cleanupAll h"

section \<open>What closing hands on\<close>

text \<open>A mesh that is closed calls back that its peers are disconnected, and signals nothing.\<close>

definition closed_like :: "conn \<Rightarrow> conn \<Rightarrow> bool" where
  "closed_like c c' \<longleftrightarrow> c_signals c' = c_signals c \<and> (\<exists>n. c_callbacks c' = c_callbacks c @ replicate n Disconnected)"

lemma closed_like_refl: "closed_like c c"
  by (auto simp: closed_like_def intro: exI [of _ 0])

lemma closed_like_close:
  assumes "closed_like c c'"
  shows "closed_like c (pc_close c')"
proof -
  have "c_signals (pc_close c') = c_signals c'" "c_callbacks (pc_close c') = c_callbacks c' @ [Disconnected]"
    by (auto simp: pc_close_def close_rtc_def close_channel_def callback_def update_rtc_def update_channel_def split: option.split)
  moreover obtain n where "c_signals c' = c_signals c" "c_callbacks c' = c_callbacks c @ replicate n Disconnected"
    using assms by (auto simp: closed_like_def)
  ultimately show ?thesis by (auto simp: closed_like_def replicate_append_same intro: exI [of _ "Suc n"])
qed

definition closed_mesh :: "mesh \<Rightarrow> mesh \<Rightarrow> bool" where
  "closed_mesh m m' \<longleftrightarrow>
     length (conns m') = length (conns m) \<and> (\<forall>k<length (conns m). closed_like (conns m ! k) (conns m' ! k))"

lemma closed_mesh_fold: "closed_mesh m m' \<Longrightarrow> closed_mesh m (fold (\<lambda>i. update_conn i pc_close) is m')"
proof (induction "is" arbitrary: m')
  case (Cons i "is")
  have "closed_like (conns m ! k) ((conns m')[i := pc_close (conns m' ! i)] ! k)" if "k < length (conns m)" for k
    using that Cons.prems by (cases "i = k") (auto simp: closed_mesh_def closed_like_close)
  with Cons.prems have "closed_mesh m (update_conn i pc_close m')" by (simp add: closed_mesh_def update_conn_def)
  with Cons.IH show ?case by simp
qed simp

lemma closed_mesh_closeAll: "closed_mesh m (closeAll m)"
  using closed_mesh_fold [of m m "map snd (connections m)"] by (simp add: closeAll_def closed_mesh_def closed_like_refl)

lemma closed_outputs:
  assumes "x \<in> set (mesh_output room m (closeAll m))"
  shows "x = SetP2P room False"
proof -
  obtain k where k: "k < length (conns m)" and x: "x \<in> set (conn_output room (mesh_peers (closeAll m) ! k) (conns m ! k) (conns (closeAll m) ! k))"
    using assms closed_mesh_closeAll [of m] by (auto simp: mesh_output_def old_conn_def closed_mesh_def)
  from k have "closed_like (conns m ! k) (conns (closeAll m) ! k)"
    using closed_mesh_closeAll [of m] by (simp add: closed_mesh_def)
  with x show ?thesis by (auto simp: conn_output_def closed_like_def)
qed

lemma presence_outputs:
  assumes "x \<in> set (drop (length (hook_out h)) (hook_out (handlePresenceMesh room cnt peers selfId h)))"
  shows "\<exists>r. x = SetP2P r False"
  using assms by (auto simp: handlePresenceMesh_def Let_def on_mesh_def dest: closed_outputs split: if_splits option.splits)

text \<open>Each room has one mesh, made for it, and every mesh keeps the invariant of \<open>PeerMesh\<close>.\<close>

definition hook_ok :: "mesh_hook \<Rightarrow> bool" where
  "hook_ok h \<longleftrightarrow>
     map_ok (peerMeshes h) \<and> length (mesh_rooms h) = length (meshes h)
     \<and> (\<forall>x\<in>set (peerMeshes h). snd x < length (meshes h) \<and> mesh_rooms h ! snd x = fst x)
     \<and> (\<forall>m\<in>set (meshes h). mesh_ok m)"

lemma on_mesh_frame [simp]:
  "peerMeshes (on_mesh i f h) = peerMeshes h" "mesh_rooms (on_mesh i f h) = mesh_rooms h"
  "length (meshes (on_mesh i f h)) = length (meshes h)" "prevPeerCount (on_mesh i f h) = prevPeerCount h"
  "offer_timers (on_mesh i f h) = offer_timers h" "pending_offers (on_mesh i f h) = pending_offers h"
  by (simp_all add: on_mesh_def)

lemma hook_ok_on_mesh: "hook_ok h \<Longrightarrow> (\<And>m. mesh_ok m \<Longrightarrow> mesh_ok (f m)) \<Longrightarrow> i < length (meshes h) \<Longrightarrow> hook_ok (on_mesh i f h)"
  by (auto simp: hook_ok_def on_mesh_def dest!: set_update_subset_insert [THEN subsetD])

lemma hook_ok_index: "hook_ok h \<Longrightarrow> map_get (peerMeshes h) room = Some i \<Longrightarrow> i < length (meshes h)"
  by (auto simp: hook_ok_def dest!: map_get_in_set)

lemma hook_ok_delete: "hook_ok h \<Longrightarrow> hook_ok (h\<lparr>peerMeshes := map_delete room (peerMeshes h)\<rparr>)"
  by (auto simp: hook_ok_def map_delete_def AList.delete_eq map_ok_def map_keys_def distinct_map_filter)

lemma hook_ok_other [simp]:
  "hook_ok (h\<lparr>prevPeerCount := p\<rparr>) = hook_ok h" "hook_ok (h\<lparr>offer_timers := ts\<rparr>) = hook_ok h"
  "hook_ok (h\<lparr>pending_offers := ps\<rparr>) = hook_ok h" "hook_ok (h\<lparr>hook_out := os\<rparr>) = hook_ok h"
  by (simp_all add: hook_ok_def)

lemma set_map_set_mem: "x \<in> set (map_set k v m) \<Longrightarrow> x = (k, v) \<or> x \<in> set m"
  by (induction m) (auto simp: map_set_def split: if_splits)

lemma hook_ok_createMesh: "hook_ok h \<Longrightarrow> hook_ok (createMesh room h)"
  by (auto simp: hook_ok_def createMesh_def mesh_ok_new nth_append less_Suc_eq dest!: set_map_set_mem bspec)

lemma createMesh_get [simp]:
  "map_get (peerMeshes (createMesh room h)) room = Some (length (meshes h))"
  "length (meshes (createMesh room h)) = Suc (length (meshes h))"
  by (simp_all add: createMesh_def)

lemma hook_ok_timer: "hook_ok h \<Longrightarrow> hook_ok (offer_timer k h)"
  by (auto simp: offer_timer_def Let_def mesh_ok_addPeer split: prod.split intro!: hook_ok_on_mesh hook_ok_createMesh)

lemma hook_ok_presence: "hook_ok h \<Longrightarrow> hook_ok (handlePresenceMesh room cnt peers selfId h)"
  using hook_ok_delete [OF hook_ok_on_mesh [of "h\<lparr>prevPeerCount := map_set room cnt (prevPeerCount h)\<rparr>" closeAll]]
  by (auto simp: handlePresenceMesh_def Let_def mesh_ok_closeAll split: option.split dest: hook_ok_index)

lemma hook_ok_signal: "hook_ok h \<Longrightarrow> hook_ok (fst (hook_handleSignal P sender payload room h))"
proof -
  assume ok: "hook_ok h"
  let ?h = "if map_has (peerMeshes h) room then h else createMesh room h"
  have h1: "hook_ok ?h" using ok by (simp add: hook_ok_createMesh)
  obtain i where i: "map_get (peerMeshes ?h) room = Some i"
    by (cases "map_get (peerMeshes h) room") (auto simp: map_has_get)
  have "i < length (meshes ?h)" using hook_ok_index [OF h1 i] .
  moreover have "mesh_ok m \<Longrightarrow> mesh_ok (mesh_handleSignal P sender ty dat m)" for m ty dat
    using mesh_ok_step [of m P "Signal sender ty dat"] by simp
  ultimately show ?thesis
    using h1 i ok unfolding hook_handleSignal_def Let_def
    by (auto simp: mesh_ok_addPeer split: sum.split option.split json.split intro!: hook_ok_on_mesh)
qed

lemma hook_ok_cleanup: "hook_ok h \<Longrightarrow> hook_ok (cleanupRoom room h)"
  using hook_ok_delete [OF hook_ok_on_mesh [of h closeAll]]
  by (auto simp: cleanupRoom_def Let_def mesh_ok_closeAll split: option.split dest: hook_ok_index)

lemma hook_ok_close_all:
  "hook_ok h \<Longrightarrow> \<forall>i\<in>set is. i < length (meshes h) \<Longrightarrow> hook_ok (fold (\<lambda>i. on_mesh i closeAll) is h)"
  by (induction "is" arbitrary: h) (simp_all add: hook_ok_on_mesh mesh_ok_closeAll)

lemma hook_ok_step: "hook_ok h \<Longrightarrow> hook_ok (hook_step P h e)"
proof (cases e)
  case HkCleanupAll
  assume ok: "hook_ok h"
  then have "hook_ok (fold (\<lambda>i. on_mesh i closeAll) (map snd (peerMeshes h)) h)"
    by (intro hook_ok_close_all) (auto simp: hook_ok_def)
  with HkCleanupAll show ?thesis by (simp add: cleanupAll_def hook_ok_def)
next
  case (HkOffer k b)
  assume "hook_ok h"
  with HkOffer hook_ok_delete [of "h\<lparr>pending_offers := take k (pending_offers h) @ drop (Suc k) (pending_offers h)\<rparr>"]
  show ?thesis by (simp add: offer_settles_def Let_def)
qed (auto simp: hook_ok_timer hook_ok_presence hook_ok_signal hook_ok_cleanup mesh_ok_step intro!: hook_ok_on_mesh)

interpretation mesh_hook: event_machine "hook_step P" hook_ok for P
  by unfold_locales (rule hook_ok_step)

section \<open>Properties\<close>

lemma string_less_linear: "s \<noteq> t \<Longrightarrow> string_less s t \<longleftrightarrow> \<not> string_less t s"
proof (induction s t rule: string_less.induct)
  case (3 c s d t)
  then show ?case by (cases "c = d") (auto simp: not_less_iff_gr_or_eq)
next
  case (1 t)
  then show ?case by (cases t) auto
qed auto

lemma js_less_str: "js_less (JStr s) (JStr t) = Some (string_less s t)"
  by (simp add: js_less_def)

lemma initiates_str: "initiates (Some (JStr a)) (Some b) \<longleftrightarrow> a \<noteq> [] \<and> b \<noteq> [] \<and> string_less a b"
  by (simp add: initiates_def js_less_str)

lemma remote_peer_other:
  assumes "distinct (map_keys fs)" "set (map_keys fs) = {a, b}" "a \<noteq> b"
  shows "remote_peer (Some (JObj fs)) (Some (JStr a)) = Some b"
proof -
  have len: "length (map_keys fs) = 2" using assms by (metis distinct_card card_2_iff)
  then obtain x y where xy: "map_keys fs = [x, y]"
    by (auto simp: length_Suc_conv numeral_2_eq_2 map_keys_def)
  with assms have "(x = a \<and> y = b) \<or> (x = b \<and> y = a)" by auto
  with xy assms(3) show ?thesis by (auto simp: remote_peer_def)
qed

lemma presence_two:
  assumes "js_or (map_get (prevPeerCount h) room) (Some (JNum 0)) \<noteq> Some (JNum 2)"
    and "remote_peer peers self = Some b"
  shows "offer_timers (handlePresenceMesh room (JNum 2) peers self h)
    = offer_timers h @ (if initiates self (Some b) then [(room, b)] else [])"
  using assms by (simp add: handlePresenceMesh_def Let_def)

text \<open>
  C25: Exactly one of two peers calls. When a room becomes a pair, the presence message
  makes one of the two browsers schedule an offer to the other and the other one wait for
  it, whichever order the message lists them in: the two never both offer and never both wait.
\<close>

theorem exactly_one_of_two_peers_offers:
  assumes "a \<noteq> b" and "a \<noteq> []" and "b \<noteq> []"
    and "distinct (map_keys fs)" and "set (map_keys fs) = {a, b}"
    and "js_or (map_get (prevPeerCount h) room) (Some (JNum 0)) \<noteq> Some (JNum 2)"
    and "js_or (map_get (prevPeerCount h') room) (Some (JNum 0)) \<noteq> Some (JNum 2)"
  shows "\<exists>a_calls.
     offer_timers (handlePresenceMesh room (JNum 2) (Some (JObj fs)) (Some (JStr a)) h)
       = offer_timers h @ (if a_calls then [(room, b)] else [])
     \<and> offer_timers (handlePresenceMesh room (JNum 2) (Some (JObj fs)) (Some (JStr b)) h')
       = offer_timers h' @ (if a_calls then [] else [(room, a)])"
proof -
  have "remote_peer (Some (JObj fs)) (Some (JStr a)) = Some b" "remote_peer (Some (JObj fs)) (Some (JStr b)) = Some a"
    using remote_peer_other [of fs a b] remote_peer_other [of fs b a] assms(1,4,5) by auto
  then show ?thesis
    using assms(1-3) presence_two [OF assms(6)] presence_two [OF assms(7)] string_less_linear [of a b]
    by (intro exI [of _ "string_less a b"]) (simp add: initiates_str)
qed

lemma exactly_one_of_two_peers_offers_witness:
  "offer_timers (handlePresenceMesh ''r'' (JNum 2) (Some (JObj [(''b'', JStr []), (''a'', JStr [])])) (Some (JStr ''a'')) new_mesh_hook)
     = [(''r'', ''b'')]
   \<and> offer_timers (handlePresenceMesh ''r'' (JNum 2) (Some (JObj [(''b'', JStr []), (''a'', JStr [])])) (Some (JStr ''b'')) new_mesh_hook)
     = []"
proof -
  let ?fs = "[(''b'', JStr []), (''a'', JStr [])]"
  have hyps: "distinct (map_keys ?fs)" "set (map_keys ?fs) = {''a'', ''b''}"
    "js_or (map_get (prevPeerCount new_mesh_hook) ''r'') (Some (JNum 0)) \<noteq> Some (JNum 2)"
    by (auto simp: map_keys_def new_mesh_hook_def js_or_def)
  have a: "offer_timers (handlePresenceMesh ''r'' (JNum 2) (Some (JObj ?fs)) (Some (JStr ''a'')) new_mesh_hook) = [(''r'', ''b'')]"
    by code_simp
  from exactly_one_of_two_peers_offers [OF _ _ _ hyps(1,2,3,3)] a show ?thesis
    by (auto simp: new_mesh_hook_def split: if_splits)
qed

text \<open>
  What the gateway (\<^verbatim>\<open>services/gateway/cmd/gateway/main.go\<close>, the signal case) hands to the
  peer named in \<open>to\<close>: the client's message as an \<open>Envelope\<close> with the sender's peer id and the
  gateway's own time. Empty strings of the fields marked \<open>omitempty\<close> are left out.
\<close>

definition omitempty :: "string \<Rightarrow> json option" where
  "omitempty v = (if v = [] then None else Some (JStr v))"

definition env_string :: "json \<Rightarrow> string \<Rightarrow> string" where
  "env_string msg key = (case js_get msg key of Some (JStr s) \<Rightarrow> s | _ \<Rightarrow> [])"

definition forwarded :: "string \<Rightarrow> int \<Rightarrow> json \<Rightarrow> json" where
  "forwarded sender now msg =
     js_object [(''id'', Some (JStr sender)), (''msgId'', omitempty (env_string msg ''msgId'')),
       (''type'', Some (JStr (env_string msg ''type''))), (''room'', Some (JStr (env_string msg ''room''))),
       (''payload'', omitempty (env_string msg ''payload'')), (''timestamp'', Some (JNum now)),
       (''sig'', omitempty (env_string msg ''sig'')), (''to'', omitempty (env_string msg ''to''))]"

text \<open>The mesh of a room, or the one that is made when a signal comes for a room without.\<close>

definition room_mesh :: "mesh_hook \<Rightarrow> string \<Rightarrow> mesh" where
  "room_mesh h room = (case map_get (peerMeshes h) room of None \<Rightarrow> new_mesh | Some i \<Rightarrow> meshes h ! i)"

lemma on_mesh_nth: "i < length (meshes h) \<Longrightarrow> meshes (on_mesh i f h) ! i = f (meshes h ! i)"
  by (simp add: on_mesh_def)

lemma room_mesh_on: "map_get (peerMeshes h) room = Some i \<Longrightarrow> i < length (meshes h) \<Longrightarrow>
   room_mesh (on_mesh i f h) room = f (room_mesh h room)"
  by (simp add: room_mesh_def on_mesh_nth)

lemma signal_room_mesh:
  assumes ok: "hook_ok h" and payload: "read_payload payload = Inr (Some (signal_payload ty dat))"
  shows "room_mesh (fst (hook_handleSignal P sender payload room h)) room =
       mesh_handleSignal P sender ty (Some dat) (if ty = ''offer'' then addPeer sender False (room_mesh h room) else room_mesh h room)
     \<and> map_has (peerMeshes (fst (hook_handleSignal P sender payload room h))) room
     \<and> snd (hook_handleSignal P sender payload room h) = None"
proof -
  let ?h = "if map_has (peerMeshes h) room then h else createMesh room h"
  have ok1: "hook_ok ?h" using ok by (simp add: hook_ok_createMesh)
  obtain i where i: "map_get (peerMeshes ?h) room = Some i"
    by (cases "map_get (peerMeshes h) room") (auto simp: map_has_get)
  have len: "i < length (meshes ?h)" by (rule hook_ok_index [OF ok1 i])
  have same: "room_mesh ?h room = room_mesh h room"
    by (cases "map_get (peerMeshes h) room") (simp_all add: map_has_get room_mesh_def createMesh_def)
  have fields: "js_read (Some (signal_payload ty dat)) ''signalType'' = Inr (Some (JStr ty))"
    "js_get (signal_payload ty dat) ''data'' = Some dat"
    by (simp_all add: signal_payload_def map_get_def)
  have step: "hook_handleSignal P sender payload room h =
      (on_mesh i (mesh_handleSignal P sender ty (Some dat)) (if ty = ''offer'' then on_mesh i (addPeer sender False) ?h else ?h), None)"
    using payload i fields by (simp add: hook_handleSignal_def Let_def)
  have "map_has (peerMeshes ?h) room" using i by (simp add: map_has_get)
  with step i len same show ?thesis by (auto simp: room_mesh_on map_has_get)
qed

text \<open>
  C26: Signals get through, offers, answers and candidates alike. The message that
  \<open>makeSignalSender\<close> builds for a signal passes the checks of \<open>sendRaw\<close>, so an open socket
  carries it; the envelope that the gateway forwards for it names the peer that sent it,
  and its payload, handed to \<open>handleSignal\<close> of any hook that a run can reach, is given to the
  mesh of the room as the same kind of signal with the same data: to the mesh that the
  room has, or to one that is made for it, and for an offer after its sender was added
  as a peer.
\<close>

theorem signals_arrive_as_sent:
  fixes P :: rtc_api and es :: "hook_event list" and now :: int and d :: draws
    and room peer ty :: string and dat :: json
  assumes "room \<noteq> []" and "json_ok dat"
  defines "h \<equiv> foldl (hook_step P) new_mesh_hook es" and "msgText \<equiv> signal_text d room peer (signal_payload ty dat)"
  shows "raw_allowed msgText
     \<and> (connected c \<longrightarrow> sendSignal d room peer (signal_payload ty dat) c = ws_send (RawText msgText) c)
     \<and> (\<exists>msg. json_parse msgText = Some msg
          \<and> js_get (forwarded sender now msg) ''type'' = Some (JStr ''signal'')
          \<and> js_get (forwarded sender now msg) ''room'' = Some (JStr room)
          \<and> js_get (forwarded sender now msg) ''id'' = Some (JStr sender)
          \<and> (let r = hook_handleSignal P sender (js_get (forwarded sender now msg) ''payload'') room h in
               snd r = None \<and> map_has (peerMeshes (fst r)) room
               \<and> room_mesh (fst r) room = mesh_handleSignal P sender ty (Some dat)
                   (if ty = ''offer'' then addPeer sender False (room_mesh h room) else room_mesh h room)))"
proof -
  let ?p = "json_stringify (signal_payload ty dat)"
  let ?msg = "JObj [(''id'', JStr (d_id d)), (''type'', JStr ''signal''), (''room'', JStr room),
       (''to'', JStr peer), (''payload'', JStr ?p), (''timestamp'', JNum (d_now d))]"
  have parse: "json_parse msgText = Some ?msg"
    unfolding msgText_def signal_text_def by (rule json_roundtrip) simp
  have allowed: "raw_allowed msgText"
    using assms(1) by (simp add: raw_allowed_def parse map_get_def)
  have sent: "connected c \<longrightarrow> sendSignal d room peer (signal_payload ty dat) c = ws_send (RawText msgText) c"
    using allowed by (auto simp: sendSignal_def sendRaw_def connected_def msgText_def)
  have ok: "json_ok (signal_payload ty dat)" using assms(2) by (simp add: signal_payload_def)
  have p: "?p \<noteq> []" by (simp add: signal_payload_def)
  have env: "js_get (forwarded sender now ?msg) ''type'' = Some (JStr ''signal'')"
    "js_get (forwarded sender now ?msg) ''room'' = Some (JStr room)"
    "js_get (forwarded sender now ?msg) ''id'' = Some (JStr sender)"
    "js_get (forwarded sender now ?msg) ''payload'' = Some (JStr ?p)"
    using p by (simp_all add: forwarded_def omitempty_def env_string_def map_get_def List.map_filter_simps)
  have "read_payload (js_get (forwarded sender now ?msg) ''payload'') = Inr (Some (signal_payload ty dat))"
    unfolding env(4) by (simp add: json_roundtrip [OF ok])
  moreover have "hook_ok h"
    unfolding h_def by (rule mesh_hook.inv_run) (simp add: hook_ok_def new_mesh_hook_def)
  ultimately show ?thesis
    using signal_room_mesh [of h "js_get (forwarded sender now ?msg) ''payload''" ty dat P sender room] parse allowed sent env(1-3)
    by (simp add: Let_def)
qed

text \<open>An offer that reaches a hook without meshes: a mesh and a peer are made, which starts to answer it.\<close>

definition demo_offer :: json where
  "demo_offer = JObj [(''type'', JStr ''offer''), (''sdp'', JStr ''v=0'')]"

lemma signals_arrive_as_sent_witness:
  "\<exists>h'. map_has (peerMeshes h') ''r'' \<and> connections (room_mesh h' ''r'') = [(''peer-a'', 0)]
     \<and> c_awaiting (conns (room_mesh h' ''r'') ! 0) = [(0, 0, RemoteSet True demo_offer)]"
proof -
  have ok: "json_ok demo_offer" by (simp add: demo_offer_def)
  have mesh: "connections (mesh_handleSignal demo_api ''peer-a'' ''offer'' (Some demo_offer) (addPeer ''peer-a'' False new_mesh)) = [(''peer-a'', 0)]"
    "c_awaiting (conns (mesh_handleSignal demo_api ''peer-a'' ''offer'' (Some demo_offer) (addPeer ''peer-a'' False new_mesh)) ! 0)
      = [(0, 0, RemoteSet True demo_offer)]"
    by code_simp+
  have none: "room_mesh (foldl (hook_step demo_api) new_mesh_hook []) ''r'' = new_mesh"
    by (simp add: room_mesh_def new_mesh_hook_def map_get_def)
  from signals_arrive_as_sent [of "''r''" demo_offer "\<lparr>d_id = ''1'', d_msgId = ''2'', d_now = 5\<rparr>" "''peer-b''" "''offer''" new_client
      "''peer-a''" 7 demo_api "[]"] ok
  obtain h' where "map_has (peerMeshes h') ''r''"
    "room_mesh h' ''r'' = mesh_handleSignal demo_api ''peer-a'' ''offer'' (Some demo_offer)
       (addPeer ''peer-a'' False (room_mesh (foldl (hook_step demo_api) new_mesh_hook []) ''r''))"
    by (auto simp: Let_def)
  with mesh none show ?thesis by (intro exI [of _ h']) simp
qed

end
