(* ===== verification/Typing.thy ===== *)
theory Typing
  imports Client
begin

text \<open>
  Typing indicators (\<^verbatim>\<open>apps/trapchat/src/hooks/useTypingIndicator.js\<close>): at most one
  indicator every two seconds goes out; a peer is shown as typing for three and a half
  seconds after its last indicator.

  Members of the set of typing peers are JSON values, as the nickname of a payload may be
  any; two equal objects count as one member. The timers are the platform's, each with the
  name its callback closes over and the time it is due; \<open>typingTimersRef\<close> maps names,
  as property keys, to them.
\<close>

definition TYPING_THROTTLE_MS :: time where "TYPING_THROTTLE_MS = 2000"
definition TYPING_EXPIRE_MS :: time where "TYPING_EXPIRE_MS = 3500"

record typing =
  typingPeers :: "json list"
  typingTimers :: "(string, nat) jmap"
  lastTypingSent :: time
  ty_live :: "(nat \<times> json \<times> time) list"
  ty_next :: nat

definition new_typing :: typing where
  "new_typing = \<lparr>typingPeers = [], typingTimers = [], lastTypingSent = 0, ty_live = [], ty_next = 1\<rparr>"

section \<open>Sending\<close>

definition typing_payload :: "bool \<Rightarrow> string \<Rightarrow> json option" where
  "typing_payload flag nickname =
     Some (JStr (json_stringify (JObj [(''typing'', JBool flag), (''nickname'', JStr nickname)])))"

definition sendTypingIndicator ::
  "draws \<Rightarrow> time \<Rightarrow> string \<Rightarrow> string \<Rightarrow> bool \<Rightarrow> typing \<times> client \<Rightarrow> typing \<times> client" where
  "sendTypingIndicator d now room nickname flag s =
     (case s of (t, c) \<Rightarrow>
        if room = [] then (t, c)
        else if flag \<and> now - lastTypingSent t < TYPING_THROTTLE_MS then (t, c)
        else (t\<lparr>lastTypingSent := now\<rparr>, fst (send d ''typing'' room (typing_payload flag nickname) [] c)))"

section \<open>Receiving\<close>

definition clear_timer :: "nat option \<Rightarrow> typing \<Rightarrow> typing" where
  "clear_timer timer t =
     (case timer of None \<Rightarrow> t | Some n \<Rightarrow> t\<lparr>ty_live := filter (\<lambda>x. fst x \<noteq> n) (ty_live t)\<rparr>)"

text \<open>
  \<open>tp.nickname || senderId.slice(0, 8)\<close> with \<open>senderId = data.id || 'unknown'\<close>; only
  strings and arrays have a \<open>slice\<close>.
\<close>

definition sender_name :: "json option \<Rightarrow> json option \<Rightarrow> js_error + json" where
  "sender_name nickname dataId =
     (if truthy nickname then Inr (the nickname)
      else case js_or dataId (Some (JStr ''unknown'')) of
        Some (JStr s) \<Rightarrow> Inr (JStr (js_slice s 0 8))
      | Some (JArr xs) \<Rightarrow> Inr (JArr (take 8 xs))
      | _ \<Rightarrow> Inl TypeError)"

text \<open>
  \<open>typingTimersRef.current[name] = timer\<close>. The reference is a plain object, in which an
  assignment of a number to \<open>__proto__\<close> has no effect.
\<close>

definition set_timer :: "string \<Rightarrow> nat \<Rightarrow> (string, nat) jmap \<Rightarrow> (string, nat) jmap" where
  "set_timer key n m = (if key = ''__proto__'' then m else map_set key n m)"

definition typing_starts :: "time \<Rightarrow> json \<Rightarrow> typing \<Rightarrow> typing" where
  "typing_starts now name t =
     (let t1 = t\<lparr>typingPeers := set_add name (typingPeers t)\<rparr>;
          t2 = clear_timer (map_get (typingTimers t1) (js_to_string name)) t1
      in t2\<lparr>typingTimers := set_timer (js_to_string name) (ty_next t2) (typingTimers t2),
            ty_live := ty_live t2 @ [(ty_next t2, name, now + TYPING_EXPIRE_MS)], ty_next := Suc (ty_next t2)\<rparr>)"

definition typing_stops :: "json \<Rightarrow> typing \<Rightarrow> typing" where
  "typing_stops name t =
     (let t1 = t\<lparr>typingPeers := set_delete name (typingPeers t)\<rparr> in
      case map_get (typingTimers t1) (js_to_string name) of
        None \<Rightarrow> t1
      | Some n \<Rightarrow> (clear_timer (Some n) t1)\<lparr>typingTimers := map_delete (js_to_string name) (typingTimers t1)\<rparr>)"

text \<open>What a message says: whose indicator it is, and whether it starts.\<close>

definition typing_news :: "json option \<Rightarrow> json option \<Rightarrow> js_error + json \<times> bool" where
  "typing_news dataId payload =
     (case read_payload payload of
        Inl e \<Rightarrow> Inl e
      | Inr tp \<Rightarrow>
          (case js_read tp ''nickname'' of
             Inl e \<Rightarrow> Inl e
           | Inr nickname \<Rightarrow>
               (case sender_name nickname dataId of
                  Inl e \<Rightarrow> Inl e
                | Inr name \<Rightarrow> Inr (name, truthy (js_get (the tp) ''typing'')))))"

definition handleTypingMessage :: "time \<Rightarrow> json option \<Rightarrow> json option \<Rightarrow> typing \<Rightarrow> typing" where
  "handleTypingMessage now dataId payload t =
     (case typing_news dataId payload of
        Inl _ \<Rightarrow> t
      | Inr (name, starts) \<Rightarrow> if starts then typing_starts now name t else typing_stops name t)"

definition typing_expires :: "nat \<Rightarrow> typing \<Rightarrow> typing" where
  "typing_expires n t =
     (case map_of (ty_live t) n of
        None \<Rightarrow> t
      | Some (name, due) \<Rightarrow>
          t\<lparr>ty_live := filter (\<lambda>x. fst x \<noteq> n) (ty_live t), typingPeers := set_delete name (typingPeers t),
            typingTimers := map_delete (js_to_string name) (typingTimers t)\<rparr>)"

definition clearTyping :: "typing \<Rightarrow> typing" where
  "clearTyping t =
     t\<lparr>ty_live := filter (\<lambda>x. fst x \<notin> set (map snd (typingTimers t))) (ty_live t), typingTimers := [], typingPeers := []\<rparr>"

definition typingText :: "typing \<Rightarrow> string" where
  "typingText t =
     (case map js_to_string (typingPeers t) of
        [] \<Rightarrow> []
      | [p] \<Rightarrow> p @ '' is typing...''
      | p # ps \<Rightarrow> p @ concat (map (\<lambda>q. '', '' @ q) ps) @ '' are typing...'')"

datatype typing_event =
    TyMessage time "json option" "json option"
  | TyTimer nat
  | TyClear

fun typing_step :: "typing \<Rightarrow> typing_event \<Rightarrow> typing" where
  "typing_step t (TyMessage now dataId payload) = handleTypingMessage now dataId payload t"
| "typing_step t (TyTimer n) = typing_expires n t"
| "typing_step t TyClear = clearTyping t"

section \<open>Every typing peer has its timer\<close>

text \<open>
  The live timers are exactly those of the reference map, one for each name, and every
  typing peer is the name of one of them, provided names are strings and keys of a plain
  object. A name is the nickname in the payload or the start of the sender's peer id; clients
  of the application send a string as nickname.
\<close>

definition string_names :: "typing_event \<Rightarrow> bool" where
  "string_names e =
     (case e of
        TyMessage now dataId payload \<Rightarrow>
          (case typing_news dataId payload of Inl _ \<Rightarrow> True | Inr (name, _) \<Rightarrow> is_string (Some name) \<and> name \<noteq> JStr ''__proto__'')
      | _ \<Rightarrow> True)"

definition typing_ok :: "typing \<Rightarrow> bool" where
  "typing_ok t \<longleftrightarrow>
     map_ok (typingTimers t)
     \<and> (\<forall>s. JStr s \<in> set (typingPeers t) \<longrightarrow> map_has (typingTimers t) s)
     \<and> (\<forall>p\<in>set (typingPeers t). is_string (Some p))
     \<and> (\<forall>s n. map_get (typingTimers t) s = Some n \<longleftrightarrow> (\<exists>due. (n, JStr s, due) \<in> set (ty_live t)))
     \<and> (\<forall>x\<in>set (ty_live t). fst x < ty_next t \<and> is_string (Some (fst (snd x))))
     \<and> distinct (map fst (ty_live t))"

lemma is_string_cases: "is_string (Some v) \<longleftrightarrow> (\<exists>s. v = JStr s)"
  by (cases v) auto

lemma live_named:
  "typing_ok t \<Longrightarrow> (n, JStr s, due) \<in> set (ty_live t) \<Longrightarrow> map_get (typingTimers t) s = Some n"
  by (auto simp: typing_ok_def)

lemma live_unique:
  "typing_ok t \<Longrightarrow> (n, x, due) \<in> set (ty_live t) \<Longrightarrow> (n, y, due') \<in> set (ty_live t) \<Longrightarrow> x = y"
  by (auto simp: typing_ok_def dest: eq_key_imp_eq_value)

text \<open>The state without the entry, the timer and the membership of one name.\<close>

definition forget_name :: "string \<Rightarrow> typing \<Rightarrow> typing" where
  "forget_name s t =
     t\<lparr>typingPeers := set_delete (JStr s) (typingPeers t), typingTimers := map_delete s (typingTimers t),
       ty_live := filter (\<lambda>x. fst (snd x) \<noteq> JStr s) (ty_live t)\<rparr>"

lemma typing_ok_forget: "typing_ok t \<Longrightarrow> typing_ok (forget_name s t)"
  by (auto simp: typing_ok_def forget_name_def map_has_get distinct_map_filter)

text \<open>Taking out the timer of a name takes out exactly the live timers with that name.\<close>

lemma filter_timer:
  assumes "typing_ok t" "map_get (typingTimers t) s = Some n"
  shows "filter (\<lambda>x. fst x \<noteq> n) (ty_live t) = filter (\<lambda>x. fst (snd x) \<noteq> JStr s) (ty_live t)"
proof (rule filter_cong [OF refl])
  fix x assume x: "x \<in> set (ty_live t)"
  obtain m y due where xs: "x = (m, y, due)" by (cases x)
  obtain due' where "(n, JStr s, due') \<in> set (ty_live t)" using assms by (auto simp: typing_ok_def)
  with live_unique [OF assms(1)] live_named [OF assms(1)] x xs assms(2)
  show "fst x \<noteq> n \<longleftrightarrow> fst (snd x) \<noteq> JStr s" by (metis fst_conv option.inject snd_conv)
qed

lemma no_timer_no_live:
  assumes "typing_ok t" "map_get (typingTimers t) s = None"
  shows "filter (\<lambda>x. fst (snd x) \<noteq> JStr s) (ty_live t) = ty_live t"
proof (rule filter_True, rule ballI)
  fix x assume "x \<in> set (ty_live t)"
  with live_named [OF assms(1), of "fst x" s "snd (snd x)"] assms(2) show "fst (snd x) \<noteq> JStr s"
    by (metis option.distinct(1) prod.collapse)
qed

lemma typing_stops_forget: "typing_ok t \<Longrightarrow> typing_stops (JStr s) t = forget_name s t"
proof (cases "map_get (typingTimers t) s")
  case None
  assume ok: "typing_ok t"
  have "map_delete s (typingTimers t) = typingTimers t"
    using None by (simp add: map_delete_def map_get_def delete_id map_of_eq_None_iff)
  with None no_timer_no_live [OF ok None] show ?thesis
    by (simp add: typing_stops_def forget_name_def Let_def)
next
  case (Some n)
  assume ok: "typing_ok t"
  from filter_timer [OF ok Some] Some show ?thesis
    by (simp add: typing_stops_def forget_name_def clear_timer_def Let_def)
qed

lemma typing_expires_forget:
  assumes ok: "typing_ok t" and live: "(n, JStr s, due) \<in> set (ty_live t)"
  shows "typing_expires n t = forget_name s t"
proof -
  have "map_of (ty_live t) n = Some (JStr s, due)"
    using ok live by (simp add: typing_ok_def)
  with filter_timer [OF ok live_named [OF ok live]] show ?thesis
    by (simp add: typing_expires_def forget_name_def)
qed

text \<open>A new indicator forgets the name and then enters it afresh.\<close>

definition enter_name :: "time \<Rightarrow> string \<Rightarrow> json list \<Rightarrow> typing \<Rightarrow> typing" where
  "enter_name now s peers t =
     t\<lparr>typingPeers := peers, typingTimers := map_set s (ty_next t) (typingTimers t),
       ty_live := ty_live t @ [(ty_next t, JStr s, now + TYPING_EXPIRE_MS)], ty_next := Suc (ty_next t)\<rparr>"

lemma typing_ok_enter:
  assumes "typing_ok t" "map_get (typingTimers t) s = None" "set peers \<subseteq> insert (JStr s) (set (typingPeers t))"
  shows "typing_ok (enter_name now s peers t)"
proof -
  have none: "(n, JStr s, due) \<notin> set (ty_live t)" for n due
    using live_named [OF assms(1)] assms(2) by auto
  have less: "n < ty_next t" if "(n, x, due) \<in> set (ty_live t)" for n x due
    using assms(1) that by (force simp: typing_ok_def)
  then have fresh: "(ty_next t, x, due) \<notin> set (ty_live t)" for x due by auto
  show ?thesis
    using assms none less fresh unfolding typing_ok_def enter_name_def
    by (auto simp: map_has_get less_Suc_eq image_iff)
qed

lemma typing_starts_enter:
  assumes ok: "typing_ok t" and s: "s \<noteq> ''__proto__''"
  shows "typing_ok (typing_starts now (JStr s) t)"
proof -
  let ?peers = "set_add (JStr s) (typingPeers t)"
  have forget: "typing_ok (forget_name s t)" by (rule typing_ok_forget [OF ok])
  have "map_get (typingTimers (forget_name s t)) s = None" by (simp add: forget_name_def)
  moreover have "set ?peers \<subseteq> insert (JStr s) (set (typingPeers (forget_name s t)))"
    by (auto simp: forget_name_def)
  ultimately have fresh: "typing_ok (enter_name now s ?peers (forget_name s t))"
    by (intro typing_ok_enter forget)
  have live: "ty_live (typing_starts now (JStr s) t) = ty_live (enter_name now s ?peers (forget_name s t))"
    using filter_timer [OF ok, of s] no_timer_no_live [OF ok, of s]
    by (cases "map_get (typingTimers t) s")
      (simp_all add: typing_starts_def enter_name_def forget_name_def clear_timer_def Let_def)
  have timers: "map_get (typingTimers (typing_starts now (JStr s) t)) = map_get (typingTimers (enter_name now s ?peers (forget_name s t)))"
    by (rule ext) (simp add: typing_starts_def set_timer_def s enter_name_def forget_name_def clear_timer_def Let_def split: option.split)
  have rest: "typingPeers (typing_starts now (JStr s) t) = typingPeers (enter_name now s ?peers (forget_name s t))"
    "ty_next (typing_starts now (JStr s) t) = ty_next (enter_name now s ?peers (forget_name s t))"
    "map_ok (typingTimers (typing_starts now (JStr s) t))"
    using ok s by (simp_all add: typing_ok_def typing_starts_def set_timer_def enter_name_def forget_name_def clear_timer_def Let_def split: option.split)
  show ?thesis
    using fresh rest(3) unfolding typing_ok_def map_has_get live timers rest(1,2) by blast
qed

lemma typing_ok_clear: "typing_ok t \<Longrightarrow> typing_ok (clearTyping t)"
proof -
  assume ok: "typing_ok t"
  have "fst x \<in> set (map snd (typingTimers t))" if "x \<in> set (ty_live t)" for x
  proof -
    have "is_string (Some (fst (snd x)))" using ok that by (simp add: typing_ok_def)
    then obtain s where "fst (snd x) = JStr s" by (auto simp: is_string_cases)
    then have "(fst x, JStr s, snd (snd x)) \<in> set (ty_live t)" using that by (metis prod.collapse)
    from map_get_in_set [OF live_named [OF ok this]] show ?thesis by force
  qed
  then have "ty_live (clearTyping t) = []" by (auto simp: clearTyping_def filter_empty_conv)
  then show ?thesis by (simp add: typing_ok_def map_has_get) (simp add: clearTyping_def)
qed

lemma typing_ok_step: "typing_ok t \<Longrightarrow> string_names e \<Longrightarrow> typing_ok (typing_step t e)"
proof (cases e)
  case (TyTimer n)
  assume ok: "typing_ok t"
  show ?thesis
  proof (cases "map_of (ty_live t) n")
    case (Some x)
    obtain name due where x: "x = (name, due)" by (cases x)
    then have mem: "(n, name, due) \<in> set (ty_live t)" using Some by (simp add: map_of_SomeD)
    moreover have "is_string (Some name)" if "(n, name, due) \<in> set (ty_live t)"
      using ok that unfolding typing_ok_def by force
    ultimately obtain s where "name = JStr s" by (auto simp: is_string_cases)
    with mem typing_expires_forget [OF ok] typing_ok_forget [OF ok] TyTimer show ?thesis by simp
  qed (use TyTimer ok in \<open>simp add: typing_expires_def\<close>)
next
  case TyClear
  assume "typing_ok t"
  with TyClear typing_ok_clear show ?thesis by simp
next
  case (TyMessage now dataId payload)
  assume "typing_ok t" "string_names e"
  with TyMessage show ?thesis
    by (auto simp: handleTypingMessage_def string_names_def is_string_cases typing_starts_enter typing_stops_forget
        typing_ok_forget split: sum.splits)
qed

lemma typing_ok_run: "typing_ok t \<Longrightarrow> list_all string_names es \<Longrightarrow> typing_ok (foldl typing_step t es)"
  by (induction es arbitrary: t) (simp_all add: typing_ok_step)

lemma typing_ok_new: "typing_ok new_typing"
  by (simp add: typing_ok_def new_typing_def map_has_get)

section \<open>The last indicator of a peer\<close>

text \<open>When an event is an indicator of the peer, and whether it starts.\<close>

fun indicator :: "json \<Rightarrow> typing_event \<Rightarrow> (time \<times> bool) option" where
  "indicator p (TyMessage now dataId payload) =
     (case typing_news dataId payload of
        Inl _ \<Rightarrow> None
      | Inr (name, starts) \<Rightarrow> if name = p then Some (now, starts) else None)"
| "indicator p _ = None"

definition last_indicator :: "json \<Rightarrow> typing_event list \<Rightarrow> (time \<times> bool) option" where
  "last_indicator p es = (let xs = List.map_filter (indicator p) es in if xs = [] then None else Some (last xs))"

lemma last_indicator_simps [simp]:
  "last_indicator p [] = None"
  "last_indicator p (es @ [e]) = (case indicator p e of None \<Rightarrow> last_indicator p es | Some x \<Rightarrow> Some x)"
proof -
  have app: "List.map_filter (indicator p) (es @ [e]) =
      List.map_filter (indicator p) es @ (case indicator p e of None \<Rightarrow> [] | Some x \<Rightarrow> [x])"
    by (simp add: List.map_filter_def split: option.split)
  show "last_indicator p (es @ [e]) = (case indicator p e of None \<Rightarrow> last_indicator p es | Some x \<Rightarrow> Some x)"
    unfolding last_indicator_def app by (simp add: Let_def split: option.split)
qed (simp add: last_indicator_def List.map_filter_def)

definition dues_ok :: "typing_event list \<Rightarrow> typing \<Rightarrow> bool" where
  "dues_ok es t \<longleftrightarrow> (\<forall>(n, p, due)\<in>set (ty_live t). last_indicator p es = Some (due - 3500, True))"

lemma dues_quiet:
  "dues_ok es t \<Longrightarrow> set (ty_live t') \<subseteq> set (ty_live t) \<Longrightarrow>
     (\<And>n p due. (n, p, due) \<in> set (ty_live t') \<Longrightarrow> indicator p e = None) \<Longrightarrow> dues_ok (es @ [e]) t'"
  by (fastforce simp: dues_ok_def)

lemma live_forget: "set (ty_live (forget_name s t)) = {x \<in> set (ty_live t). fst (snd x) \<noteq> JStr s}"
  by (simp add: forget_name_def)

lemma live_starts:
  assumes "typing_ok t"
  shows "set (ty_live (typing_starts now (JStr s) t)) =
     insert (ty_next t, JStr s, now + 3500) (set (ty_live (forget_name s t)))"
  using filter_timer [OF assms, of s] no_timer_no_live [OF assms, of s]
  by (cases "map_get (typingTimers t) s")
    (simp_all add: typing_starts_def forget_name_def clear_timer_def Let_def TYPING_EXPIRE_MS_def)

lemma dues_step:
  assumes ok: "typing_ok t" and dues: "dues_ok es t" and names: "string_names e"
  shows "dues_ok (es @ [e]) (typing_step t e)"
proof (cases e)
  case (TyMessage now dataId payload)
  show ?thesis
  proof (cases "typing_news dataId payload")
    case (Inl err)
    with dues TyMessage show ?thesis by (intro dues_quiet [OF dues]) (simp_all add: handleTypingMessage_def)
  next
    case (Inr news)
    obtain name starts where news: "news = (name, starts)" by (cases news)
    obtain s where s: "name = JStr s" using names TyMessage Inr news by (auto simp: string_names_def is_string_cases)
    have ind: "indicator p e = (if p = JStr s then Some (now, starts) else None)" for p
      using TyMessage Inr news s by simp
    have old: "dues_ok (es @ [e]) (forget_name s t)"
      by (rule dues_quiet [OF dues]) (auto simp: live_forget ind)
    show ?thesis
    proof (cases starts)
      case True
      with TyMessage Inr news s have "typing_step t e = typing_starts now (JStr s) t" by (simp add: handleTypingMessage_def)
      with old ind True show ?thesis by (simp add: dues_ok_def live_starts [OF ok])
    next
      case False
      with TyMessage Inr news s old show ?thesis by (simp add: handleTypingMessage_def typing_stops_forget [OF ok])
    qed
  qed
next
  case (TyTimer n)
  then show ?thesis
    by (intro dues_quiet [OF dues]) (auto simp: typing_expires_def split: option.splits prod.splits)
next
  case TyClear
  then show ?thesis by (intro dues_quiet [OF dues]) (auto simp: clearTyping_def)
qed

lemma dues_run: "list_all string_names es \<Longrightarrow> dues_ok es (foldl typing_step new_typing es)"
proof (induction es rule: rev_induct)
  case Nil
  show ?case by (simp add: dues_ok_def new_typing_def)
next
  case (snoc e es)
  then show ?case using typing_ok_run [OF typing_ok_new, of es] by (simp add: dues_step)
qed

section \<open>Properties\<close>

text \<open>
  C28: Nobody is shown typing forever, as long as the names of the indicators are strings other
  than \<open>__proto__\<close>. In every such run of indicators, timers and clears, each typing peer
  has exactly one live timer of its own, due three and a half seconds after its last
  indicator, which was one that starts; that timer takes the peer off the list and no
  other one; and every live timer is the one that the reference map holds for its name.
\<close>

theorem typing_peers_expire:
  fixes es :: "typing_event list"
  defines "t \<equiv> foldl typing_step new_typing es"
  assumes "list_all string_names es"
  shows "(\<forall>p\<in>set (typingPeers t). \<exists>n due. {x \<in> set (ty_live t). fst (snd x) = p} = {(n, p, due)}
       \<and> last_indicator p es = Some (due - 3500, True)
       \<and> set (typingPeers (typing_step t (TyTimer n))) = set (typingPeers t) - {p})
     \<and> (\<forall>(n, p, due)\<in>set (ty_live t). map_get (typingTimers t) (js_to_string p) = Some n)"
proof (intro conjI ballI)
  have ok: "typing_ok t" unfolding t_def by (rule typing_ok_run [OF typing_ok_new assms(2)])
  have dues: "dues_ok es t" unfolding t_def by (rule dues_run [OF assms(2)])
  fix p assume p: "p \<in> set (typingPeers t)"
  have "is_string (Some p)" using p ok by (simp add: typing_ok_def)
  then obtain s where s: "p = JStr s" by (auto simp: is_string_cases)
  with p ok obtain n where n: "map_get (typingTimers t) s = Some n" by (auto simp: typing_ok_def map_has_get)
  then obtain due where live: "(n, JStr s, due) \<in> set (ty_live t)" using ok by (auto simp: typing_ok_def)
  have "x = (n, p, due)" if mem: "x \<in> set (ty_live t)" and named: "fst (snd x) = p" for x
  proof -
    obtain m d where x: "x = (m, JStr s, d)" using named s by (cases x) auto
    with mem live_named [OF ok] n have m: "m = n" by fastforce
    have "distinct (map fst (ty_live t))" using ok by (simp add: typing_ok_def)
    moreover have "(n, JStr s, d) \<in> set (ty_live t)" using mem unfolding x m .
    ultimately have "(JStr s, d) = (JStr s, due)" using live by (rule eq_key_imp_eq_value)
    then show ?thesis unfolding x m s by simp
  qed
  then have "{x \<in> set (ty_live t). fst (snd x) = p} \<subseteq> {(n, p, due)}" by blast
  moreover have "(n, p, due) \<in> {x \<in> set (ty_live t). fst (snd x) = p}" using live unfolding s by simp
  ultimately have "{x \<in> set (ty_live t). fst (snd x) = p} = {(n, p, due)}" by blast
  moreover have "set (typingPeers (typing_step t (TyTimer n))) = set (typingPeers t) - {p}"
    using typing_expires_forget [OF ok live] s by (simp add: forget_name_def)
  moreover have "last_indicator p es = Some (due - 3500, True)" using dues live s by (auto simp: dues_ok_def)
  ultimately show "\<exists>n due. {x \<in> set (ty_live t). fst (snd x) = p} = {(n, p, due)}
     \<and> last_indicator p es = Some (due - 3500, True)
     \<and> set (typingPeers (typing_step t (TyTimer n))) = set (typingPeers t) - {p}"
    by blast
next
  have ok: "typing_ok t" unfolding t_def by (rule typing_ok_run [OF typing_ok_new assms(2)])
  fix x assume x: "x \<in> set (ty_live t)"
  then have "is_string (Some (fst (snd x)))" using ok by (simp add: typing_ok_def)
  then obtain n s due where "x = (n, JStr s, due)" by (cases x) (auto simp: is_string_cases)
  with x live_named [OF ok, of n s due]
  show "case x of (n, p, due) \<Rightarrow> map_get (typingTimers t) (js_to_string p) = Some n" by simp
qed

definition demo_typing :: "typing_event list" where
  "demo_typing =
     [TyMessage 0 None (typing_payload True ''ann''), TyMessage 5 None (typing_payload True ''bob''),
      TyMessage 9 None (typing_payload True ''ann'')]"

lemma typing_peers_expire_witness:
  "typingPeers (foldl typing_step new_typing demo_typing) = [JStr ''ann'', JStr ''bob'']
   \<and> last_indicator (JStr ''ann'') demo_typing = Some (9, True)
   \<and> (\<exists>n. {x \<in> set (ty_live (foldl typing_step new_typing demo_typing)). fst (snd x) = JStr ''ann''} = {(n, JStr ''ann'', 3509)}
        \<and> set (typingPeers (typing_step (foldl typing_step new_typing demo_typing) (TyTimer n))) = {JStr ''bob''})"
proof -
  have peers: "typingPeers (foldl typing_step new_typing demo_typing) = [JStr ''ann'', JStr ''bob'']"
    and names: "list_all string_names demo_typing"
    and said: "last_indicator (JStr ''ann'') demo_typing = Some (9, True)"
    by code_simp+
  from typing_peers_expire [OF names] peers
  obtain n due where "{x \<in> set (ty_live (foldl typing_step new_typing demo_typing)). fst (snd x) = JStr ''ann''} = {(n, JStr ''ann'', due)}"
    "last_indicator (JStr ''ann'') demo_typing = Some (due - 3500, True)"
    "set (typingPeers (typing_step (foldl typing_step new_typing demo_typing) (TyTimer n))) = {JStr ''bob''}"
    by auto
  moreover from this(2) said have "due = 3509" by simp
  ultimately show ?thesis using peers said by blast
qed

text \<open>
  The names need to be strings: the nicknames \<open>5\<close> and \<open>"5"\<close> are two members of the set and one
  key of the timers, so the second one clears the timer of the first, which stays. And
  \<open>__proto__\<close> is no key: a repeated indicator leaves the timer of the first alive.
\<close>

definition typing_as :: "json \<Rightarrow> json option" where
  "typing_as nickname = Some (JStr (json_stringify (JObj [(''typing'', JBool True), (''nickname'', nickname)])))"

lemma numeric_nickname_stays:
  "(let t = foldl typing_step new_typing [TyMessage 0 None (typing_as (JNum 5)), TyMessage 1 None (typing_as (JStr ''5'')), TyTimer 2]
    in typingPeers t = [JNum 5] \<and> ty_live t = [])"
  by code_simp

lemma proto_nickname_keeps_old_timer:
  "(let t = foldl typing_step new_typing [TyMessage 0 None (typing_as (JStr ''__proto__'')), TyMessage 3000 None (typing_as (JStr ''__proto__''))]
    in map (snd \<circ> snd) (ty_live t) = [3500, 6500] \<and> typingPeers (typing_step t (TyTimer 1)) = [])"
  by code_simp

text \<open>An indicator that starts typing goes out only two seconds after the last one of either kind.\<close>

lemma typing_is_throttled:
  "room \<noteq> [] \<Longrightarrow>
     sendTypingIndicator d now room nickname flag (t, c) =
       (if flag \<and> now < lastTypingSent t + 2000 then (t, c)
        else (t\<lparr>lastTypingSent := now\<rparr>, fst (send d ''typing'' room (typing_payload flag nickname) [] c)))"
  by (auto simp: sendTypingIndicator_def TYPING_THROTTLE_MS_def)

end
