(* ===== verification/MediaHook.thy ===== *)
theory MediaHook
  imports Media RoomManager
begin

text \<open>
  Media in the application (\<^verbatim>\<open>apps/trapchat/src/hooks/useMediaTransfer.js\<close>): the assembler
  of received chunks, the uploads of files and of the canvas, their progress, and the chat
  messages they end in.

  The assemblers are a heap, as a call of \<open>handleChunk\<close> that is still suspended keeps its
  assembler when another one takes its place. An upload is what \<open>sendMedia\<close> is going to
  send; each of its steps hands one chunk to the client. Chat messages are recorded with
  the room whose \<open>appendMessage\<close> they are given to.
\<close>

section \<open>Keys that may be missing\<close>

text \<open>\<open>keyRef.current\<close> may be null; WebCrypto then throws a \<open>TypeError\<close>.\<close>

definition nullable :: "'k webcrypto \<Rightarrow> 'k option webcrypto" where
  "nullable P =
     \<lparr>aes_encrypt = (\<lambda>iv k m. case k of None \<Rightarrow> Inl TypeError | Some key \<Rightarrow> aes_encrypt P iv key m),
      aes_decrypt = (\<lambda>iv k c. case k of None \<Rightarrow> Inl TypeError | Some key \<Rightarrow> aes_decrypt P iv key c),
      export_raw = (\<lambda>k. case k of None \<Rightarrow> Inl TypeError | Some key \<Rightarrow> export_raw P key),
      import_aes = (\<lambda>raw. bind (import_aes P raw) (\<lambda>key. Inr (Some key))),
      sha256_digest = sha256_digest P,
      pbkdf2_derive = (\<lambda>pw salt n len. bind (pbkdf2_derive P pw salt n len) (\<lambda>key. Inr (Some key)))\<rparr>"

section \<open>The hook\<close>

text \<open>
  An upload: its room, the chunk payloads still to be sent, each with the progress reported
  after it, the result, and what the message needs besides: its URL and size, and the text
  that announces a failure.
\<close>

record upload =
  up_room :: string
  up_todo :: "(string \<times> nat \<times> nat) list"
  up_result :: "js_error + media_sent"
  up_url :: string
  up_size :: "json option"
  up_failure :: string

record 'k media_hook =
  assemblers :: "'k option assembler list"
  assemblerRef :: "nat option"
  uploads :: "upload list"
  uploadProgress :: "(nat \<times> nat) option"
  downloadProgress :: "(json \<times> nat \<times> json) option"
  progress_timers :: nat
  media_sends :: "(string \<times> string) list"
  media_messages :: "(string \<times> chat_msg) list"

definition new_media_hook :: "'k media_hook" where
  "new_media_hook =
     \<lparr>assemblers = [], assemblerRef = None, uploads = [], uploadProgress = None, downloadProgress = None,
      progress_timers = 0, media_sends = [], media_messages = []\<rparr>"

definition update_assembler ::
  "nat \<Rightarrow> ('k option assembler \<Rightarrow> 'k option assembler) \<Rightarrow> 'k media_hook \<Rightarrow> 'k media_hook" where
  "update_assembler r f h = h\<lparr>assemblers := (assemblers h)[r := f (assemblers h ! r)]\<rparr>"

definition destroy_current :: "'k media_hook \<Rightarrow> 'k media_hook" where
  "destroy_current h = (case assemblerRef h of None \<Rightarrow> h | Some r \<Rightarrow> update_assembler r destroy h)"

definition initAssembler :: "'k media_hook \<Rightarrow> 'k media_hook" where
  "initAssembler h =
     (let h1 = destroy_current h
      in h1\<lparr>assemblers := assemblers h1 @ [new_assembler True], assemblerRef := Some (length (assemblers h1))\<rparr>)"

definition destroyAssembler :: "'k media_hook \<Rightarrow> 'k media_hook" where
  "destroyAssembler h = (destroy_current h)\<lparr>assemblerRef := None\<rparr>"

text \<open>The callback \<open>onProgress\<close>; the last chunk starts a timer that takes the progress bar away.\<close>

definition on_progress :: "json \<times> nat \<times> json \<Rightarrow> 'k media_hook \<Rightarrow> 'k media_hook" where
  "on_progress pr h =
     (case pr of (transferId, received, tot) \<Rightarrow>
        h\<lparr>downloadProgress := Some pr,
          progress_timers := progress_timers h + (if JNum (int received) = tot then 1 else 0)\<rparr>)"

definition progress_expires :: "'k media_hook \<Rightarrow> 'k media_hook" where
  "progress_expires h =
     (if progress_timers h = 0 then h else h\<lparr>downloadProgress := None, progress_timers := progress_timers h - 1\<rparr>)"

definition append_media :: "string \<Rightarrow> chat_msg \<Rightarrow> 'k media_hook \<Rightarrow> 'k media_hook" where
  "append_media room msg h = h\<lparr>media_messages := media_messages h @ [(room, msg)]\<rparr>"

text \<open>What is appended for a result of the assembler; progress and ignored chunks give none.\<close>

definition media_message :: "string \<Rightarrow> string \<Rightarrow> outcome \<Rightarrow> chat_msg option" where
  "media_message uuid url result =
     (case result of
        OutError tid message \<Rightarrow> Some ((app_msg uuid message)\<lparr>cm_error := True\<rparr>)
      | OutComplete tid mime name sz bytes \<Rightarrow>
          Some ((app_msg uuid [])
            \<lparr>cm_media := Some \<lparr>mi_url = url, mi_mimeType = Some (JStr mime), mi_fileName = map_option JStr name,
                              mi_fileSize = sz\<rparr>\<rparr>)
      | _ \<Rightarrow> None)"

text \<open>\<open>handleMediaChunk\<close> up to its \<open>await\<close>: the call of \<open>handleChunk\<close> with the current key.\<close>

definition handleMediaChunk :: "json option \<Rightarrow> 'k option \<Rightarrow> 'k media_hook \<Rightarrow> 'k media_hook" where
  "handleMediaChunk payload key h =
     (case assemblerRef h of None \<Rightarrow> h | Some r \<Rightarrow> update_assembler r (handleChunk_begin payload key) h)"

text \<open>The result of call \<open>i\<close>, when the call has settled without throwing.\<close>

definition chunk_result :: "nat \<Rightarrow> 'k assembler \<Rightarrow> outcome option" where
  "chunk_result i a = (case a_calls a ! i of Settled (Inr result) \<Rightarrow> Some result | _ \<Rightarrow> None)"

definition chunk_pending :: "nat \<Rightarrow> 'k assembler \<Rightarrow> bool" where
  "chunk_pending i a = (i < length (a_calls a) \<and> (case a_calls a ! i of Settled _ \<Rightarrow> False | _ \<Rightarrow> True))"

text \<open>
  Call \<open>i\<close> of the assembler \<open>r\<close> goes on; when it has settled, so does \<open>handleMediaChunk\<close>,
  which appends to \<open>room\<close>. The object URL and the id are drawn.
\<close>

definition chunk_resumes ::
  "'k webcrypto \<Rightarrow> nat \<Rightarrow> nat \<Rightarrow> string \<Rightarrow> string \<Rightarrow> string \<Rightarrow> 'k media_hook \<Rightarrow> 'k media_hook" where
  "chunk_resumes P r i room uuid url h =
     (if r < length (assemblers h) \<and> chunk_pending i (assemblers h ! r) then
        (let a = assemblers h ! r;
             a' = media_step (nullable P) a (AResume i);
             h1 = fold on_progress (drop (length (a_progress a)) (a_progress a')) (h\<lparr>assemblers := (assemblers h)[r := a']\<rparr>)
         in case Option.bind (chunk_result i a') (media_message uuid url) of
              None \<Rightarrow> h1
            | Some msg \<Rightarrow> append_media room msg h1)
      else h)"

definition stale_expires :: "nat \<Rightarrow> nat \<Rightarrow> 'k media_hook \<Rightarrow> 'k media_hook" where
  "stale_expires r t h = (if r < length (assemblers h) then update_assembler r (timer_expires t) h else h)"

section \<open>Uploads\<close>

definition start_upload ::
  "string \<Rightarrow> string list \<times> (nat \<times> nat) list \<times> (js_error + media_sent) \<Rightarrow> string \<Rightarrow> json option \<Rightarrow> string
     \<Rightarrow> 'k media_hook \<Rightarrow> 'k media_hook" where
  "start_upload room sending url sz failure h =
     (case sending of (payloads, progress, result) \<Rightarrow>
        h\<lparr>uploadProgress := Some (0, 1),
          uploads := uploads h @ [\<lparr>up_room = room, up_todo = zip payloads progress, up_result = result, up_url = url,
                                  up_size = sz, up_failure = failure\<rparr>]\<rparr>)"

text \<open>\<open>url\<close> is what \<open>URL.createObjectURL\<close> makes for the file.\<close>

definition handleFileSelect ::
  "'k webcrypto \<Rightarrow> (nat \<Rightarrow> byte list) \<Rightarrow> uuid \<Rightarrow> (nat \<Rightarrow> string) \<Rightarrow> string \<Rightarrow> string \<Rightarrow> 'k option \<Rightarrow> media_file option
     \<Rightarrow> 'k media_hook \<Rightarrow> 'k media_hook" where
  "handleFileSelect P ivs transferId toMB room url key sel h =
     (case sel of
        None \<Rightarrow> h
      | Some f \<Rightarrow>
          start_upload room (sendMedia (nullable P) ivs transferId toMB key f) url (Some (JNum (int (file_size f))))
            ''upload failed'' h)"

text \<open>The message of a shared canvas has no size: \<open>sendMedia\<close> returns none. \<open>url\<close> is its data URL.\<close>

definition handleCanvasShare ::
  "'k webcrypto \<Rightarrow> (nat \<Rightarrow> byte list) \<Rightarrow> uuid \<Rightarrow> (nat \<Rightarrow> string) \<Rightarrow> string \<Rightarrow> string \<Rightarrow> 'k option \<Rightarrow> nat
     \<Rightarrow> byte list option option \<Rightarrow> 'k media_hook \<Rightarrow> 'k media_hook" where
  "handleCanvasShare P ivs transferId toMB room url key now canvas h =
     (case canvas of
        None \<Rightarrow> h
      | Some blob \<Rightarrow>
          start_upload room (sendCanvas (nullable P) ivs transferId toMB key now blob) url None ''canvas share failed'' h)"

definition upload_message :: "string \<Rightarrow> upload \<Rightarrow> chat_msg" where
  "upload_message uuid up =
     (case up_result up of
        Inr sent \<Rightarrow>
          (app_msg uuid [])
            \<lparr>cm_own := True,
             cm_media := Some \<lparr>mi_url = up_url up, mi_mimeType = Some (JStr (ms_mimeType sent)),
                               mi_fileName = Some (JStr (ms_fileName sent)), mi_fileSize = up_size up\<rparr>\<rparr>
      | Inl err \<Rightarrow>
          (app_msg uuid (''['' @ up_failure up @ '': '' @ error_text err @ '']''))\<lparr>cm_own := True, cm_error := True\<rparr>)"

text \<open>The next chunk of upload \<open>j\<close> is sent, or after the last one the upload ends with its message.\<close>

definition upload_step :: "nat \<Rightarrow> string \<Rightarrow> 'k media_hook \<Rightarrow> 'k media_hook" where
  "upload_step j uuid h =
     (if j < length (uploads h) then
        (let up = uploads h ! j in
         case up_todo up of
           (payload, progress) # todo \<Rightarrow>
             h\<lparr>media_sends := media_sends h @ [(up_room up, payload)], uploadProgress := Some progress,
               uploads := (uploads h)[j := up\<lparr>up_todo := todo\<rparr>]\<rparr>
         | [] \<Rightarrow>
             append_media (up_room up) (upload_message uuid up)
               (h\<lparr>uploadProgress := None, uploads := drop_nth j (uploads h)\<rparr>))
      else h)"

definition resetProgress :: "'k media_hook \<Rightarrow> 'k media_hook" where
  "resetProgress h = h\<lparr>uploadProgress := None, downloadProgress := None\<rparr>"

section \<open>Steps\<close>

datatype 'k hook_media_event =
    MhInit
  | MhDestroy
  | MhChunk "json option" "'k option"
  | MhResume nat nat string string string
  | MhStale nat nat
  | MhProgressTimer
  | MhFile "nat \<Rightarrow> byte list" uuid "nat \<Rightarrow> string" string string "'k option" "media_file option"
  | MhCanvas "nat \<Rightarrow> byte list" uuid "nat \<Rightarrow> string" string string "'k option" nat "byte list option option"
  | MhUpload nat string
  | MhReset

fun media_hook_step :: "'k webcrypto \<Rightarrow> 'k media_hook \<Rightarrow> 'k hook_media_event \<Rightarrow> 'k media_hook" where
  "media_hook_step P h MhInit = initAssembler h"
| "media_hook_step P h MhDestroy = destroyAssembler h"
| "media_hook_step P h (MhChunk payload key) = handleMediaChunk payload key h"
| "media_hook_step P h (MhResume r i room uuid url) = chunk_resumes P r i room uuid url h"
| "media_hook_step P h (MhStale r t) = stale_expires r t h"
| "media_hook_step P h MhProgressTimer = progress_expires h"
| "media_hook_step P h (MhFile ivs tid toMB room url key sel) = handleFileSelect P ivs tid toMB room url key sel h"
| "media_hook_step P h (MhCanvas ivs tid toMB room url key now canvas) =
     handleCanvasShare P ivs tid toMB room url key now canvas h"
| "media_hook_step P h (MhUpload j uuid) = upload_step j uuid h"
| "media_hook_step P h MhReset = resetProgress h"

abbreviation media_hook_run :: "'k webcrypto \<Rightarrow> 'k media_hook \<Rightarrow> 'k hook_media_event list \<Rightarrow> 'k media_hook" where
  "media_hook_run P \<equiv> foldl (media_hook_step P)"

section \<open>Every upload and every transfer is reported once\<close>

definition own_reports :: "'k media_hook \<Rightarrow> nat" where
  "own_reports h = length (filter (\<lambda>x. cm_own (snd x)) (media_messages h))"

definition received_reports :: "'k media_hook \<Rightarrow> nat" where
  "received_reports h = length (filter (\<lambda>x. \<not> cm_own (snd x)) (media_messages h))"

fun starts_upload :: "'k hook_media_event \<Rightarrow> bool" where
  "starts_upload (MhFile ivs tid toMB room url key sel) = (sel \<noteq> None)"
| "starts_upload (MhCanvas ivs tid toMB room url key now canvas) = (canvas \<noteq> None)"
| "starts_upload _ = False"

text \<open>The calls of \<open>handleChunk\<close> that have ended in a file or in an error.\<close>

definition reportable :: "'k call_phase \<Rightarrow> bool" where
  "reportable c = (case c of Settled (Inr r) \<Rightarrow> media_message [] [] r \<noteq> None | _ \<Rightarrow> False)"

definition finished_calls :: "'k media_hook \<Rightarrow> nat" where
  "finished_calls h = sum_list (map (\<lambda>a. length (filter reportable (a_calls a))) (assemblers h))"

definition progress_ok :: "'k media_hook \<Rightarrow> bool" where
  "progress_ok h \<longleftrightarrow> (uploads h = [] \<longrightarrow> uploadProgress h = None) \<and> (\<forall>r. assemblerRef h = Some r \<longrightarrow> r < length (assemblers h))"

lemma media_message_some: "media_message uuid url r = None \<longleftrightarrow> media_message uuid' url' r = None"
  by (simp add: media_message_def split: outcome.split)

lemma media_message_not_own: "media_message uuid url r = Some msg \<Longrightarrow> \<not> cm_own msg"
  by (auto simp: media_message_def app_msg_def split: outcome.splits)

lemma upload_message_own: "cm_own (upload_message uuid up)"
  by (simp add: upload_message_def split: sum.split)

lemma fold_progress_frame [simp]:
  "uploads (fold on_progress ps h) = uploads h" "media_messages (fold on_progress ps h) = media_messages h"
  "assemblers (fold on_progress ps h) = assemblers h" "uploadProgress (fold on_progress ps h) = uploadProgress h"
  "media_sends (fold on_progress ps h) = media_sends h" "assemblerRef (fold on_progress ps h) = assemblerRef h"
  by (induction ps arbitrary: h) (simp_all add: on_progress_def split: prod.split)

lemma update_assembler_frame [simp]:
  "uploads (update_assembler r f h) = uploads h" "media_messages (update_assembler r f h) = media_messages h"
  "uploadProgress (update_assembler r f h) = uploadProgress h" "assemblerRef (update_assembler r f h) = assemblerRef h"
  "length (assemblers (update_assembler r f h)) = length (assemblers h)"
  by (simp_all add: update_assembler_def)

lemma destroy_current_frame [simp]:
  "uploads (destroy_current h) = uploads h" "media_messages (destroy_current h) = media_messages h"
  "uploadProgress (destroy_current h) = uploadProgress h" "assemblerRef (destroy_current h) = assemblerRef h"
  "length (assemblers (destroy_current h)) = length (assemblers h)"
  by (simp_all add: destroy_current_def split: option.split)

lemma append_media_frame [simp]:
  "uploads (append_media room msg h) = uploads h" "assemblers (append_media room msg h) = assemblers h"
  "uploadProgress (append_media room msg h) = uploadProgress h" "assemblerRef (append_media room msg h) = assemblerRef h"
  by (simp_all add: append_media_def)

text \<open>Calls are changed one at a time.\<close>

lemma calls_register: "register_transfer c inner a = Inr a1 \<Longrightarrow> a_calls a1 = a_calls a"
  by (auto simp: register_transfer_def heap_update_def split: option.splits if_splits sum.splits)

lemma calls_complete: "a_calls (snd (complete_transfer c t a)) = a_calls a"
  using complete_transfer_state [of c t a] by (auto simp: drop_transfer_def Let_def)

lemma calls_inner: "\<exists>c'. a_calls (handleChunk_inner P i c a) = (a_calls a)[i := c']"
  by (auto simp: handleChunk_inner_def Let_def calls_register split: option.split sum.split intro: exI)

lemma calls_envelope: "\<exists>c'. a_calls (handleChunk_envelope P i c ref a) = (a_calls a)[i := c']"
proof (cases "decryptMediaEnvelope P (cc_key c) (cc_chunk c)")
  case (Inr v)
  obtain bytes meta where v: "v = (bytes, meta)" by (cases v)
  show ?thesis
    by (auto simp: handleChunk_envelope_def Inr v Let_def heap_update_def case_prod_beta calls_complete)
qed (auto simp: handleChunk_envelope_def)

lemma calls_resume: "\<exists>c'. a_calls (media_step P a (AResume i)) = (a_calls a)[i := c']"
proof (cases "i < length (a_calls a)")
  case True
  then show ?thesis
    by (cases "a_calls a ! i") (auto simp: calls_inner calls_envelope intro: list_update_id [symmetric] exI [of _ "a_calls a ! i"])
qed (simp add: list_update_beyond)

lemma reports_update:
  assumes "i < length cs" "\<not> reportable (cs ! i)"
  shows "length (filter reportable (cs[i := c])) = length (filter reportable cs) + (if reportable c then 1 else 0)"
  using assms by (induction cs arbitrary: i) (auto simp: nth_Cons split: nat.splits)

lemma reports_fields [simp]:
  "own_reports (h\<lparr>uploadProgress := p\<rparr>) = own_reports h" "own_reports (h\<lparr>uploads := u\<rparr>) = own_reports h"
  "own_reports (h\<lparr>assemblers := as\<rparr>) = own_reports h" "own_reports (h\<lparr>assemblerRef := r\<rparr>) = own_reports h"
  "own_reports (h\<lparr>downloadProgress := q\<rparr>) = own_reports h" "own_reports (h\<lparr>progress_timers := n\<rparr>) = own_reports h"
  "own_reports (h\<lparr>media_sends := s\<rparr>) = own_reports h" "received_reports (h\<lparr>uploadProgress := p\<rparr>) = received_reports h"
  "received_reports (h\<lparr>uploads := u\<rparr>) = received_reports h" "received_reports (h\<lparr>assemblers := as\<rparr>) = received_reports h"
  "received_reports (h\<lparr>assemblerRef := r\<rparr>) = received_reports h" "received_reports (h\<lparr>downloadProgress := q\<rparr>) = received_reports h"
  "received_reports (h\<lparr>progress_timers := n\<rparr>) = received_reports h" "received_reports (h\<lparr>media_sends := s\<rparr>) = received_reports h"
  "finished_calls (h\<lparr>uploadProgress := p\<rparr>) = finished_calls h" "finished_calls (h\<lparr>uploads := u\<rparr>) = finished_calls h"
  "finished_calls (h\<lparr>media_messages := m\<rparr>) = finished_calls h" "finished_calls (h\<lparr>assemblerRef := r\<rparr>) = finished_calls h"
  "finished_calls (h\<lparr>downloadProgress := q\<rparr>) = finished_calls h" "finished_calls (h\<lparr>progress_timers := n\<rparr>) = finished_calls h"
  "finished_calls (h\<lparr>media_sends := s\<rparr>) = finished_calls h"
  by (simp_all add: own_reports_def received_reports_def finished_calls_def)

lemma reports_append [simp]:
  "own_reports (append_media room msg h) = own_reports h + (if cm_own msg then 1 else 0)"
  "received_reports (append_media room msg h) = received_reports h + (if cm_own msg then 0 else 1)"
  "finished_calls (append_media room msg h) = finished_calls h"
  by (simp_all add: own_reports_def received_reports_def finished_calls_def append_media_def)

lemma reports_progress [simp]:
  "own_reports (fold on_progress ps h) = own_reports h" "received_reports (fold on_progress ps h) = received_reports h"
  "finished_calls (fold on_progress ps h) = finished_calls h"
  by (simp_all add: own_reports_def received_reports_def finished_calls_def)

lemma reports_assembler [simp]:
  "own_reports (update_assembler r f h) = own_reports h" "received_reports (update_assembler r f h) = received_reports h"
  "own_reports (destroy_current h) = own_reports h" "received_reports (destroy_current h) = received_reports h"
  by (simp_all add: own_reports_def received_reports_def)

lemma finished_update:
  assumes "r < length (assemblers h)"
    and "length (filter reportable (a_calls a)) = length (filter reportable (a_calls (assemblers h ! r))) + n"
  shows "finished_calls (h\<lparr>assemblers := (assemblers h)[r := a]\<rparr>) = finished_calls h + n"
  using assms by (simp add: finished_calls_def map_update sum_list_update)

lemma finished_same:
  assumes "\<And>a. length (filter reportable (a_calls (f a))) = length (filter reportable (a_calls a))"
  shows "finished_calls (update_assembler r f h) = finished_calls h"
proof (cases "r < length (assemblers h)")
  case True
  with finished_update [of r h "f (assemblers h ! r)" 0] assms show ?thesis by (simp add: update_assembler_def)
qed (simp add: update_assembler_def finished_calls_def list_update_beyond)

lemma finished_destroy_current [simp]: "finished_calls (destroy_current h) = finished_calls h"
  by (simp add: destroy_current_def finished_same destroy_def split: option.split)

lemma begin_not_reportable: "chunk_checks n payload key = Inl r \<Longrightarrow> \<not> reportable (Settled r)"
  by (auto simp: chunk_checks_def reportable_def media_message_def split: sum.splits option.splits prod.splits if_splits)

lemma finished_begin [simp]: "finished_calls (handleMediaChunk payload key h) = finished_calls h"
  by (auto simp: handleMediaChunk_def handleChunk_begin_def Let_def begin_not_reportable
      intro!: finished_same split: option.split sum.split) (simp add: reportable_def)

lemma pending_not_reportable: "chunk_pending i a \<Longrightarrow> i < length (a_calls a) \<and> \<not> reportable (a_calls a ! i)"
  by (auto simp: chunk_pending_def reportable_def split: call_phase.splits)

lemma finished_resumes:
  "finished_calls (chunk_resumes P r i room uuid url h) + received_reports h
     = finished_calls h + received_reports (chunk_resumes P r i room uuid url h)"
proof (cases "r < length (assemblers h) \<and> chunk_pending i (assemblers h ! r)")
  case True
  define a where "a = assemblers h ! r"
  define a' where "a' = media_step (nullable P) a (AResume i)"
  obtain c' where c': "a_calls a' = (a_calls a)[i := c']" using calls_resume unfolding a'_def by blast
  from True have i: "i < length (a_calls a)" "\<not> reportable (a_calls a ! i)" using pending_not_reportable unfolding a_def by auto
  from reports_update [OF i, of c'] have n: "length (filter reportable (a_calls a'))
      = length (filter reportable (a_calls a)) + (if reportable c' then 1 else 0)" by (simp add: c')
  from True finished_update [OF _ n [unfolded a_def]] have fin:
    "finished_calls (h\<lparr>assemblers := (assemblers h)[r := a']\<rparr>) = finished_calls h + (if reportable c' then 1 else 0)"
    by (simp add: a_def)
  have "reportable c' \<longleftrightarrow> Option.bind (chunk_result i a') (media_message uuid url) \<noteq> None"
    using i(1) media_message_some [of uuid url]
    by (cases c') (auto simp: reportable_def chunk_result_def c' simp del: not_None_eq split: sum.split)
  moreover define h1 where "h1 = fold on_progress (drop (length (a_progress a)) (a_progress a')) (h\<lparr>assemblers := (assemblers h)[r := a']\<rparr>)"
  moreover have "finished_calls h1 = finished_calls h + (if reportable c' then 1 else 0)" "received_reports h1 = received_reports h"
    using fin by (simp_all add: h1_def)
  moreover have "chunk_resumes P r i room uuid url h =
      (case Option.bind (chunk_result i a') (media_message uuid url) of None \<Rightarrow> h1 | Some msg \<Rightarrow> append_media room msg h1)"
    using True unfolding chunk_resumes_def h1_def a_def a'_def Let_def by (simp only: if_True simp_thms)
  ultimately show ?thesis
    by (cases "Option.bind (chunk_result i a') (media_message uuid url)")
      (auto simp: bind_eq_Some_conv simp del: reports_progress dest: media_message_not_own)
qed (auto simp: chunk_resumes_def)

section \<open>Properties\<close>

definition hook_media_ok :: "'k media_hook \<Rightarrow> bool" where
  "hook_media_ok h \<longleftrightarrow> progress_ok h \<and> received_reports h = finished_calls h"

lemma start_upload_frame [simp]:
  "media_messages (start_upload room s url sz failure h) = media_messages h"
  "assemblers (start_upload room s url sz failure h) = assemblers h"
  "assemblerRef (start_upload room s url sz failure h) = assemblerRef h"
  "length (uploads (start_upload room s url sz failure h)) = Suc (length (uploads h))"
  "own_reports (start_upload room s url sz failure h) = own_reports h"
  "received_reports (start_upload room s url sz failure h) = received_reports h"
  "finished_calls (start_upload room s url sz failure h) = finished_calls h"
  by (simp_all add: start_upload_def split: prod.split)

lemma handleMediaChunk_frame:
  "uploads (handleMediaChunk payload key h) = uploads h"
  "uploadProgress (handleMediaChunk payload key h) = uploadProgress h"
  "assemblerRef (handleMediaChunk payload key h) = assemblerRef h"
  "length (assemblers (handleMediaChunk payload key h)) = length (assemblers h)"
  "own_reports (handleMediaChunk payload key h) = own_reports h"
  "received_reports (handleMediaChunk payload key h) = received_reports h"
  by (simp_all add: handleMediaChunk_def split: option.split)

lemma chunk_resumes_frame:
  "uploads (chunk_resumes P r i room uuid url h) = uploads h"
  "uploadProgress (chunk_resumes P r i room uuid url h) = uploadProgress h"
  "assemblerRef (chunk_resumes P r i room uuid url h) = assemblerRef h"
  "length (assemblers (chunk_resumes P r i room uuid url h)) = length (assemblers h)"
  "own_reports (chunk_resumes P r i room uuid url h) = own_reports h"
  by (auto simp: chunk_resumes_def Let_def bind_eq_Some_conv split: option.split dest: media_message_not_own)

lemma drop_nth_length: "j < length xs \<Longrightarrow> Suc (length (drop_nth j xs)) = length xs"
  by (simp add: drop_nth_def)

lemma upload_step_balance:
  "own_reports (upload_step j uuid h) + length (uploads (upload_step j uuid h)) = own_reports h + length (uploads h)"
  using drop_nth_length [of j "uploads h"] by (auto simp: upload_step_def Let_def upload_message_own split: list.split prod.split)

lemma upload_step_ok:
  assumes "hook_media_ok h"
  shows "hook_media_ok (upload_step j uuid h)"
proof (cases "j < length (uploads h)")
  case True
  then have "uploads h \<noteq> []" by auto
  with assms show ?thesis
    by (cases "up_todo (uploads h ! j)") (auto simp: upload_step_def Let_def hook_media_ok_def progress_ok_def upload_message_own)
qed (simp add: upload_step_def assms)

lemma progress_ok_upload: "progress_ok h \<Longrightarrow> progress_ok (start_upload room s url sz failure h)"
  by (auto simp: progress_ok_def start_upload_def split: prod.splits)

lemma hook_media_ok_upload: "hook_media_ok h \<Longrightarrow> hook_media_ok (start_upload room s url sz failure h)"
  by (simp add: hook_media_ok_def progress_ok_upload)

lemma hook_media_ok_init: "hook_media_ok h \<Longrightarrow> hook_media_ok (initAssembler h)"
  using finished_destroy_current [of h]
  by (auto simp: initAssembler_def Let_def hook_media_ok_def progress_ok_def finished_calls_def new_assembler_def
      simp del: finished_destroy_current)

lemma hook_media_ok_same:
  assumes "hook_media_ok h" "uploads h' = uploads h" "uploadProgress h' = uploadProgress h \<or> uploadProgress h' = None"
    and "assemblerRef h' = assemblerRef h \<or> assemblerRef h' = None" "length (assemblers h') = length (assemblers h)"
    and "received_reports h' + finished_calls h = received_reports h + finished_calls h'"
  shows "hook_media_ok h'"
  using assms by (auto simp: hook_media_ok_def progress_ok_def)

lemma hook_media_ok_step: "hook_media_ok h \<Longrightarrow> hook_media_ok (media_hook_step P h e)"
proof (induction P h e rule: media_hook_step.induct)
  case (3 P h payload key)
  then show ?case by (rule hook_media_ok_same) (simp_all add: handleMediaChunk_frame)
next
  case (4 P h r i room uuid url)
  then show ?case
    using finished_resumes [of P r i room uuid url h] by (auto elim!: hook_media_ok_same simp: chunk_resumes_frame)
next
  case (5 P h r t)
  then show ?case
    by (rule hook_media_ok_same) (auto simp: stale_expires_def finished_same timer_expires_def split: option.split)
qed (auto simp: hook_media_ok_init upload_step_ok destroyAssembler_def handleFileSelect_def handleCanvasShare_def
    progress_expires_def resetProgress_def hook_media_ok_upload
    split: option.split elim!: hook_media_ok_same)

definition upload_balance :: "'k media_hook \<Rightarrow> nat" where
  "upload_balance h = own_reports h + length (uploads h)"

lemma upload_balance_step:
  "upload_balance (media_hook_step P h e) = upload_balance h + (if starts_upload e then 1 else 0)"
proof (cases "\<exists>j uuid. e = MhUpload j uuid")
  case True
  then show ?thesis by (auto simp: upload_balance_def upload_step_balance)
next
  case False
  then show ?thesis
    by (cases e) (auto simp: upload_balance_def initAssembler_def destroyAssembler_def Let_def handleMediaChunk_frame
        chunk_resumes_frame stale_expires_def progress_expires_def handleFileSelect_def handleCanvasShare_def
        resetProgress_def split: option.split)
qed

interpretation uploading: balance_machine "media_hook_step P" hook_media_ok upload_balance
    "\<lambda>_ e. if starts_upload e then 1 else 0" for P
  by unfold_locales (simp_all add: hook_media_ok_step upload_balance_step)

lemma inflows_starts: "inflows step (\<lambda>_ e. if starts_upload e then 1 else 0) h es = length (filter starts_upload es)"
  by (induction es arbitrary: h) auto

lemma hook_media_ok_new: "hook_media_ok new_media_hook"
  by (simp add: hook_media_ok_def progress_ok_def new_media_hook_def received_reports_def finished_calls_def)

text \<open>
  C29: Media is reported once. In every run, each upload of a file or of the canvas that was
  started is still under way or has ended in exactly one own message, and each call for a
  received chunk that ended in a file or an error has appended exactly one message; when no
  upload is under way, no upload progress is shown.
\<close>

theorem media_is_reported_once:
  "own_reports (media_hook_run P new_media_hook es) + length (uploads (media_hook_run P new_media_hook es))
     = length (filter starts_upload es)
   \<and> received_reports (media_hook_run P new_media_hook es) = finished_calls (media_hook_run P new_media_hook es)
   \<and> (uploads (media_hook_run P new_media_hook es) = [] \<longrightarrow> uploadProgress (media_hook_run P new_media_hook es) = None)"
proof -
  have "hook_media_ok (media_hook_run P new_media_hook es)"
    by (rule uploading.inv_run [OF hook_media_ok_new])
  moreover have "upload_balance (media_hook_run P new_media_hook es) = length (filter starts_upload es)"
    unfolding uploading.balance_run [OF hook_media_ok_new] inflows_starts
    by (simp add: upload_balance_def new_media_hook_def own_reports_def)
  ultimately show ?thesis by (simp add: hook_media_ok_def progress_ok_def upload_balance_def)
qed

definition demo_media_run :: "byte hook_media_event list" where
  "demo_media_run =
     [MhInit, MhChunk (Some (JStr ''{'')) None, MhCanvas (\<lambda>_. []) ''t'' (\<lambda>_. []) ''r'' [] None 0 (Some None), MhUpload 0 ''u'']"

lemma media_is_reported_once_witness:
  "uploads (media_hook_run demo_crypto new_media_hook demo_media_run) = []
   \<and> uploadProgress (media_hook_run demo_crypto new_media_hook demo_media_run) = None
   \<and> own_reports (media_hook_run demo_crypto new_media_hook demo_media_run) = 1"
proof -
  have "uploads (media_hook_run demo_crypto new_media_hook demo_media_run) = []"
    by (simp add: demo_media_run_def handleCanvasShare_def sendCanvas_def start_upload_def upload_step_def drop_nth_def Let_def
        handleMediaChunk_frame initAssembler_def new_media_hook_def append_media_def)
  with media_is_reported_once [of demo_crypto demo_media_run] show ?thesis by (simp add: demo_media_run_def)
qed

end
