(* ===== verification/Calls.thy ===== *)
theory Calls
  imports JsLang
begin

text \<open>
  Voice and video calls (\<^verbatim>\<open>apps/trapchat/src/hooks/useCallManager.js\<close>): permissions and
  their error messages, the state of the call, and what the hook asks of the client
  and of the meshes.

  The media streams of the browser are a heap of track lists. \<open>getUserMedia\<close> answers in a
  step of its own; until then the call is in \<open>requests\<close>. The closures of the hook read
  the state of the last render, which is the state here. What is sent with
  \<open>client.send\<close> and given to the meshes is recorded.
\<close>

section \<open>Permissions\<close>

text \<open>An exception: its name and its message.\<close>

record exn =
  ex_name :: string
  ex_message :: string

definition plain_error :: "string \<Rightarrow> exn" where
  "plain_error msg = \<lparr>ex_name = ''Error'', ex_message = msg\<rparr>"

definition MEDIA_UNAVAILABLE :: string where
  "MEDIA_UNAVAILABLE = ''Media devices not available. Ensure you are using HTTPS or localhost.''"

text \<open>What \<open>requestMediaPermissions\<close> throws when \<open>getUserMedia\<close> throws \<open>err\<close>.\<close>

definition permission_error :: "json \<Rightarrow> exn \<Rightarrow> exn" where
  "permission_error ty err =
     (if ex_name err = ''NotAllowedError'' \<or> ex_name err = ''PermissionDeniedError'' then
        plain_error
          (if ty = JStr ''video''
           then ''Camera and microphone access was denied. Click the lock icon in your address bar to allow access, then try again.''
           else ''Microphone access was denied. Click the lock icon in your address bar to allow access, then try again.'')
      else if ex_name err = ''NotFoundError'' \<or> ex_name err = ''DevicesNotFoundError'' then
        plain_error
          (if ty = JStr ''video''
           then ''No camera or microphone found. Please connect a device and try again.''
           else ''No microphone found. Please connect one and try again.'')
      else if ex_name err = ''NotReadableError'' \<or> ex_name err = ''TrackStartError'' then
        plain_error ''Your media device is already in use by another application.''
      else err)"

section \<open>Streams\<close>

record media_track =
  tk_kind :: string
  tk_enabled :: bool
  tk_stopped :: bool

type_synonym stream_id = nat

definition stop_tracks :: "media_track list \<Rightarrow> media_track list" where
  "stop_tracks ts = map (\<lambda>t. t\<lparr>tk_stopped := True\<rparr>) ts"

definition stop_stream :: "stream_id \<Rightarrow> media_track list list \<Rightarrow> media_track list list" where
  "stop_stream s heap = heap[s := stop_tracks (heap ! s)]"

text \<open>\<open>getAudioTracks()[0]\<close> and the like: the place of the first track of a kind.\<close>

fun first_track :: "string \<Rightarrow> media_track list \<Rightarrow> nat option" where
  "first_track kind [] = None"
| "first_track kind (t # ts) = (if tk_kind t = kind then Some 0 else map_option Suc (first_track kind ts))"

section \<open>The call\<close>

datatype request =
    Starting string json
  | Answering string json
  | Settled

datatype call_output =
    SendCall string string "json option"
  | BroadcastStream string stream_id
  | RemoveStreams
  | Alert string
  | Notify string

record call =
  callActive :: bool
  callType :: "json option"
  localStream :: "stream_id option"
  remoteStreams :: "(string, stream_id) jmap"
  callMuted :: bool
  callVideoOff :: bool
  call_streams :: "media_track list list"
  requests :: "request list"
  outputs :: "call_output list"

definition new_call :: call where
  "new_call =
     \<lparr>callActive = False, callType = None, localStream = None, remoteStreams = [], callMuted = False,
      callVideoOff = False, call_streams = [], requests = [], outputs = []\<rparr>"

definition emit_call :: "call_output list \<Rightarrow> call \<Rightarrow> call" where
  "emit_call os c = c\<lparr>outputs := outputs c @ os\<rparr>"

text \<open>
  What the hook reads outside itself: the active room, whether the client is connected,
  whether \<open>getUserMedia\<close> exists, whether notifications are allowed, and for each room with a
  mesh what \<open>broadcastStream\<close> throws, if anything.
\<close>

record call_env =
  ce_activeRoom :: string
  ce_connected :: bool
  ce_getUserMedia :: bool
  ce_notifications :: bool
  ce_mesh :: "string \<Rightarrow> exn option option"

definition call_payload :: "json \<Rightarrow> json option" where
  "call_payload ty = Some (JStr (json_stringify (JObj [(''callType'', ty)])))"

text \<open>\<open>err.message || fallback\<close> in the handlers of both functions.\<close>

definition call_alert :: "exn \<Rightarrow> string \<Rightarrow> call \<Rightarrow> call" where
  "call_alert err fallback c = emit_call [Alert (if ex_message err = [] then fallback else ex_message err)] c"

definition START_FAILED :: string where "START_FAILED = ''Failed to start call''"

definition ANSWER_FAILED :: string where
  "ANSWER_FAILED = ''Failed to answer call '' @ em_dash @ '' check your device permissions''"

text \<open>The request for media: pending, or refused at once when the browser has no media devices.\<close>

definition request_media :: "call_env \<Rightarrow> request \<Rightarrow> string \<Rightarrow> call \<Rightarrow> call" where
  "request_media env req fallback c =
     (if \<not> ce_getUserMedia env then call_alert (plain_error MEDIA_UNAVAILABLE) fallback c
      else c\<lparr>requests := requests c @ [req]\<rparr>)"

definition startCall :: "call_env \<Rightarrow> json \<Rightarrow> call \<Rightarrow> call" where
  "startCall env ty c =
     (if callActive c \<or> ce_activeRoom env = [] then c else request_media env (Starting (ce_activeRoom env) ty) START_FAILED c)"

text \<open>\<open>setLocalStream\<close>, \<open>setCallActive\<close>, \<open>setCallType\<close>.\<close>

definition enter_call :: "json \<Rightarrow> media_track list \<Rightarrow> call \<Rightarrow> call" where
  "enter_call ty tracks c =
     c\<lparr>call_streams := call_streams c @ [tracks], localStream := Some (length (call_streams c)),
       callActive := True, callType := Some ty\<rparr>"

definition start_granted :: "call_env \<Rightarrow> string \<Rightarrow> json \<Rightarrow> media_track list \<Rightarrow> call \<Rightarrow> call" where
  "start_granted env room ty tracks c =
     (let s = length (call_streams c);
          c1 = enter_call ty tracks c;
          c2 = (if ce_connected env then emit_call [SendCall ''call_offer'' room (call_payload ty)] c1 else c1)
      in case ce_mesh env room of
           None \<Rightarrow> c2
         | Some failure \<Rightarrow>
             (let c3 = emit_call [BroadcastStream room s] c2
              in case failure of None \<Rightarrow> c3 | Some err \<Rightarrow> call_alert err START_FAILED c3))"

text \<open>The type of an incoming call, from its payload; audio when there is none.\<close>

definition incoming_type :: "json option \<Rightarrow> json" where
  "incoming_type payload =
     (case read_payload payload of
        Inl _ \<Rightarrow> JStr ''audio''
      | Inr None \<Rightarrow> JStr ''audio''
      | Inr (Some p) \<Rightarrow> the (js_or (js_get p ''callType'') (Some (JStr ''audio''))))"

definition handleIncomingCall :: "call_env \<Rightarrow> string \<Rightarrow> json option \<Rightarrow> call \<Rightarrow> call" where
  "handleIncomingCall env room payload c =
     (let ty = incoming_type payload;
          c1 = (if ce_notifications env
                then emit_call [Notify ((if ty = JStr ''video'' then ''Video'' else ''Voice'') @ '' call in '' @ room)] c else c)
      in request_media env (Answering room ty) ANSWER_FAILED c1)"

definition answer_granted :: "call_env \<Rightarrow> string \<Rightarrow> json \<Rightarrow> media_track list \<Rightarrow> call \<Rightarrow> call" where
  "answer_granted env room ty tracks c =
     (let s = length (call_streams c);
          c1 = enter_call ty tracks c;
          c2 = (case ce_mesh env room of None \<Rightarrow> c1 | Some _ \<Rightarrow> emit_call [BroadcastStream room s] c1)
      in case ce_mesh env room of
           Some (Some err) \<Rightarrow> call_alert err ANSWER_FAILED c2
         | _ \<Rightarrow> if ce_connected env then emit_call [SendCall ''call_answer'' room (call_payload ty)] c2 else c2)"

text \<open>The answer of \<open>getUserMedia\<close> to the request \<open>i\<close>.\<close>

definition media_answer :: "call_env \<Rightarrow> nat \<Rightarrow> exn + media_track list \<Rightarrow> call \<Rightarrow> call" where
  "media_answer env i answer c =
     (if i < length (requests c) then
        (let c1 = c\<lparr>requests := (requests c)[i := Settled]\<rparr> in
         case requests c ! i of
           Settled \<Rightarrow> c
         | Starting room ty \<Rightarrow>
             (case answer of
                Inl err \<Rightarrow> call_alert (permission_error ty err) START_FAILED c1
              | Inr tracks \<Rightarrow> start_granted env room ty tracks c1)
         | Answering room ty \<Rightarrow>
             (case answer of
                Inl err \<Rightarrow> call_alert (permission_error ty err) ANSWER_FAILED c1
              | Inr tracks \<Rightarrow> answer_granted env room ty tracks c1))
      else c)"

definition endCall :: "call_env \<Rightarrow> call \<Rightarrow> call" where
  "endCall env c =
     (let c1 = (case localStream c of
            None \<Rightarrow> c
          | Some s \<Rightarrow> c\<lparr>call_streams := stop_stream s (call_streams c), localStream := None\<rparr>);
          c2 = emit_call [RemoveStreams] c1;
          c3 = (if ce_connected env \<and> ce_activeRoom env \<noteq> []
                then emit_call [SendCall ''call_end'' (ce_activeRoom env) (Some JNull)] c2 else c2);
          c4 = c3\<lparr>call_streams := fold stop_stream (map snd (remoteStreams c3)) (call_streams c3)\<rparr>
      in c4\<lparr>callActive := False, callType := None, remoteStreams := [], callMuted := False, callVideoOff := False\<rparr>)"

definition toggle_track :: "stream_id \<Rightarrow> nat \<Rightarrow> call \<Rightarrow> call" where
  "toggle_track s k c =
     c\<lparr>call_streams := (call_streams c)[s := (call_streams c ! s)[k :=
         (call_streams c ! s ! k)\<lparr>tk_enabled := \<not> tk_enabled (call_streams c ! s ! k)\<rparr>]]\<rparr>"

definition toggleMute :: "call \<Rightarrow> call" where
  "toggleMute c =
     (case localStream c of
        None \<Rightarrow> c
      | Some s \<Rightarrow>
          (case first_track ''audio'' (call_streams c ! s) of
             None \<Rightarrow> c
           | Some k \<Rightarrow>
               let c1 = toggle_track s k c in c1\<lparr>callMuted := \<not> tk_enabled (call_streams c1 ! s ! k)\<rparr>))"

definition toggleVideo :: "call \<Rightarrow> call" where
  "toggleVideo c =
     (case localStream c of
        None \<Rightarrow> c
      | Some s \<Rightarrow>
          (case first_track ''video'' (call_streams c ! s) of
             None \<Rightarrow> c
           | Some k \<Rightarrow>
               let c1 = toggle_track s k c in c1\<lparr>callVideoOff := \<not> tk_enabled (call_streams c1 ! s ! k)\<rparr>))"

text \<open>\<open>setRemoteStreams\<close> from the mesh: a remote stream of a peer.\<close>

definition remote_track :: "string \<Rightarrow> media_track list \<Rightarrow> call \<Rightarrow> call" where
  "remote_track peer tracks c =
     c\<lparr>call_streams := call_streams c @ [tracks],
       remoteStreams := map_set peer (length (call_streams c)) (remoteStreams c)\<rparr>"

section \<open>Steps\<close>

datatype call_event =
    StartCall json
  | IncomingCall string "json option"
  | MediaAnswer nat "exn + media_track list"
  | EndCall
  | ToggleMute
  | ToggleVideo
  | RemoteTrack string "media_track list"

fun call_step :: "call \<Rightarrow> call_env \<times> call_event \<Rightarrow> call" where
  "call_step c (env, StartCall ty) = startCall env ty c"
| "call_step c (env, IncomingCall room payload) = handleIncomingCall env room payload c"
| "call_step c (env, MediaAnswer i answer) = media_answer env i answer c"
| "call_step c (env, EndCall) = endCall env c"
| "call_step c (env, ToggleMute) = toggleMute c"
| "call_step c (env, ToggleVideo) = toggleVideo c"
| "call_step c (env, RemoteTrack peer tracks) = remote_track peer tracks c"

abbreviation call_run :: "call \<Rightarrow> (call_env \<times> call_event) list \<Rightarrow> call" where
  "call_run \<equiv> foldl call_step"

section \<open>Invariant\<close>

text \<open>A call is active exactly when it has a local stream and a type; streams exist.\<close>

definition call_ok :: "call \<Rightarrow> bool" where
  "call_ok c \<longleftrightarrow>
     (callActive c \<longleftrightarrow> localStream c \<noteq> None) \<and> (callActive c \<longleftrightarrow> callType c \<noteq> None)
     \<and> (\<forall>s. localStream c = Some s \<longrightarrow> s < length (call_streams c))
     \<and> map_ok (remoteStreams c) \<and> (\<forall>x\<in>set (remoteStreams c). snd x < length (call_streams c))"

lemma call_ok_emit [simp]: "call_ok (emit_call os c) = call_ok c"
  by (simp add: call_ok_def emit_call_def)

lemma call_ok_requests [simp]: "call_ok (c\<lparr>requests := rs\<rparr>) = call_ok c"
  by (simp add: call_ok_def)

lemma call_ok_alert [simp]: "call_ok (call_alert err f c) = call_ok c"
  by (simp add: call_alert_def)

lemma call_ok_request [simp]: "call_ok (request_media env req f c) = call_ok c"
  by (simp add: request_media_def)

lemma call_ok_enter: "call_ok c \<Longrightarrow> call_ok (enter_call ty tracks c)"
  by (auto simp: call_ok_def enter_call_def less_Suc_eq)

lemma call_ok_granted:
  "call_ok c \<Longrightarrow> call_ok (start_granted env room ty tracks c)" "call_ok c \<Longrightarrow> call_ok (answer_granted env room ty tracks c)"
  by (auto simp: start_granted_def answer_granted_def Let_def call_ok_enter split: option.split)

lemma length_stop_stream [simp]: "length (stop_stream s heap) = length heap"
  by (simp add: stop_stream_def)

lemma length_stop_fold [simp]: "length (fold stop_stream ss heap) = length heap"
  by (induction ss arbitrary: heap) auto

lemma call_ok_toggle: "call_ok c \<Longrightarrow> call_ok (toggleMute c)" "call_ok c \<Longrightarrow> call_ok (toggleVideo c)"
  by (auto simp: toggleMute_def toggleVideo_def toggle_track_def call_ok_def Let_def split: option.split)

lemma set_remote: "x \<in> set (map_set k v m) \<Longrightarrow> x = (k, v) \<or> x \<in> set m"
  by (induction m) (auto simp: map_set_def split: if_splits)

lemma call_ok_remote: "call_ok c \<Longrightarrow> call_ok (remote_track peer tracks c)"
  by (auto simp: call_ok_def remote_track_def less_Suc_eq dest!: set_remote)

lemma call_ok_step: "call_ok c \<Longrightarrow> call_ok (call_step c e)"
proof (induction c e rule: call_step.induct)
  case (3 c env i answer)
  then show ?case
    by (auto simp: media_answer_def Let_def call_ok_granted split: request.split sum.split)
next
  case (4 c env)
  then show ?case by (simp add: endCall_def Let_def call_ok_def emit_call_def split: option.split)
qed (auto simp: startCall_def handleIncomingCall_def Let_def call_ok_toggle call_ok_remote)

interpretation call: event_machine call_step call_ok
  by unfold_locales (rule call_ok_step)

lemma call_ok_run: "call_ok (call_run new_call es)"
  by (rule call.inv_run) (simp add: call_ok_def new_call_def)

text \<open>The call manager sends nothing but call signals.\<close>

definition is_call_signal :: "call_output \<Rightarrow> bool" where
  "is_call_signal x \<longleftrightarrow> (\<forall>ty room p. x = SendCall ty room p \<longrightarrow> ty \<in> {''call_offer'', ''call_answer'', ''call_end''})"

definition signals_more :: "call \<Rightarrow> call \<Rightarrow> bool" where
  "signals_more c d \<longleftrightarrow> (\<exists>os. outputs d = outputs c @ os \<and> (\<forall>x\<in>set os. is_call_signal x))"

lemma signals_refl: "outputs d = outputs c \<Longrightarrow> signals_more c d"
  by (simp add: signals_more_def)

lemma signals_trans: "signals_more c d \<Longrightarrow> signals_more d e \<Longrightarrow> signals_more c e"
  by (fastforce simp: signals_more_def)

lemma signals_emit: "is_call_signal x \<Longrightarrow> signals_more c d \<Longrightarrow> signals_more c (emit_call [x] d)"
  by (rule signals_trans [of c d]) (simp_all add: signals_more_def emit_call_def)

lemma signals_kinds [simp]:
  "is_call_signal (Alert a)" "is_call_signal (Notify n)" "is_call_signal RemoveStreams" "is_call_signal (BroadcastStream r s)"
  "is_call_signal (SendCall ty r p) \<longleftrightarrow> ty \<in> {''call_offer'', ''call_answer'', ''call_end''}"
  by (simp_all add: is_call_signal_def)

lemma signals_alert: "signals_more c d \<Longrightarrow> signals_more c (call_alert err f d)"
  by (simp add: call_alert_def signals_emit)

lemma signals_enter: "signals_more c (enter_call ty tracks c)"
  by (rule signals_refl) (simp add: enter_call_def)

lemma signals_granted:
  "signals_more c (start_granted env room ty tracks c)" "signals_more c (answer_granted env room ty tracks c)"
  by (simp_all add: start_granted_def answer_granted_def Let_def signals_emit signals_alert signals_enter split: option.split)

lemma signals_request: "signals_more c d \<Longrightarrow> signals_more c (request_media env req f d)"
  unfolding request_media_def by (auto simp: signals_alert signals_refl elim: signals_trans)

lemma signals_answer: "signals_more c (media_answer env i answer c)"
proof -
  have "signals_more c (c\<lparr>requests := rs\<rparr>)" for rs by (rule signals_refl) simp
  note granted = this [THEN signals_trans, OF signals_granted(1)] this [THEN signals_trans, OF signals_granted(2)]
  show ?thesis
    by (auto simp: media_answer_def Let_def signals_alert signals_refl granted split: request.split sum.split)
qed

lemma signals_end: "signals_more c (endCall env c)"
proof -
  let ?c1 = "case localStream c of None \<Rightarrow> c
    | Some s \<Rightarrow> c\<lparr>call_streams := stop_stream s (call_streams c), localStream := None\<rparr>"
  let ?c3 = "if ce_connected env \<and> ce_activeRoom env \<noteq> []
     then emit_call [SendCall ''call_end'' (ce_activeRoom env) (Some JNull)] (emit_call [RemoveStreams] ?c1) else emit_call [RemoveStreams] ?c1"
  have "signals_more c ?c1" by (rule signals_refl) (simp split: option.split)
  then have "signals_more c ?c3" by (simp add: signals_emit)
  moreover have "outputs (endCall env c) = outputs ?c3" by (simp add: endCall_def Let_def)
  ultimately show ?thesis by (simp add: signals_more_def)
qed

lemma signals_step: "signals_more c (call_step c e)"
proof (induction c e rule: call_step.induct)
  case (5 c env)
  then show ?case by (intro signals_refl) (auto simp: toggleMute_def toggle_track_def Let_def split: option.split)
next
  case (6 c env)
  then show ?case by (intro signals_refl) (auto simp: toggleVideo_def toggle_track_def Let_def split: option.split)
qed (auto simp: startCall_def handleIncomingCall_def remote_track_def Let_def signals_answer signals_end signals_emit signals_refl
    intro!: signals_request)

section \<open>Stopping\<close>

definition stopped :: "call \<Rightarrow> stream_id \<Rightarrow> bool" where
  "stopped c s = (\<forall>t\<in>set (call_streams c ! s). tk_stopped t)"

lemma stop_tracks_stopped: "\<forall>t\<in>set (stop_tracks ts). tk_stopped t"
  by (simp add: stop_tracks_def)

lemma stop_stream_nth:
  "s < length heap \<Longrightarrow> stop_stream r heap ! s = (if s = r then stop_tracks (heap ! s) else heap ! s)"
  by (simp add: stop_stream_def nth_list_update)

lemma stop_fold_nth:
  "s < length heap \<Longrightarrow> (\<forall>t\<in>set (heap ! s). tk_stopped t) \<or> s \<in> set ss \<Longrightarrow>
     \<forall>t\<in>set (fold stop_stream ss heap ! s). tk_stopped t"
proof (induction ss arbitrary: heap)
  case (Cons r ss)
  have "(\<forall>t\<in>set (stop_stream r heap ! s). tk_stopped t) \<or> s \<in> set ss"
    using Cons.prems stop_tracks_stopped [of "heap ! s"] by (auto simp: stop_stream_nth)
  with Cons.IH [of "stop_stream r heap"] Cons.prems(1) show ?case by simp
qed simp

lemma call_streams_endCall:
  "call_streams (endCall env c) = fold stop_stream (map snd (remoteStreams c))
     (case localStream c of None \<Rightarrow> call_streams c | Some s \<Rightarrow> stop_stream s (call_streams c))"
  by (simp add: endCall_def emit_call_def Let_def split: option.split)

lemma endCall_stops:
  assumes "s < length (call_streams c)" "localStream c = Some s \<or> s \<in> snd ` set (remoteStreams c)"
  shows "stopped (endCall env c) s"
proof -
  let ?h = "case localStream c of None \<Rightarrow> call_streams c | Some s \<Rightarrow> stop_stream s (call_streams c)"
  have "s < length ?h" using assms(1) by (simp split: option.split)
  moreover have "(\<forall>t\<in>set (?h ! s). tk_stopped t) \<or> s \<in> set (map snd (remoteStreams c))"
    using assms stop_tracks_stopped [of "call_streams c ! s"] by (auto simp: stop_stream_nth)
  ultimately show ?thesis unfolding stopped_def call_streams_endCall by (rule stop_fold_nth)
qed

section \<open>Properties\<close>

text \<open>
  C24: Hanging up releases the devices. After \<open>endCall\<close> in any reachable state, every track of
  the local stream and of every remote stream is stopped, the call is over in every
  field, the meshes were told to drop their senders, and the room was told once, if the
  client is connected.
\<close>

theorem ending_a_call_releases_everything:
  fixes es :: "(call_env \<times> call_event) list"
  defines "c \<equiv> call_run new_call es"
  shows "(\<forall>s. localStream c = Some s \<or> s \<in> snd ` set (remoteStreams c) \<longrightarrow> stopped (endCall env c) s)
     \<and> \<not> callActive (endCall env c) \<and> callType (endCall env c) = None \<and> localStream (endCall env c) = None
     \<and> remoteStreams (endCall env c) = [] \<and> \<not> callMuted (endCall env c) \<and> \<not> callVideoOff (endCall env c)
     \<and> outputs (endCall env c) = outputs c @ [RemoveStreams] @
         (if ce_connected env \<and> ce_activeRoom env \<noteq> [] then [SendCall ''call_end'' (ce_activeRoom env) (Some JNull)] else [])"
proof -
  have ok: "call_ok c" unfolding c_def by (rule call_ok_run)
  have "stopped (endCall env c) s" if "localStream c = Some s \<or> s \<in> snd ` set (remoteStreams c)" for s
    using ok that by (intro endCall_stops) (auto simp: call_ok_def)
  then show ?thesis
    by (auto simp: endCall_def emit_call_def Let_def split: option.split)
qed

definition demo_env :: call_env where
  "demo_env =
     \<lparr>ce_activeRoom = ''r'', ce_connected = True, ce_getUserMedia = True, ce_notifications = False, ce_mesh = (\<lambda>_. None)\<rparr>"

definition demo_track :: media_track where
  "demo_track = \<lparr>tk_kind = ''audio'', tk_enabled = True, tk_stopped = False\<rparr>"

lemma ending_a_call_releases_everything_witness:
  "localStream (call_run new_call [(demo_env, StartCall (JStr ''audio'')), (demo_env, MediaAnswer 0 (Inr [demo_track]))]) = Some 0
   \<and> stopped (endCall demo_env (call_run new_call
       [(demo_env, StartCall (JStr ''audio'')), (demo_env, MediaAnswer 0 (Inr [demo_track]))])) 0"
proof -
  let ?es = "[(demo_env, StartCall (JStr ''audio'')), (demo_env, MediaAnswer 0 (Inr [demo_track]))]"
  have "localStream (call_run new_call ?es) = Some 0" by code_simp
  with ending_a_call_releases_everything [of ?es demo_env] show ?thesis by simp
qed

text \<open>
  C23: A refused device is explained and changes nothing. When \<open>getUserMedia\<close> rejects a
  pending request, the user gets exactly one alert, with the explanation of
  \<open>requestMediaPermissions\<close> for the six known error names and the browser's message for
  any other; no call starts, no stream is kept and nothing is sent.
\<close>

theorem refused_device_only_alerts:
  assumes "i < length (requests c)" and "requests c ! i = Starting room ty \<or> requests c ! i = Answering room ty"
    and "ex_message err \<noteq> []"
  shows "media_answer env i (Inl err) c =
     c\<lparr>requests := (requests c)[i := Settled],
       outputs := outputs c @ [Alert (
         if ex_name err \<in> {''NotAllowedError'', ''PermissionDeniedError''} then
           (if ty = JStr ''video'' then ''Camera and microphone'' else ''Microphone'')
           @ '' access was denied. Click the lock icon in your address bar to allow access, then try again.''
         else if ex_name err \<in> {''NotFoundError'', ''DevicesNotFoundError''} then
           (if ty = JStr ''video'' then ''No camera or microphone found. Please connect a device and try again.''
            else ''No microphone found. Please connect one and try again.'')
         else if ex_name err \<in> {''NotReadableError'', ''TrackStartError''} then
           ''Your media device is already in use by another application.''
         else ex_message err)]\<rparr>"
  using assms
  by (auto simp: media_answer_def call_alert_def emit_call_def permission_error_def plain_error_def Let_def)

lemma refused_device_only_alerts_witness:
  "outputs (call_run new_call [(demo_env, StartCall (JStr ''video'')),
      (demo_env, MediaAnswer 0 (Inl \<lparr>ex_name = ''NotReadableError'', ex_message = ''busy''\<rparr>))])
   = [Alert ''Your media device is already in use by another application.'']"
proof -
  let ?c = "call_run new_call [(demo_env, StartCall (JStr ''video''))]"
  have pending: "requests ?c = [Starting ''r'' (JStr ''video'')]" "outputs ?c = []" by code_simp+
  show ?thesis
    using refused_device_only_alerts [of 0 ?c "''r''" "JStr ''video''"
        "\<lparr>ex_name = ''NotReadableError'', ex_message = ''busy''\<rparr>" demo_env] pending
    by simp
qed

text \<open>
  A \<open>call_end\<close> that arrives is answered with a \<open>call_end\<close>: two peers in a room keep
  sending it to each other.
\<close>

fun hang_up_exchange :: "call_env \<Rightarrow> nat \<Rightarrow> call \<Rightarrow> call \<Rightarrow> call \<times> call" where
  "hang_up_exchange env 0 a b = (a, b)"
| "hang_up_exchange env (Suc n) a b = hang_up_exchange env n (endCall env b) a"

definition ends_sent :: "call \<Rightarrow> nat" where
  "ends_sent c = length (filter (\<lambda>x. case x of SendCall ty _ _ \<Rightarrow> ty = ''call_end'' | _ \<Rightarrow> False) (outputs c))"

lemma ends_sent_endCall:
  "ce_connected env \<Longrightarrow> ce_activeRoom env \<noteq> [] \<Longrightarrow> ends_sent (endCall env c) = Suc (ends_sent c)"
  by (auto simp: ends_sent_def endCall_def emit_call_def Let_def split: option.split)

lemma hang_up_never_ends:
  assumes "ce_connected env" "ce_activeRoom env \<noteq> []"
  shows "(case hang_up_exchange env n a b of (a', b') \<Rightarrow> ends_sent a' + ends_sent b') = ends_sent a + ends_sent b + n"
proof (induction n arbitrary: a b)
  case (Suc n)
  from Suc [of "endCall env b" a] show ?case by (simp add: ends_sent_endCall [OF assms])
qed simp

text \<open>
  A second start before the first one is granted passes the guard as well; the stream that
  was granted first is then forgotten and never stopped.
\<close>

lemma overlapping_starts_leak_a_stream:
  "(let c = call_run new_call [(demo_env, StartCall (JStr ''audio'')), (demo_env, StartCall (JStr ''audio'')),
        (demo_env, MediaAnswer 0 (Inr [demo_track])), (demo_env, MediaAnswer 1 (Inr [demo_track])), (demo_env, EndCall)]
    in \<not> callActive c \<and> \<not> stopped c 0 \<and> stopped c 1)"
  by code_simp

end
