(* ===== verification/App.thy ===== *)
theory App
  imports RoomManager KeyRotation MeshHook Typing MediaHook Calls
begin

text \<open>
  The application component (\<^verbatim>\<open>apps/trapchat/src/App.jsx\<close>): joining and leaving rooms, the
  dispatch of messages from the gateway and from data channels, sending chat messages,
  receipts, and the derivation of a room's key from the salt of the server.

  The state composes the components that App puts together. A handler runs up to its
  \<open>await\<close>; the rest waits in \<open>ap_tasks\<close> until a step resumes it, so that handlers of
  several messages interleave. The listener for messages is registered once and keeps the
  functions of the render it was made in; the room they close over is \<open>ap_listener\<close>.
  Strings are UTF-8 throughout the development, so the length of a text outside of ASCII
  is larger here than the number of UTF-16 units that the code compares.

  Rooms, sender ids and message ids in messages are strings or missing, as the gateway's
  envelope has it.
\<close>

section \<open>Names\<close>

definition ADJECTIVES :: "string list" where
  "ADJECTIVES =
     [''swift'', ''silent'', ''shadow'', ''neon'', ''ghost'', ''lunar'', ''cosmic'', ''cyber'',
      ''arctic'', ''ember'', ''crystal'', ''iron'', ''velvet'', ''crimson'', ''golden'', ''hidden'',
      ''storm'', ''frost'', ''dark'', ''wild'', ''rogue'', ''phantom'', ''mystic'', ''chrome'',
      ''atomic'', ''blazing'', ''hollow'', ''vivid'', ''ancient'', ''static'', ''turbo'', ''solar'']"

definition NOUNS :: "string list" where
  "NOUNS =
     [''wolf'', ''hawk'', ''viper'', ''fox'', ''panther'', ''cobra'', ''raven'', ''tiger'',
      ''falcon'', ''lynx'', ''orca'', ''jaguar'', ''phoenix'', ''dragon'', ''serpent'', ''mantis'',
      ''spark'', ''bolt'', ''pulse'', ''flare'', ''drift'', ''wave'', ''blade'', ''echo'',
      ''cipher'', ''nexus'', ''vertex'', ''orbit'', ''prism'', ''wraith'', ''spectre'', ''sigma'']"

text \<open>\<open>arr[0] % max\<close>, for the 32-bit word \<open>r\<close> that was drawn.\<close>

definition secureRandom :: "32 word \<Rightarrow> nat \<Rightarrow> nat" where
  "secureRandom r bound = unat r mod bound"

definition generateRoomName :: "32 word \<Rightarrow> 32 word \<Rightarrow> 32 word \<Rightarrow> string" where
  "generateRoomName r1 r2 r3 =
     ADJECTIVES ! secureRandom r1 (length ADJECTIVES) @ ''-'' @ NOUNS ! secureRandom r2 (length NOUNS) @ ''-''
     @ show_nat (secureRandom r3 1000)"

definition to_upper :: "char \<Rightarrow> char" where
  "to_upper c = (let n = (of_char c :: nat) in if 97 \<le> n \<and> n \<le> 122 then char_of (n - 32) else c)"

definition generateNickname :: "32 word \<Rightarrow> 32 word \<Rightarrow> string" where
  "generateNickname r1 r2 =
     (let noun = NOUNS ! secureRandom r2 (length NOUNS)
      in ADJECTIVES ! secureRandom r1 (length ADJECTIVES) @ map to_upper (take 1 noun) @ drop 1 noun)"

text \<open>The room name the join form starts with.\<close>

definition initial_room :: "string \<Rightarrow> string \<Rightarrow> js_error + string" where
  "initial_room hash generated =
     (if CHR ''/'' \<in> set hash \<and> hd (js_split (CHR ''/'') hash) \<noteq> []
      then decodeURIComponent (hd (js_split (CHR ''/'') hash)) else Inr generated)"

section \<open>The state\<close>

text \<open>
  What a chat message is decrypted with: the key of its room, or, for a room without one, the
  rotator and the current key as they are when the decryption starts.
\<close>

datatype 'k chat_key = RoomKey "'k key_ref" | Rotation "'k opener"

text \<open>
  The rest of a handler after an \<open>await\<close>. A join carries what its closure has captured:
  whether there was no room, the nickname and the time to live; a message the nickname.
\<close>

datatype 'k app_task =
    Deriving string string "byte list" json
  | Decrypting json string "'k chat_key" bool
  | Encrypting string string "'k key_ref" string
  | OpeningKey string string "'k key_ref"
  | JoinKeying string "'k setup_wait" bool string int
  | JoinConnecting string string bool string int
  | Done

record 'k app =
  ap_rm :: "'k room_manager"
  ap_cl :: client
  ap_hook :: mesh_hook
  ap_keys :: "'k key_hook"
  ap_typing :: typing
  ap_media :: "'k media_hook"
  ap_call :: call
  ap_nickname :: string
  ap_joinRoom :: string
  ap_passphrase :: string
  ap_ttl :: int
  ap_peerNicknames :: json
  ap_intentional :: bool
  ap_listener :: "string option"
  ap_observer :: bool
  ap_joinModal :: bool
  ap_callActiveRef :: bool
  ap_micRequested :: bool
  ap_micRequests :: nat
  pendingKeyRooms :: "string list"
  pendingMessages :: "(string, json list) jmap"
  ap_tasks :: "'k app_task list"
  ap_alerts :: "string list"

text \<open>
  What a step draws from the platform: ids and the clock, whether media devices exist and
  notifications are allowed, and the kinds of remote tracks.
\<close>

record platform =
  pl_draws :: draws
  pl_getUserMedia :: bool
  pl_notifications :: bool
  pl_kind :: "track \<Rightarrow> string"

definition on_rm :: "('k room_manager \<Rightarrow> 'k room_manager) \<Rightarrow> 'k app \<Rightarrow> 'k app" where
  "on_rm f a = a\<lparr>ap_rm := f (ap_rm a)\<rparr>"

definition on_cl :: "(client \<Rightarrow> client) \<Rightarrow> 'k app \<Rightarrow> 'k app" where
  "on_cl f a = a\<lparr>ap_cl := f (ap_cl a)\<rparr>"

definition add_task :: "'k app_task \<Rightarrow> 'k app \<Rightarrow> 'k app" where
  "add_task t a = a\<lparr>ap_tasks := ap_tasks a @ [t]\<rparr>"

text \<open>A room in a message: a string that is not empty.\<close>

definition room_of :: "json option \<Rightarrow> string option" where
  "room_of v = (case v of Some (JStr s) \<Rightarrow> if s = [] then None else Some s | _ \<Rightarrow> None)"

section \<open>Chat messages\<close>

definition KEY_MISMATCH_TEXT :: string where
  "KEY_MISMATCH_TEXT = ''[encrypted message '' @ em_dash @ '' key mismatch]''"

text \<open>\<open>keyRef\<close> of the rotation hook is \<open>activeKeyRef\<close>.\<close>

definition key_of :: "'k key_ref option \<Rightarrow> 'k option" where
  "key_of r = (case r of Some (Key k) \<Rightarrow> Some k | _ \<Rightarrow> None)"

definition key_state :: "'k app \<Rightarrow> 'k key_hook" where
  "key_state a = (ap_keys a)\<lparr>keyRef := key_of (activeKeyRef (ap_rm a))\<rparr>"

definition chat_key_of :: "string \<Rightarrow> 'k app \<Rightarrow> 'k chat_key" where
  "chat_key_of room a = (case map_get (keyRefs (ap_rm a)) room of Some k \<Rightarrow> RoomKey k | None \<Rightarrow> Rotation (opener_of (key_state a)))"

definition decrypt_chat :: "'k webcrypto \<Rightarrow> 'k chat_key \<Rightarrow> string \<Rightarrow> 'k key_hook \<Rightarrow> js_error + string" where
  "decrypt_chat P key payload now =
     (case key of
        RoomKey (Key k) \<Rightarrow> decrypt P k payload
      | RoomKey (Fragment _) \<Rightarrow> Inl TypeError
      | Rotation op \<Rightarrow> open_text P op payload now)"

definition chat_text :: "js_error + string \<Rightarrow> string" where
  "chat_text r =
     (case r of
        Inl _ \<Rightarrow> KEY_MISMATCH_TEXT
      | Inr text \<Rightarrow> if MAX_TEXT_LENGTH < length text then js_slice text 0 MAX_TEXT_LENGTH @ ''... [truncated]'' else text)"

text \<open>\<open>nicknames[data.id] || (data.id ? data.id.slice(0, 8) : '')\<close>.\<close>

definition sender_nickname :: "json \<Rightarrow> json option \<Rightarrow> string" where
  "sender_nickname nicknames dataId =
     (case dataId of
        Some (JStr s) \<Rightarrow>
          (case js_get nicknames s of
             Some v \<Rightarrow> if truthy (Some v) then js_to_string v else js_slice s 0 8
           | None \<Rightarrow> js_slice s 0 8)
      | _ \<Rightarrow> [])"

text \<open>The message that a decrypted chat is shown as; \<open>uuid\<close> is used when it has no id.\<close>

definition chat_message :: "string \<Rightarrow> json \<Rightarrow> json \<Rightarrow> bool \<Rightarrow> js_error + string \<Rightarrow> chat_msg" where
  "chat_message uuid nicknames dat p2p r =
     (app_msg uuid (chat_text r))
       \<lparr>cm_id := the (js_or (js_get dat ''msgId'') (Some (JStr uuid))), cm_error := (chat_text r = KEY_MISMATCH_TEXT),
        cm_sender := js_get dat ''id'', cm_nickname := sender_nickname nicknames (js_get dat ''id''), cm_p2p := p2p\<rparr>"

definition nicknames_of :: "'k app \<Rightarrow> string \<Rightarrow> json" where
  "nicknames_of a room =
     (case map_get (roomsRef (ap_rm a)) room of
        Some s \<Rightarrow> if truthy (Some (r_peerNicknames s)) then r_peerNicknames s else ap_peerNicknames a
      | None \<Rightarrow> ap_peerNicknames a)"

definition receipt_payload :: "json \<Rightarrow> string \<Rightarrow> json option" where
  "receipt_payload messageId st =
     Some (JStr (json_stringify (JObj [(''messageId'', messageId), (''status'', JStr st)])))"

text \<open>\<open>decryptAndAppendChat\<close> from its call, up to the decryption.\<close>

definition decryptAndAppendChat :: "json \<Rightarrow> string \<Rightarrow> bool \<Rightarrow> 'k app \<Rightarrow> 'k app" where
  "decryptAndAppendChat dat room p2p a = add_task (Decrypting dat room (chat_key_of room a) p2p) a"

text \<open>
  The rest: the message is appended; for one from the gateway, a receipt is sent.
\<close>

definition chat_decrypted ::
  "'k webcrypto \<Rightarrow> platform \<Rightarrow> json \<Rightarrow> string \<Rightarrow> 'k chat_key \<Rightarrow> bool \<Rightarrow> 'k app \<Rightarrow> 'k app" where
  "chat_decrypted P pl dat room key p2p a =
     (let r = decrypt_chat P key (js_string (js_get dat ''payload'')) (ap_keys a);
          msg = chat_message (d_msgId (pl_draws pl)) (nicknames_of a room) dat p2p r;
          a1 = on_rm (appendMessageToRoom room msg) a
      in if p2p then a1
         else on_cl (\<lambda>c. fst (send (pl_draws pl) ''receipt'' room (receipt_payload (cm_id msg) ''delivered'') [] c)) a1)"

text \<open>A chat message from the gateway; it waits while the room's key is being derived.\<close>

definition on_chat :: "json \<Rightarrow> 'k app \<Rightarrow> 'k app" where
  "on_chat dat a =
     (case room_of (js_get dat ''room'') of
        None \<Rightarrow> a
      | Some room \<Rightarrow>
          if room \<in> set (pendingKeyRooms a) then
            (let queued = (case map_get (pendingMessages a) room of None \<Rightarrow> [] | Some q \<Rightarrow> q)
             in a\<lparr>pendingMessages := map_set room (queued @ [dat]) (pendingMessages a)\<rparr>)
          else decryptAndAppendChat dat room False a)"

section \<open>Media chunks and data channels\<close>

text \<open>\<open>handleMediaChunk\<close> with the active key; \<open>deliver_media\<close> hands on what the hook sends and appends.\<close>

definition deliver_media :: "platform \<Rightarrow> 'k media_hook \<Rightarrow> 'k app \<Rightarrow> 'k app" where
  "deliver_media pl old a =
     fold (\<lambda>(room, msg). on_rm (appendMessageToRoom room msg))
       (drop (length (media_messages old)) (media_messages (ap_media a)))
       (fold (\<lambda>(room, payload). on_cl (\<lambda>c. fst (send (pl_draws pl) ''media'' room (Some (JStr payload)) [] c)))
         (drop (length (media_sends old)) (media_sends (ap_media a))) a)"

definition with_media :: "platform \<Rightarrow> ('k media_hook \<Rightarrow> 'k media_hook) \<Rightarrow> 'k app \<Rightarrow> 'k app" where
  "with_media pl f a = deliver_media pl (ap_media a) (a\<lparr>ap_media := f (ap_media a)\<rparr>)"

definition on_media :: "json \<Rightarrow> 'k app \<Rightarrow> 'k app" where
  "on_media dat a =
     a\<lparr>ap_media := handleMediaChunk (js_get dat ''payload'') (key_of (activeKeyRef (ap_rm a))) (ap_media a)\<rparr>"

text \<open>The listener of \<open>p2p:message\<close>.\<close>

definition on_p2p_message :: "json \<Rightarrow> 'k app \<Rightarrow> 'k app" where
  "on_p2p_message dat a =
     (if \<not> is_object (Some dat) then a
      else if js_get dat ''type'' = Some (JStr ''chat'') then
        decryptAndAppendChat dat
          (case room_of (js_get dat ''room'') of None \<Rightarrow> activeRoomRef (ap_rm a) | Some r \<Rightarrow> r) True a
      else if js_get dat ''type'' = Some (JStr ''media'') then on_media dat a
      else a)"

section \<open>Meshes\<close>

text \<open>
  The callbacks that App gives to \<open>useWebRTCMesh\<close>: signals go out through the client, messages
  of data channels come in as \<open>p2p:message\<close>, the state of the connection is a flag of
  the room, remote streams belong to the call.
\<close>

definition set_p2p :: "string \<Rightarrow> bool \<Rightarrow> 'k app \<Rightarrow> 'k app" where
  "set_p2p room flag a = on_rm (updateRoomState room (\<lambda>s. s\<lparr>r_isP2P := flag\<rparr>)) a"

definition deliver_out :: "platform \<Rightarrow> hook_output \<Rightarrow> 'k app \<Rightarrow> 'k app" where
  "deliver_out pl x a =
     (let a1 = on_cl (deliver (pl_draws pl) x) a in
      case x of
        SignalOut room peer signal \<Rightarrow> a1
      | P2PMessage v \<Rightarrow> if ap_listener a1 = None then a1 else on_p2p_message v a1
      | SetP2P room flag \<Rightarrow> set_p2p room flag a1
      | RemoteStream peer stream \<Rightarrow>
          a1\<lparr>ap_call := remote_track peer
             (map (\<lambda>t. \<lparr>tk_kind = pl_kind pl t, tk_enabled = True, tk_stopped = False\<rparr>) stream) (ap_call a1)\<rparr>)"

definition with_hook :: "platform \<Rightarrow> (mesh_hook \<Rightarrow> mesh_hook) \<Rightarrow> 'k app \<Rightarrow> 'k app" where
  "with_hook pl f a =
     fold (deliver_out pl) (drop (length (hook_out (ap_hook a))) (hook_out (f (ap_hook a)))) (a\<lparr>ap_hook := f (ap_hook a)\<rparr>)"

definition on_signal :: "rtc_api \<Rightarrow> platform \<Rightarrow> json \<Rightarrow> 'k app \<Rightarrow> 'k app" where
  "on_signal R pl dat a =
     (let room = (case room_of (js_get dat ''room'') of None \<Rightarrow> [] | Some r \<Rightarrow> r)
      in with_hook pl (\<lambda>h. fst (hook_handleSignal R (js_string (js_get dat ''id'')) (js_get dat ''payload'') room h)) a)"

section \<open>Calls\<close>

text \<open>The tracks of a local stream \<open>s\<close>, as the peer connections name them.\<close>

definition stream_of :: "stream_id \<Rightarrow> nat \<Rightarrow> stream" where
  "stream_of s n = map (Pair s) [0..<n]"

text \<open>What \<open>broadcastStream\<close> throws for a new stream with \<open>n\<close> tracks, in each room with a mesh.\<close>

definition mesh_failure :: "nat \<Rightarrow> 'k app \<Rightarrow> string \<Rightarrow> exn option option" where
  "mesh_failure n a room =
     (case map_get (peerMeshes (ap_hook a)) room of
        None \<Rightarrow> None
      | Some i \<Rightarrow>
          Some (map_option (\<lambda>e. plain_error (error_text e))
            (snd (broadcastStream (stream_of (length (call_streams (ap_call a))) n) (meshes (ap_hook a) ! i)))))"

definition env_of :: "platform \<Rightarrow> nat \<Rightarrow> 'k app \<Rightarrow> call_env" where
  "env_of pl n a =
     \<lparr>ce_activeRoom = activeRoom (ap_rm a), ce_connected = connected (ap_cl a), ce_getUserMedia = pl_getUserMedia pl,
      ce_notifications = pl_notifications pl, ce_mesh = mesh_failure n a\<rparr>"

text \<open>What the call manager asks of the client and of the meshes.\<close>

definition deliver_call :: "platform \<Rightarrow> call_output \<Rightarrow> 'k app \<Rightarrow> 'k app" where
  "deliver_call pl x a =
     (case x of
        SendCall ty room payload \<Rightarrow> on_cl (\<lambda>c. fst (send (pl_draws pl) ty room payload [] c)) a
      | BroadcastStream room s \<Rightarrow>
          (case map_get (peerMeshes (ap_hook a)) room of
             None \<Rightarrow> a
           | Some i \<Rightarrow>
               with_hook pl (on_mesh i (\<lambda>m. fst (broadcastStream (stream_of s (length (call_streams (ap_call a) ! s))) m))) a)
      | Calls.RemoveStreams \<Rightarrow> with_hook pl (fold (\<lambda>i. on_mesh i removeAllStreams) (map snd (peerMeshes (ap_hook a)))) a
      | _ \<Rightarrow> a)"

definition with_call :: "platform \<Rightarrow> nat \<Rightarrow> (call_env \<Rightarrow> call \<Rightarrow> call) \<Rightarrow> 'k app \<Rightarrow> 'k app" where
  "with_call pl n f a =
     (let c = f (env_of pl n a) (ap_call a)
      in fold (deliver_call pl) (drop (length (outputs (ap_call a))) (outputs c)) (a\<lparr>ap_call := c\<rparr>))"

text \<open>
  A call that is offered is taken unless \<open>callActiveRef\<close> says that there is one already; it follows
  \<open>callActive\<close> with each render. \<open>call_end\<close> of any room ends the call.
\<close>

definition on_call :: "platform \<Rightarrow> string \<Rightarrow> json \<Rightarrow> 'k app \<Rightarrow> 'k app" where
  "on_call pl ty dat a =
     (if ty = ''call_offer'' then
        (case room_of (js_get dat ''room'') of
           None \<Rightarrow> a
         | Some room \<Rightarrow>
             if ap_callActiveRef a then a
             else with_call pl 0 (\<lambda>env. handleIncomingCall env room (js_get dat ''payload'')) a)
      else with_call pl 0 endCall a)"

section \<open>Presence\<close>

definition salts_match :: "byte list option \<Rightarrow> byte list \<Rightarrow> bool" where
  "salts_match cached serverSalt = (cached = Some serverSalt)"

definition presence_update :: "json \<Rightarrow> room_state \<Rightarrow> room_state" where
  "presence_update presence s =
     s\<lparr>r_peerCount := the (js_or (js_get presence ''count'') (Some (JNum 0))),
       r_peerNicknames := the (js_or (js_get presence ''peers'') (Some (r_peerNicknames s))),
       r_expiresAt := js_or (js_get presence ''expiresAt'') (r_expiresAt s),
       r_salt := js_or (js_get presence ''salt'') (r_salt s)\<rparr>"

text \<open>The end of the presence handler: room state, nicknames, mesh.\<close>

definition presence_rest :: "platform \<Rightarrow> json \<Rightarrow> string \<Rightarrow> 'k app \<Rightarrow> 'k app" where
  "presence_rest pl presence room a =
     (let a1 = on_rm (setRooms (\<lambda>prev. case map_get prev room of
                  None \<Rightarrow> None
                | Some current \<Rightarrow> Some (map_set room (presence_update presence current) prev))) a;
          a2 = (if room = activeRoomRef (ap_rm a1) \<and> truthy (js_get presence ''peers'')
                then a1\<lparr>ap_peerNicknames := the (js_get presence ''peers'')\<rparr> else a1);
          cnt = the (js_or (js_get presence ''count'') (Some (JNum 0)))
      in with_hook pl (handlePresenceMesh room cnt (js_get presence ''peers'') (peerId (ap_cl a2))) a2)"

text \<open>A new salt of the server, for a room whose passphrase is still known, starts a derivation.\<close>

definition presence_salt :: "platform \<Rightarrow> json \<Rightarrow> string \<Rightarrow> byte list \<Rightarrow> 'k app \<Rightarrow> 'k app" where
  "presence_salt pl presence room serverSalt a =
     (if salts_match (map_get (saltRefs (ap_rm a)) room) serverSalt then presence_rest pl presence room a
      else case map_get (passphraseRefs (ap_rm a)) room of
        None \<Rightarrow> presence_rest pl presence room a
      | Some pp \<Rightarrow>
          if pp = [] then presence_rest pl presence room a
          else (let a1 = a\<lparr>pendingKeyRooms := set_add room (pendingKeyRooms a)\<rparr>;
                    a2 = on_rm (\<lambda>m. m\<lparr>saltRefs := map_set room serverSalt (saltRefs m)\<rparr>) a1
                in add_task (Deriving room pp serverSalt presence) a2))"

definition on_presence :: "platform \<Rightarrow> json \<Rightarrow> 'k app \<Rightarrow> 'k app" where
  "on_presence pl dat a =
     (case read_payload (js_get dat ''payload'') of
        Inr (Some presence) \<Rightarrow>
          (case js_read (Some presence) ''room'' of
             Inl _ \<Rightarrow> a
           | Inr r \<Rightarrow>
               (case room_of (js_or r (js_get dat ''room'')) of
                  None \<Rightarrow> a
                | Some room \<Rightarrow>
                    if truthy (js_get presence ''salt'')
                    then (case base64ToUint8 (js_string (js_get presence ''salt'')) of
                            Inl _ \<Rightarrow> a
                          | Inr serverSalt \<Rightarrow> presence_salt pl presence room serverSalt a)
                    else presence_rest pl presence room a))
      | _ \<Rightarrow> a)"

text \<open>\<open>client.emit('message', qData)\<close> calls the listener again; only chat messages are ever queued.\<close>

definition reemit :: "json \<Rightarrow> 'k app \<Rightarrow> 'k app" where
  "reemit q a =
     (let a1 = on_cl (emit_event ''message'' (JsonData q)) a
      in if ap_listener a1 = None then a1 else on_chat q a1)"

text \<open>The derivation has finished; when it has thrown, the handler ends there.\<close>

definition key_derived ::
  "'k webcrypto \<Rightarrow> platform \<Rightarrow> string \<Rightarrow> string \<Rightarrow> byte list \<Rightarrow> json \<Rightarrow> 'k app \<Rightarrow> 'k app" where
  "key_derived P pl room pp serverSalt presence a =
     (case deriveRoomKey P room pp (Some serverSalt) of
        Inl _ \<Rightarrow> a
      | Inr newKey \<Rightarrow>
          (let a1 = on_rm (\<lambda>m. m\<lparr>keyRefs := map_set room (Key newKey) (keyRefs m),
                     activeKeyRef := (if room = activeRoomRef m then Some (Key newKey) else activeKeyRef m),
                     passphraseRefs := map_delete room (passphraseRefs m)\<rparr>) a;
               a2 = a1\<lparr>pendingKeyRooms := set_delete room (pendingKeyRooms a1)\<rparr>;
               a3 = (case map_get (pendingMessages a2) room of
                       None \<Rightarrow> a2
                     | Some queued \<Rightarrow>
                         if queued = [] then a2
                         else fold reemit queued (a2\<lparr>pendingMessages := map_delete room (pendingMessages a2)\<rparr>))
           in presence_rest pl presence room a3))"

section \<open>Receipts, typing\<close>

text \<open>A receipt changes the state of its message unless it was read.\<close>

definition receipt_update :: "string \<Rightarrow> json \<Rightarrow> room_map \<Rightarrow> string \<Rightarrow> room_map option" where
  "receipt_update messageId st prev room =
     (case map_get prev room of
        None \<Rightarrow> None
      | Some current \<Rightarrow>
          if map_get (r_receipts current) messageId = Some (JStr ''read'') then None
          else Some (map_set room (current\<lparr>r_receipts := map_set messageId st (r_receipts current)\<rparr>) prev))"

definition on_receipt :: "json \<Rightarrow> 'k app \<Rightarrow> 'k app" where
  "on_receipt dat a =
     (case read_payload (js_get dat ''payload'') of
        Inr (Some rp) \<Rightarrow>
          (case js_read (Some rp) ''messageId'' of
             Inl _ \<Rightarrow> a
           | Inr messageId \<Rightarrow>
               if truthy messageId \<and> truthy (js_get rp ''status'')
               then (case room_of (js_get dat ''room'') of
                       None \<Rightarrow> a
                     | Some room \<Rightarrow>
                         on_rm (setRooms (\<lambda>prev. receipt_update (js_string messageId) (the (js_get rp ''status'')) prev room)) a)
               else a)
      | _ \<Rightarrow> a)"

definition on_typing :: "platform \<Rightarrow> json \<Rightarrow> 'k app \<Rightarrow> 'k app" where
  "on_typing pl dat a =
     (if js_get dat ''room'' = Some (JStr (activeRoomRef (ap_rm a)))
      then a\<lparr>ap_typing :=
               handleTypingMessage (d_now (pl_draws pl)) (js_get dat ''id'') (js_get dat ''payload'') (ap_typing a)\<rparr>
      else a)"

section \<open>Key rotation\<close>

definition ROTATED_TEXT :: string where
  "ROTATED_TEXT = ''[key rotated '' @ em_dash @ '' encryption key updated]''"

definition ROTATED_BY_PEER_TEXT :: string where
  "ROTATED_BY_PEER_TEXT = ''[key rotated by peer '' @ em_dash @ '' encryption key updated]''"

definition ROTATION_FAILED_TEXT :: string where
  "ROTATION_FAILED_TEXT = ''[key rotation failed '' @ em_dash @ '' could not decrypt new key]''"

fun rotation_message :: "uuid \<Rightarrow> rotation_note \<Rightarrow> chat_msg" where
  "rotation_message uuid KeyRotated = (app_msg uuid ROTATED_TEXT)\<lparr>cm_system := True\<rparr>"
| "rotation_message uuid KeyRotatedByPeer = (app_msg uuid ROTATED_BY_PEER_TEXT)\<lparr>cm_system := True\<rparr>"
| "rotation_message uuid RotationFailed = (app_msg uuid ROTATION_FAILED_TEXT)\<lparr>cm_error := True\<rparr>"

text \<open>
  The hook's step \<open>f\<close> on \<open>activeKeyRef\<close>: a key it has set is the active key, the keys it
  announces are sent, its notes are appended to their rooms.
\<close>

definition with_keys :: "platform \<Rightarrow> ('k key_hook \<Rightarrow> 'k key_hook) \<Rightarrow> 'k app \<Rightarrow> 'k app" where
  "with_keys pl f a =
     (let h = key_state a;
          h' = f h;
          notes = drop (length (rotation_notes h)) (rotation_notes h');
          a1 = a\<lparr>ap_keys := h'\<rparr>;
          a2 = (if keyRef h' \<noteq> keyRef h
                then on_rm (\<lambda>m. m\<lparr>activeKeyRef := map_option Key (keyRef h')\<rparr>) a1 else a1);
          a3 = fold (\<lambda>(room, text). on_cl (\<lambda>c. fst (send (pl_draws pl) ''key_rotation'' room (Some (JStr text)) [] c)))
                 (drop (length (rotations_sent h)) (rotations_sent h')) a2
      in fold (\<lambda>(room, note). on_rm (appendMessageToRoom room (rotation_message (d_msgId (pl_draws pl)) note))) notes a3)"

text \<open>In the active room the hook opens the key; its note goes to the room the listener closed over.\<close>

definition active_rotation :: "platform \<Rightarrow> string \<Rightarrow> 'k app \<Rightarrow> 'k app" where
  "active_rotation pl payload a =
     with_keys pl (handleKeyRotationMessage (case ap_listener a of None \<Rightarrow> [] | Some r \<Rightarrow> r) payload) a"

text \<open>In another room the key is opened with that room's key; this is the rest of the handler.\<close>

definition background_rotation :: "'k webcrypto \<Rightarrow> platform \<Rightarrow> string \<Rightarrow> string \<Rightarrow> 'k key_ref \<Rightarrow> 'k app \<Rightarrow> 'k app" where
  "background_rotation P pl room payload roomKey a =
     (let note = (\<lambda>n. appendMessageToRoom room (rotation_message (d_msgId (pl_draws pl)) n)) in
      case bind (case roomKey of Key k \<Rightarrow> decrypt P k payload | Fragment _ \<Rightarrow> Inl TypeError) (importKey P) of
        Inl _ \<Rightarrow> on_rm (note RotationFailed) a
      | Inr newKey \<Rightarrow>
          on_rm (\<lambda>m. note KeyRotatedByPeer (m\<lparr>keyRefs := map_set room (Key newKey) (keyRefs m)\<rparr>)) a)"

definition on_key_rotation :: "platform \<Rightarrow> json \<Rightarrow> 'k app \<Rightarrow> 'k app" where
  "on_key_rotation pl dat a =
     (case room_of (js_get dat ''room'') of
        None \<Rightarrow> a
      | Some room \<Rightarrow>
          if room = activeRoomRef (ap_rm a) then active_rotation pl (js_string (js_get dat ''payload'')) a
          else (case map_get (keyRefs (ap_rm a)) room of
                  None \<Rightarrow> a
                | Some roomKey \<Rightarrow> add_task (OpeningKey room (js_string (js_get dat ''payload'')) roomKey) a))"

section \<open>The listeners\<close>

text \<open>The listener of \<open>message\<close>.\<close>

definition on_message :: "rtc_api \<Rightarrow> platform \<Rightarrow> json \<Rightarrow> 'k app \<Rightarrow> 'k app" where
  "on_message R pl dat a =
     (if \<not> is_object (Some dat) then a
      else case js_get dat ''type'' of
        Some (JStr ty) \<Rightarrow>
          if ty = ''presence'' then on_presence pl dat a
          else if ty = ''signal'' then on_signal R pl dat a
          else if ty = ''typing'' then on_typing pl dat a
          else if ty = ''receipt'' then on_receipt dat a
          else if ty = ''chat'' then on_chat dat a
          else if ty = ''key_rotation'' then on_key_rotation pl dat a
          else if ty = ''media'' then on_media dat a
          else if ty = ''call_offer'' \<or> ty = ''call_end'' then on_call pl ty dat a
          else a
      | _ \<Rightarrow> a)"

text \<open>The listeners of \<open>close\<close>, \<open>reconnecting\<close> and \<open>open\<close> show the connection's status.\<close>

definition set_status :: "string \<Rightarrow> 'k app \<Rightarrow> 'k app" where
  "set_status st a = on_rm (\<lambda>m. m\<lparr>status := st\<rparr>) a"

definition on_close_status :: "'k app \<Rightarrow> 'k app" where
  "on_close_status a = set_status (if ap_intentional a then ''disconnected'' else ''reconnecting'') a"

definition on_reconnecting_status :: "string \<Rightarrow> 'k app \<Rightarrow> 'k app" where
  "on_reconnecting_status attempt a = set_status (''reconnecting (attempt '' @ attempt @ '')'') a"

text \<open>
  An event of the client at the listeners of \<open>setupGlobalHandlers\<close>. A message from the
  gateway is emitted under its own type too, so that it can reach any of them.
\<close>

definition on_event :: "rtc_api \<Rightarrow> platform \<Rightarrow> string \<times> emit_data \<Rightarrow> 'k app \<Rightarrow> 'k app" where
  "on_event R pl x a =
     (if ap_listener a = None then a
      else case x of (ev, dat) \<Rightarrow>
        if ev = ''message'' then (case dat of JsonData v \<Rightarrow> on_message R pl v a | _ \<Rightarrow> a)
        else if ev = ''p2p:message'' then (case dat of JsonData v \<Rightarrow> on_p2p_message v a | _ \<Rightarrow> a)
        else if ev = ''close'' then on_close_status a
        else if ev = ''reconnecting'' then
          (case dat of
             ReconnectInfo n _ \<Rightarrow> on_reconnecting_status (show_nat n) a
           | JsonData v \<Rightarrow> on_reconnecting_status (js_string (js_get v ''attempt'')) a
           | _ \<Rightarrow> a)
        else if ev = ''open'' then set_status ''connected'' a
        else a)"

definition with_client ::
  "rtc_api \<Rightarrow> platform \<Rightarrow> (client \<Rightarrow> client) \<Rightarrow> 'k app \<Rightarrow> 'k app" where
  "with_client R pl f a =
     fold (on_event R pl) (drop (length (emitted (ap_cl a))) (emitted (f (ap_cl a)))) (on_cl f a)"

section \<open>Sending\<close>

text \<open>\<open>sendMessage\<close> up to the encryption: the input as rendered, the typing indicator, the key.\<close>

definition sendMessage :: "platform \<Rightarrow> 'k app \<Rightarrow> 'k app" where
  "sendMessage pl a =
     (case map_get (rooms (ap_rm a)) (activeRoom (ap_rm a)) of
        None \<Rightarrow> a
      | Some s \<Rightarrow>
          if js_trim (r_input s) = [] then a
          else (let room = activeRoom (ap_rm a);
                    tc = sendTypingIndicator (pl_draws pl) (d_now (pl_draws pl)) room (ap_nickname a) False (ap_typing a, ap_cl a);
                    a1 = a\<lparr>ap_typing := fst tc, ap_cl := snd tc\<rparr>
                in case map_get (keyRefs (ap_rm a1)) room of
                     None \<Rightarrow> a1
                   | Some roomKey \<Rightarrow> add_task (Encrypting room (r_input s) roomKey (ap_nickname a)) a1))"

definition p2p_text :: "draws \<Rightarrow> string \<Rightarrow> string \<Rightarrow> string" where
  "p2p_text d room encrypted =
     json_stringify (JObj [(''id'', JStr (d_id d)), (''msgId'', JStr (d_msgId d)), (''type'', JStr ''chat''),
       (''room'', JStr room), (''payload'', JStr encrypted), (''timestamp'', JNum (d_now d))])"

text \<open>Over the data channel of the first connected peer, if there is one; \<open>True\<close> when it was sent.\<close>

definition send_p2p :: "string \<Rightarrow> string \<Rightarrow> mesh_hook \<Rightarrow> mesh_hook \<times> bool" where
  "send_p2p room text h =
     (case map_get (peerMeshes h) room of
        None \<Rightarrow> (h, False)
      | Some i \<Rightarrow>
          (case connectedPeers (meshes h ! i) of
             [] \<Rightarrow> (h, False)
           | peer # _ \<Rightarrow>
               (case getConnection (meshes h ! i) peer of
                  None \<Rightarrow> (h, False)
                | Some k \<Rightarrow>
                    (on_mesh i (update_conn k (fst \<circ> pc_send text)) h, snd (pc_send text (conns (meshes h ! i) ! k))))))"

definition own_message :: "string \<Rightarrow> string \<Rightarrow> string \<Rightarrow> bool \<Rightarrow> chat_msg" where
  "own_message msgId text nickname sent =
     (app_msg msgId text)\<lparr>cm_own := True, cm_nickname := nickname, cm_queued := \<not> sent\<rparr>"

definition ENCRYPT_FAILED_TEXT :: string where "ENCRYPT_FAILED_TEXT = ''[failed to encrypt message]''"

text \<open>After the encryption; \<open>iv\<close> is what it drew and \<open>d_msgId\<close> the id drawn for the message.\<close>

definition message_encrypted ::
  "'k webcrypto \<Rightarrow> draws \<Rightarrow> byte list \<Rightarrow> string \<Rightarrow> string \<Rightarrow> 'k key_ref \<Rightarrow> string \<Rightarrow> 'k app \<Rightarrow> 'k app" where
  "message_encrypted P d iv room input roomKey nickname a =
     (let msgId = d_msgId d in
      case (case roomKey of Key k \<Rightarrow> encrypt P iv k input | Fragment _ \<Rightarrow> Inl TypeError) of
        Inl _ \<Rightarrow>
          on_rm (appendMessageToRoom room ((app_msg msgId ENCRYPT_FAILED_TEXT)\<lparr>cm_own := True, cm_error := True\<rparr>)) a
      | Inr encrypted \<Rightarrow>
          (let p2p = send_p2p room (p2p_text d room encrypted) (ap_hook a);
               a1 = a\<lparr>ap_hook := fst p2p\<rparr>;
               cs = (if snd p2p then (ap_cl a1, True) else send d ''chat'' room (Some (JStr encrypted)) msgId (ap_cl a1));
               a2 = a1\<lparr>ap_cl := fst cs\<rparr>;
               a3 = on_rm (appendMessageToRoom room (own_message msgId input nickname (snd cs))) a2
           in on_rm (updateRoomState room (\<lambda>s. s\<lparr>r_input := []\<rparr>)) a3))"

definition handleInputChange :: "platform \<Rightarrow> string \<Rightarrow> 'k app \<Rightarrow> 'k app" where
  "handleInputChange pl value a =
     (let room = activeRoom (ap_rm a);
          a1 = on_rm (updateRoomState room (\<lambda>s. s\<lparr>r_input := value\<rparr>)) a
      in if value = [] then a1
         else let tc = sendTypingIndicator (pl_draws pl) (d_now (pl_draws pl)) room (ap_nickname a1) True
                         (ap_typing a1, ap_cl a1)
              in a1\<lparr>ap_typing := fst tc, ap_cl := snd tc\<rparr>)"

text \<open>The observer reports a message of a peer as read once it has come into view.\<close>

definition message_seen :: "platform \<Rightarrow> json \<Rightarrow> 'k app \<Rightarrow> 'k app" where
  "message_seen pl msgId a =
     (if ap_observer a \<and> truthy (Some msgId)
      then on_cl (\<lambda>c. fst (send (pl_draws pl) ''receipt'' (activeRoomRef (ap_rm a)) (receipt_payload msgId ''read'') [] c)) a
      else a)"

section \<open>Joining and leaving\<close>

definition set_active :: "string \<Rightarrow> 'k app \<Rightarrow> 'k app" where
  "set_active room a = on_rm (setActiveRoom room) a"

text \<open>The payload of a join: nickname, TTL and the salt of a passphrase room, if any.\<close>

definition join_payload :: "string \<Rightarrow> int \<Rightarrow> byte list option \<Rightarrow> json option" where
  "join_payload nickname ttl salt =
     (let fields =
        (if js_trim nickname \<noteq> [] then [(''nickname'', JStr (js_trim nickname))] else [])
        @ (if 0 < ttl then [(''ttlSeconds'', JNum ttl)] else [])
        @ (case salt of None \<Rightarrow> [] | Some s \<Rightarrow> [(''salt'', JStr (uint8ToBase64 s))])
      in if fields = [] then Some JNull else Some (JStr (json_stringify (JObj fields))))"

text \<open>
  \<open>setupGlobalHandlers\<close>: the rotator starts with the current active key, and the listeners
  close over the active room of the render they are made in.
\<close>

definition setupGlobalHandlers :: "int \<Rightarrow> 'k app \<Rightarrow> 'k app" where
  "setupGlobalHandlers intv a =
     a\<lparr>ap_keys := startRotation intv (activeRoom (ap_rm a)) (key_of (activeKeyRef (ap_rm a))) (ap_keys a),
       ap_media := initAssembler (ap_media a), ap_listener := Some (activeRoom (ap_rm a))\<rparr>"

text \<open>The join after the connection is open; \<open>none\<close> tells whether there was no room when it began.\<close>

definition join_connected ::
  "draws \<Rightarrow> int \<Rightarrow> string \<Rightarrow> string \<Rightarrow> bool \<Rightarrow> string \<Rightarrow> int \<Rightarrow> 'k app \<Rightarrow> 'k app" where
  "join_connected d intv room shareLink none nickname ttl a =
     (let a1 = set_status ''connected'' a;
          a2 = on_rm (updateRoomState room (\<lambda>s. s\<lparr>r_shareLink := (if shareLink = [] then r_shareLink s else shareLink)\<rparr>)) a1;
          a3 = (if none \<and> ap_listener a2 = None then setupGlobalHandlers intv a2 else a2)\<lparr>ap_observer := True\<rparr>;
          payload = join_payload nickname ttl (map_get (saltRefs (ap_rm a3)) room);
          a4 = on_cl (\<lambda>c. fst (send d ''join'' room payload [] c)) a3;
          a5 = set_active room a4
      in (on_rm (\<lambda>m. m\<lparr>view := ''chat''\<rparr>) a5)\<lparr>ap_joinModal := False, ap_passphrase := []\<rparr>)"

definition MAX_ROOMS_ALERT :: string where
  "MAX_ROOMS_ALERT = ''Max '' @ show_nat MAX_UI_ROOMS @ '' rooms '' @ em_dash @ '' leave one first''"

text \<open>\<open>handleJoinRoom\<close>: the guards, and the key of the room, up to the first \<open>await\<close>.\<close>

definition handleJoinRoom :: "byte list \<Rightarrow> 'k app \<Rightarrow> 'k app" where
  "handleJoinRoom roomSalt a =
     (let room = js_trim (ap_joinRoom a); none = (rooms (ap_rm a) = []) in
      if room = [] \<or> MAX_ROOM_NAME_LEN < length room then a
      else if MAX_UI_ROOMS \<le> length (rooms (ap_rm a)) \<and> \<not> map_has (rooms (ap_rm a)) room
      then a\<lparr>ap_alerts := ap_alerts a @ [MAX_ROOMS_ALERT]\<rparr>
      else let a1 = set_status ''connecting'' (a\<lparr>ap_intentional := False\<rparr>);
               (m, w) = setup_begin roomSalt room (ap_passphrase a1) (ap_rm a1)
           in add_task (JoinKeying room w none (ap_nickname a1) (ap_ttl a1)) (a1\<lparr>ap_rm := m\<rparr>))"

text \<open>Once the key is there, the connection, awaited when the client is not connected.\<close>

definition join_keyed ::
  "'k webcrypto \<Rightarrow> draws \<Rightarrow> int \<Rightarrow> string \<Rightarrow> js_error + 'k \<Rightarrow> string \<Rightarrow> 'k setup_wait \<Rightarrow> bool \<Rightarrow> string \<Rightarrow> int
     \<Rightarrow> 'k app \<Rightarrow> 'k app" where
  "join_keyed P d intv page fresh room w none nickname ttl a =
     (let (m, r) = setup_resume P page fresh room w (ap_rm a);
          a1 = a\<lparr>ap_rm := m\<rparr>
      in case r of
           Inl w' \<Rightarrow> add_task (JoinKeying room w' none nickname ttl) a1
         | Inr (Inl e) \<Rightarrow> set_status (''error: '' @ error_text e) a1
         | Inr (Inr (key, shareLink)) \<Rightarrow>
             if connected (ap_cl a1) then join_connected d intv room shareLink none nickname ttl a1
             else add_task (JoinConnecting room shareLink none nickname ttl) (on_cl connect a1))"

text \<open>The last room was left: the connection is closed and the handlers are taken down.\<close>

definition leave_last :: "'k app \<Rightarrow> 'k app" where
  "leave_last a =
     (let a1 = on_cl disconnect (a\<lparr>ap_intentional := True\<rparr>);
          a2 = a1\<lparr>ap_media := destroyAssembler (ap_media a1), ap_keys := stopRotation (ap_keys a1),
                  ap_listener := None, ap_observer := False\<rparr>;
          a3 = set_status ''disconnected'' (set_active [] (on_rm (\<lambda>m. m\<lparr>view := ''join''\<rparr>) a2))
      in a3\<lparr>ap_nickname := [], ap_ttl := 0, ap_media := resetProgress (ap_media a3),
            ap_typing := clearTyping (ap_typing a3)\<rparr>)"

definition leaveRoom :: "platform \<Rightarrow> string \<Rightarrow> 'k app \<Rightarrow> 'k app" where
  "leaveRoom pl roomName a =
     (let active = activeRoom (ap_rm a);
          room = (if roomName = [] then active else roomName);
          remaining = filter (\<lambda>r. r \<noteq> room) (map_keys (rooms (ap_rm a)));
          a1 = on_cl (\<lambda>c. fst (send (pl_draws pl) ''leave'' room (Some JNull) [] c)) a;
          a2 = with_hook pl (cleanupRoom room) a1;
          a3 = on_rm (removeRoom room) a2
      in if room \<noteq> active then a3
         else case remaining of
           next # _ \<Rightarrow> set_active next a3
         | [] \<Rightarrow> leave_last a3)"

section \<open>Effects\<close>

text \<open>On the first render of the chat view the microphone is asked for once; its tracks are stopped at once.\<close>

definition request_microphone :: "'k app \<Rightarrow> 'k app" where
  "request_microphone a =
     (if view (ap_rm a) = ''chat'' \<and> \<not> ap_micRequested a
      then a\<lparr>ap_micRequested := True, ap_micRequests := Suc (ap_micRequests a)\<rparr> else a)"

text \<open>The effects of a render: those of the room manager, \<open>callActiveRef\<close>, the microphone.\<close>

definition render_app :: "'k app \<Rightarrow> 'k app" where
  "render_app a =
     (let a1 = on_rm render a
      in request_microphone (a1\<lparr>ap_callActiveRef := callActive (ap_call a1)\<rparr>))"

text \<open>The cleanup when the application is unmounted; the meshes stay in their map, closed.\<close>

definition unmount :: "platform \<Rightarrow> 'k app \<Rightarrow> 'k app" where
  "unmount pl a =
     (let a1 = a\<lparr>ap_listener := None, ap_keys := stopRotation (ap_keys a), ap_media := destroyAssembler (ap_media a)\<rparr>;
          a2 = (on_cl disconnect a1)\<lparr>ap_observer := False\<rparr>
      in with_hook pl (fold (\<lambda>i. on_mesh i closeAll) (map snd (peerMeshes (ap_hook a2)))) a2)"

section \<open>Resuming\<close>

text \<open>
  The task \<open>i\<close> goes on; a connection that was awaited may have failed. \<open>iv\<close> is what an encryption
  drew, \<open>fresh\<close> the key that was generated.
\<close>

definition resume_task ::
  "'k webcrypto \<Rightarrow> platform \<Rightarrow> int \<Rightarrow> string \<Rightarrow> byte list \<Rightarrow> js_error + 'k \<Rightarrow> bool \<Rightarrow> nat \<Rightarrow> 'k app \<Rightarrow> 'k app" where
  "resume_task P pl intv page iv fresh ok i a =
     (if i < length (ap_tasks a) then
        (let a1 = a\<lparr>ap_tasks := (ap_tasks a)[i := Done]\<rparr> in
         case ap_tasks a ! i of
           Deriving room pp salt presence \<Rightarrow> key_derived P pl room pp salt presence a1
         | Decrypting dat room key p2p \<Rightarrow> chat_decrypted P pl dat room key p2p a1
         | Encrypting room input roomKey nickname \<Rightarrow> message_encrypted P (pl_draws pl) iv room input roomKey nickname a1
         | OpeningKey room payload roomKey \<Rightarrow> background_rotation P pl room payload roomKey a1
         | JoinKeying room w none nickname ttl \<Rightarrow> join_keyed P (pl_draws pl) intv page fresh room w none nickname ttl a1
         | JoinConnecting room shareLink none nickname ttl \<Rightarrow>
             if ok then join_connected (pl_draws pl) intv room shareLink none nickname ttl a1
             else set_status ''error: [object Event]'' a1
         | Done \<Rightarrow> a)
      else a)"

section \<open>Frame rules\<close>

lemma on_rm_frame [simp]:
  "ap_rm (on_rm f a) = f (ap_rm a)" "ap_cl (on_rm f a) = ap_cl a" "ap_hook (on_rm f a) = ap_hook a"
  "ap_keys (on_rm f a) = ap_keys a" "ap_tasks (on_rm f a) = ap_tasks a" "pendingKeyRooms (on_rm f a) = pendingKeyRooms a"
  "pendingMessages (on_rm f a) = pendingMessages a" "ap_listener (on_rm f a) = ap_listener a"
  "ap_typing (on_rm f a) = ap_typing a" "ap_media (on_rm f a) = ap_media a" "ap_call (on_rm f a) = ap_call a"
  by (simp_all add: on_rm_def)

lemma on_cl_frame [simp]:
  "ap_cl (on_cl f a) = f (ap_cl a)" "ap_rm (on_cl f a) = ap_rm a" "ap_hook (on_cl f a) = ap_hook a"
  "ap_keys (on_cl f a) = ap_keys a" "ap_tasks (on_cl f a) = ap_tasks a" "pendingKeyRooms (on_cl f a) = pendingKeyRooms a"
  "pendingMessages (on_cl f a) = pendingMessages a" "ap_listener (on_cl f a) = ap_listener a"
  "ap_typing (on_cl f a) = ap_typing a" "ap_media (on_cl f a) = ap_media a" "ap_call (on_cl f a) = ap_call a"
  by (simp_all add: on_cl_def)

lemma add_task_frame [simp]:
  "ap_tasks (add_task t a) = ap_tasks a @ [t]" "ap_rm (add_task t a) = ap_rm a" "ap_cl (add_task t a) = ap_cl a"
  "ap_hook (add_task t a) = ap_hook a" "ap_keys (add_task t a) = ap_keys a" "ap_typing (add_task t a) = ap_typing a"
  "ap_media (add_task t a) = ap_media a" "ap_call (add_task t a) = ap_call a"
  "pendingKeyRooms (add_task t a) = pendingKeyRooms a" "pendingMessages (add_task t a) = pendingMessages a"
  by (simp_all add: add_task_def)

text \<open>Presence changes rooms and meshes only.\<close>

lemma deliver_p2p_frame:
  "\<forall>x\<in>set xs. \<exists>r. x = SetP2P r False \<Longrightarrow>
     ap_tasks (fold (deliver_out pl) xs a) = ap_tasks a \<and> pendingKeyRooms (fold (deliver_out pl) xs a) = pendingKeyRooms a
     \<and> pendingMessages (fold (deliver_out pl) xs a) = pendingMessages a"
  by (induction xs arbitrary: a) (auto simp: deliver_out_def set_p2p_def)

lemma with_presence_frame:
  "ap_tasks (with_hook pl (handlePresenceMesh r c p s) b) = ap_tasks b"
  "pendingKeyRooms (with_hook pl (handlePresenceMesh r c p s) b) = pendingKeyRooms b"
  "pendingMessages (with_hook pl (handlePresenceMesh r c p s) b) = pendingMessages b"
  using deliver_p2p_frame [of "drop (length (hook_out (ap_hook b))) (hook_out (handlePresenceMesh r c p s (ap_hook b)))" pl
      "b\<lparr>ap_hook := handlePresenceMesh r c p s (ap_hook b)\<rparr>"] presence_outputs [of _ "ap_hook b" r c p s]
  by (simp_all add: with_hook_def)

lemma presence_rest_frame [simp]:
  "ap_tasks (presence_rest pl pr room a) = ap_tasks a" "pendingKeyRooms (presence_rest pl pr room a) = pendingKeyRooms a"
  "pendingMessages (presence_rest pl pr room a) = pendingMessages a"
  by (simp_all add: presence_rest_def Let_def with_presence_frame)

section \<open>Messages wait for the key\<close>

definition chat_in :: "string \<Rightarrow> json \<Rightarrow> bool" where
  "chat_in room dat \<longleftrightarrow>
     is_object (Some dat) \<and> js_get dat ''type'' = Some (JStr ''chat'') \<and> js_get dat ''room'' = Some (JStr room) \<and> room \<noteq> []"

lemma on_message_chat: "chat_in room dat \<Longrightarrow> on_message R pl dat a = on_chat dat a"
  by (simp add: on_message_def chat_in_def)

lemma on_chat_pending:
  "chat_in room dat \<Longrightarrow> room \<in> set (pendingKeyRooms a) \<Longrightarrow>
     on_chat dat a = a\<lparr>pendingMessages := map_set room
       ((case map_get (pendingMessages a) room of None \<Rightarrow> [] | Some q \<Rightarrow> q) @ [dat]) (pendingMessages a)\<rparr>"
  by (simp add: on_chat_def chat_in_def room_of_def Let_def)

lemma on_chat_ready:
  "chat_in room dat \<Longrightarrow> room \<notin> set (pendingKeyRooms a) \<Longrightarrow> on_chat dat a = decryptAndAppendChat dat room False a"
  by (simp add: on_chat_def chat_in_def room_of_def)

lemma fold_chats:
  "\<forall>q\<in>set qs. chat_in room q \<Longrightarrow> fold (\<lambda>q. on_message R pl q) qs a = fold on_chat qs a"
  by (induction qs arbitrary: a) (simp_all add: on_message_chat [of room])

lemma queue_chats:
  "\<forall>q\<in>set qs. chat_in room q \<Longrightarrow> room \<in> set (pendingKeyRooms a) \<Longrightarrow> qs \<noteq> [] \<or> map_get (pendingMessages a) room \<noteq> None \<Longrightarrow>
     map_get (pendingMessages (fold on_chat qs a)) room
       = Some ((case map_get (pendingMessages a) room of None \<Rightarrow> [] | Some q \<Rightarrow> q) @ qs)
     \<and> ap_tasks (fold on_chat qs a) = ap_tasks a \<and> ap_listener (fold on_chat qs a) = ap_listener a"
proof (induction qs arbitrary: a)
  case (Cons q qs)
  let ?q = "case map_get (pendingMessages a) room of None \<Rightarrow> [] | Some q \<Rightarrow> q"
  let ?a = "a\<lparr>pendingMessages := map_set room (?q @ [q]) (pendingMessages a)\<rparr>"
  from Cons.prems have q: "on_chat q a = ?a" by (simp add: on_chat_pending)
  from Cons.IH [of ?a] Cons.prems show ?case by (simp add: q)
qed auto

lemma reemit_chats:
  "ap_listener a \<noteq> None \<Longrightarrow> \<forall>q\<in>set qs. chat_in room q \<Longrightarrow> room \<notin> set (pendingKeyRooms a) \<Longrightarrow>
     map_get (keyRefs (ap_rm a)) room = Some k \<Longrightarrow>
     ap_tasks (fold reemit qs a) = ap_tasks a @ map (\<lambda>q. Decrypting q room (RoomKey k) False) qs
     \<and> pendingKeyRooms (fold reemit qs a) = pendingKeyRooms a \<and> pendingMessages (fold reemit qs a) = pendingMessages a"
proof (induction qs arbitrary: a)
  case (Cons q qs)
  let ?a = "on_cl (emit_event ''message'' (JsonData q)) a"
  have "on_chat q ?a = decryptAndAppendChat q room False ?a" by (rule on_chat_ready) (use Cons.prems in simp_all)
  with Cons.prems have q: "reemit q a = add_task (Decrypting q room (RoomKey k) False) ?a"
    by (auto simp: reemit_def decryptAndAppendChat_def chat_key_of_def Let_def)
  have "ap_listener (reemit q a) \<noteq> None" using Cons.prems(1) by (simp add: q add_task_def)
  from Cons.IH [OF this] Cons.prems show ?case by (simp add: q)
qed simp

section \<open>Properties\<close>

text \<open>
  C11: Messages wait for the key. While a room's key is derived again from the salt of the
  server, the chat messages of the room are not decrypted; once the key is there, each of
  them is handed to decryption exactly once, in the order of arrival, with the new key, and
  the room accepts messages directly again. The message listener, through which the
  messages came and are emitted again, is registered.
\<close>

theorem chats_wait_for_the_derived_key:
  fixes a :: "'k app" and R :: rtc_api and pl :: platform
  assumes "ap_listener a \<noteq> None" and "room \<in> set (pendingKeyRooms a)" and "map_get (pendingMessages a) room = None"
    and "\<forall>q\<in>set qs. chat_in room q" and "deriveRoomKey P room pp (Some salt) = Inr k"
  defines "b \<equiv> fold (\<lambda>q. on_message R pl q) qs a"
  shows "ap_tasks b = ap_tasks a
     \<and> ap_tasks (key_derived P pl room pp salt presence b) = ap_tasks a @ map (\<lambda>q. Decrypting q room (RoomKey (Key k)) False) qs
     \<and> room \<notin> set (pendingKeyRooms (key_derived P pl room pp salt presence b))
     \<and> map_get (pendingMessages (key_derived P pl room pp salt presence b)) room = None"
proof (cases "qs = []")
  case True
  then show ?thesis using assms(3,5) by (simp add: b_def key_derived_def Let_def)
next
  case False
  with queue_chats [OF assms(4,2)] assms(1,3)
  have b: "map_get (pendingMessages b) room = Some qs" "ap_tasks b = ap_tasks a" "ap_listener b \<noteq> None"
    by (auto simp: b_def fold_chats [OF assms(4)])
  let ?c = "on_rm (\<lambda>m. m\<lparr>keyRefs := map_set room (Key k) (keyRefs m),
      activeKeyRef := (if room = activeRoomRef m then Some (Key k) else activeKeyRef m),
      passphraseRefs := map_delete room (passphraseRefs m)\<rparr>) b"
  let ?d = "?c\<lparr>pendingKeyRooms := set_delete room (pendingKeyRooms ?c), pendingMessages := map_delete room (pendingMessages ?c)\<rparr>"
  have "key_derived P pl room pp salt presence b = presence_rest pl presence room (fold reemit qs ?d)"
    using assms(5) b(1) False by (simp add: key_derived_def Let_def)
  moreover have "ap_listener ?d \<noteq> None" "room \<notin> set (pendingKeyRooms ?d)" "map_get (keyRefs (ap_rm ?d)) room = Some (Key k)"
    using b(3) by simp_all
  from reemit_chats [OF this(1) assms(4) this(2,3)]
  have "ap_tasks (fold reemit qs ?d) = ap_tasks b @ map (\<lambda>q. Decrypting q room (RoomKey (Key k)) False) qs
      \<and> pendingKeyRooms (fold reemit qs ?d) = pendingKeyRooms ?d \<and> pendingMessages (fold reemit qs ?d) = pendingMessages ?d"
    by simp
  ultimately show ?thesis using b(2) by simp
qed

definition new_app :: "'k app" where
  "new_app =
     \<lparr>ap_rm = new_room_manager, ap_cl = new_client, ap_hook = new_mesh_hook, ap_keys = new_key_hook, ap_typing = new_typing,
      ap_media = new_media_hook, ap_call = new_call, ap_nickname = [], ap_joinRoom = [], ap_passphrase = [], ap_ttl = 0, ap_peerNicknames = JObj [], ap_intentional = False,
      ap_listener = None, ap_observer = False, ap_joinModal = False, ap_callActiveRef = False, ap_micRequested = False,
      ap_micRequests = 0, pendingKeyRooms = [], pendingMessages = [],
      ap_tasks = [], ap_alerts = []\<rparr>"

definition demo_chat :: "string \<Rightarrow> string \<Rightarrow> json" where
  "demo_chat room payload =
     JObj [(''type'', JStr ''chat''), (''room'', JStr room), (''payload'', JStr payload), (''id'', JStr ''peer-a''), (''msgId'', JStr ''m1'')]"

definition demo_rtc :: rtc_api where
  "demo_rtc = \<lparr>valid_description = (\<lambda>_. True), valid_candidate = (\<lambda>_. True)\<rparr>"

definition demo_platform :: platform where
  "demo_platform =
     \<lparr>pl_draws = \<lparr>d_id = ''i1'', d_msgId = ''m1'', d_now = 0\<rparr>, pl_getUserMedia = True, pl_notifications = False,
      pl_kind = (\<lambda>_. ''audio'')\<rparr>"

lemma chats_wait_for_the_derived_key_witness:
  "\<exists>k. ap_tasks (key_derived demo_crypto demo_platform ''r'' ''pw'' (replicate 32 0) (JObj [])
      (fold (\<lambda>q. on_message demo_rtc demo_platform q) [demo_chat ''r'' ''x'', demo_chat ''r'' ''y'']
        (new_app\<lparr>ap_listener := Some [], pendingKeyRooms := [''r'']\<rparr>)))
   = [Decrypting (demo_chat ''r'' ''x'') ''r'' (RoomKey (Key k)) False,
      Decrypting (demo_chat ''r'' ''y'') ''r'' (RoomKey (Key k)) False]"
proof -
  have "\<exists>k. deriveRoomKey demo_crypto ''r'' ''pw'' (Some (replicate 32 0)) = Inr k"
    by (simp add: deriveRoomKey_def combined_salt_def typed_set_def new_Uint8Array_def demo_crypto_def)
  then obtain k where k: "deriveRoomKey demo_crypto ''r'' ''pw'' (Some (replicate 32 0)) = Inr k" ..
  have chats: "\<forall>q\<in>set [demo_chat ''r'' ''x'', demo_chat ''r'' ''y'']. chat_in ''r'' q"
    by (simp add: chat_in_def demo_chat_def map_get_def)
  from chats_wait_for_the_derived_key [OF _ _ _ chats k, of "new_app\<lparr>ap_listener := Some [], pendingKeyRooms := [''r'']\<rparr>" demo_rtc demo_platform "JObj []"]
  show ?thesis by (auto simp: new_app_def)
qed

section \<open>A chat message from end to end\<close>

text \<open>
  What the gateway (\<^verbatim>\<open>services/gateway/cmd/gateway/main.go\<close>, the chat case and \<open>broadcast\<close>) sends to
  the other members of the room for a chat message it passes on: the \<open>Envelope\<close> with the
  sender's peer id as \<open>id\<close>, the gateway's own time and its signature. Empty strings of the
  fields marked \<open>omitempty\<close> are left out. A payload that is no string is not a message
  for the gateway (\<open>json.Unmarshal\<close> into the \<open>Envelope\<close> fails).
\<close>

definition relayed :: "string \<Rightarrow> int \<Rightarrow> string \<Rightarrow> message \<Rightarrow> json" where
  "relayed sender now sig m =
     js_object [(''id'', Some (JStr sender)), (''msgId'', omitempty (m_msgId m)), (''type'', Some (JStr (m_type m))),
       (''room'', Some (JStr (m_room m))),
       (''payload'', case m_payload m of Some (JStr p) \<Rightarrow> omitempty p | _ \<Rightarrow> None),
       (''timestamp'', Some (JNum now)), (''sig'', omitempty sig)]"

lemma relayed_chat:
  assumes "m_type m = ''chat''" "m_payload m = Some (JStr c)" "c \<noteq> []" "m_msgId m \<noteq> []"
  shows "is_object (Some (relayed sender now sig m))" "js_get (relayed sender now sig m) ''type'' = Some (JStr ''chat'')"
    and "js_get (relayed sender now sig m) ''room'' = Some (JStr (m_room m))"
    and "js_get (relayed sender now sig m) ''payload'' = Some (JStr c)"
    and "js_get (relayed sender now sig m) ''msgId'' = Some (JStr (m_msgId m))"
    and "js_get (relayed sender now sig m) ''id'' = Some (JStr sender)"
  using assms by (simp_all add: relayed_def omitempty_def map_get_def List.map_filter_simps)

lemma send_chat_open:
  "socket_open c \<Longrightarrow> msgId \<noteq> [] \<Longrightarrow> send d ''chat'' room p msgId c =
     (ws_send (Msg \<lparr>m_id = d_id d, m_msgId = msgId, m_type = ''chat'', m_room = room, m_payload = p, m_timestamp = d_now d\<rparr>) c, True)"
  by (simp add: send_def track_room_def make_message_def Let_def)

lemma encrypted_over_socket:
  fixes d :: draws
  assumes "encrypt P iv k input = Inr c" "\<forall>text. \<not> snd (send_p2p room text (ap_hook a))" "socket_open (ap_cl a)" "d_msgId d \<noteq> []"
  defines "m \<equiv> \<lparr>m_id = d_id d, m_msgId = d_msgId d, m_type = ''chat'', m_room = room, m_payload = Some (JStr c), m_timestamp = d_now d\<rparr>"
  shows "ap_cl (message_encrypted P d iv room input (Key k) nickname a) = ws_send (Msg m) (ap_cl a)"
  using assms by (simp add: message_encrypted_def send_chat_open Let_def)

lemma no_mesh_no_p2p: "map_get (peerMeshes h) room = None \<Longrightarrow> \<not> snd (send_p2p room text h)"
  by (simp add: send_p2p_def)

lemma ciphertext_not_Nil:
  assumes "length iv = IV_LENGTH" "encrypt P iv k input = Inr c"
  shows "c \<noteq> []"
proof -
  obtain ct where "c = uint8ToBase64 (iv @ ct)" using assms(2) by (auto simp: encrypt_def bind_Inr prepend_iv_eq)
  moreover have "length (btoa (iv @ ct)) \<noteq> 0" unfolding length_btoa using assms(1) by (simp add: IV_LENGTH_def)
  ultimately show ?thesis by (auto simp: uint8ToBase64_eq)
qed

lemma chat_decrypted_shown:
  assumes "map_get (rooms (ap_rm a)) room = Some s" "decrypt P k (js_string (js_get dat ''payload'')) = Inr input"
    and "length input \<le> MAX_TEXT_LENGTH" "input \<noteq> KEY_MISMATCH_TEXT" "js_get dat ''msgId'' = Some (JStr mid)" "mid \<noteq> []"
  shows "\<exists>s' msg. map_get (rooms (ap_rm (chat_decrypted P pl dat room (RoomKey (Key k)) p2p a))) room = Some s'
     \<and> r_messages s' = kept_messages (r_messages s @ [msg]) \<and> cm_text msg = input \<and> \<not> cm_error msg
     \<and> cm_id msg = JStr mid \<and> cm_sender msg = js_get dat ''id'' \<and> cm_own msg = False \<and> cm_p2p msg = p2p"
  using assms(2-) by (auto simp: chat_decrypted_def Let_def append_existing(1) [OF assms(1)] chat_message_def decrypt_chat_def
      chat_text_def app_msg_def js_or_def)

text \<open>
  C6: A chat message arrives as written. When no data channel of the room takes it, whether the
  room has no mesh, no connected peer or its channel is not open, a message goes to the open
  socket as ciphertext; and whatever time and signature the gateway puts into the envelope
  that it broadcasts for it, every receiver that holds the room's key shows the text as it
  was typed, with the id the sender gave it and the sender's peer id, and not as an error.
  The text must not be longer than 50000 characters, start with a byte order mark or be
  the very text that stands for an undecryptable message.
\<close>

theorem chat_arrives_as_written:
  fixes a b :: "'k app" and R :: rtc_api and pl pl' :: platform and now :: int and sig :: string
  assumes "aes_gcm_correct P" and "length iv = IV_LENGTH"
    and "utf8 input" and "take 3 (text_encode input) \<noteq> bom" and "length input \<le> 50000" and "input \<noteq> KEY_MISMATCH_TEXT"
    and "\<forall>text. \<not> snd (send_p2p room text (ap_hook a))" and "socket_open (ap_cl a)" and "d_msgId d \<noteq> []" and "room \<noteq> []"
    and "map_get (rooms (ap_rm b)) room = Some s" and "room \<notin> set (pendingKeyRooms b)"
    and "map_get (keyRefs (ap_rm b)) room = Some (Key k)"
  shows "\<exists>m c s' msg. ap_cl (message_encrypted P d iv room input (Key k) nickname a) = ws_send (Msg m) (ap_cl a)
     \<and> encrypt P iv k input = Inr c \<and> m_type m = ''chat'' \<and> m_room m = room \<and> m_payload m = Some (JStr c)
     \<and> map_get (rooms (ap_rm (resume_task P pl' intv page iv' fresh ok (length (ap_tasks b))
          (on_message R pl (relayed sender now sig m) b)))) room = Some s'
     \<and> r_messages s' = kept_messages (r_messages s @ [msg])
     \<and> cm_text msg = input \<and> \<not> cm_error msg \<and> cm_id msg = JStr (d_msgId d) \<and> cm_sender msg = Some (JStr sender)"
proof -
  obtain c where c: "encrypt P iv k input = Inr c" "decrypt P k c = Inr input"
    using encrypt_Inr [OF assms(1,2), of k input] text_decode_encode [OF assms(3,4)] by metis
  define m where "m = \<lparr>m_id = d_id d, m_msgId = d_msgId d, m_type = ''chat'', m_room = room, m_payload = Some (JStr c), m_timestamp = d_now d\<rparr>"
  have sent: "ap_cl (message_encrypted P d iv room input (Key k) nickname a) = ws_send (Msg m) (ap_cl a)"
    unfolding m_def by (rule encrypted_over_socket [OF c(1) assms(7,8,9)])
  have m: "m_type m = ''chat''" "m_room m = room" "m_payload m = Some (JStr c)" "m_msgId m = d_msgId d" by (simp_all add: m_def)
  let ?dat = "relayed sender now sig m"
  note dat = relayed_chat [OF m(1,3) ciphertext_not_Nil [OF assms(2) c(1)], unfolded m(2,4), OF assms(9), of sender now sig]
  have "chat_in room ?dat" using dat(1-3) assms(10) by (simp add: chat_in_def)
  then have got: "on_message R pl ?dat b = decryptAndAppendChat ?dat room False b"
    using assms(12) by (simp add: on_message_chat on_chat_ready)
  let ?b = "(decryptAndAppendChat ?dat room False b)
      \<lparr>ap_tasks := (ap_tasks b @ [Decrypting ?dat room (RoomKey (Key k)) False])[length (ap_tasks b) := Done]\<rparr>"
  have resumed: "resume_task P pl' intv page iv' fresh ok (length (ap_tasks b)) (on_message R pl ?dat b)
      = chat_decrypted P pl' ?dat room (RoomKey (Key k)) False ?b"
    unfolding got by (simp add: resume_task_def decryptAndAppendChat_def chat_key_of_def assms(13))
  have known: "map_get (rooms (ap_rm ?b)) room = Some s" using assms(11) by (simp add: decryptAndAppendChat_def)
  have plain: "decrypt P k (js_string (js_get ?dat ''payload'')) = Inr input" using dat(4) c(2) by (simp add: js_string_def)
  have fits: "length input \<le> MAX_TEXT_LENGTH" using assms(5) by (simp add: MAX_TEXT_LENGTH_def)
  from chat_decrypted_shown [OF known plain fits assms(6) dat(5) assms(9), of pl' False]
  obtain s' msg where shown:
    "map_get (rooms (ap_rm (chat_decrypted P pl' ?dat room (RoomKey (Key k)) False ?b))) room = Some s'"
    "r_messages s' = kept_messages (r_messages s @ [msg])" "cm_text msg = input" "\<not> cm_error msg"
    "cm_id msg = JStr (d_msgId d)" "cm_sender msg = js_get ?dat ''id''"
    by blast
  have from_sender: "cm_sender msg = Some (JStr sender)" using shown(6) dat(6) by (rule trans)
  have state: "map_get (rooms (ap_rm (resume_task P pl' intv page iv' fresh ok (length (ap_tasks b)) (on_message R pl ?dat b)))) room = Some s'"
    unfolding resumed by (rule shown(1))
  show ?thesis
    by (rule exI [of _ m], rule exI [of _ c], rule exI [of _ s'], rule exI [of _ msg])
      (intro conjI sent c(1) m(1-3) state shown(2-5) from_sender)
qed

definition open_client :: client where
  "open_client = (connect new_client)\<lparr>sockets := [\<lparr>sk_state = OPEN, sk_settled = True, sk_promise = Resolved, sk_sent = []\<rparr>]\<rparr>"

definition demo_receiver :: "byte app" where
  "demo_receiver = new_app\<lparr>ap_rm := new_room_manager\<lparr>rooms := [(''r'', defaultRoomState)], keyRefs := [(''r'', Key 7)]\<rparr>\<rparr>"

lemma chat_arrives_as_written_witness:
  "\<exists>m s' msg. ap_cl (message_encrypted demo_crypto (pl_draws demo_platform) (replicate 12 0) ''r'' ''hi'' (Key 7) []
        (new_app\<lparr>ap_cl := open_client\<rparr>)) = ws_send (Msg m) open_client
   \<and> map_get (rooms (ap_rm (resume_task demo_crypto demo_platform 0 [] [] (Inr 0) True 0
        (on_message demo_rtc demo_platform (relayed ''peer-a'' 1700000000000 ''ab'' m) demo_receiver)))) ''r'' = Some s'
   \<and> r_messages s' = [msg] \<and> cm_text msg = ''hi''"
proof -
  have "socket_open open_client" by (simp add: open_client_def socket_open_def connect_def new_client_def)
  moreover have "utf8 ''hi''" by (rule utf8_ascii) simp
  moreover have "KEY_MISMATCH_TEXT \<noteq> ''hi''" by (simp add: KEY_MISMATCH_TEXT_def)
  moreover have "\<forall>text. \<not> snd (send_p2p ''r'' text (ap_hook (new_app\<lparr>ap_cl := open_client\<rparr>)))"
    by (simp add: send_p2p_def new_app_def new_mesh_hook_def map_get_def)
  moreover have "length (ap_tasks demo_receiver) = 0" by (simp add: demo_receiver_def new_app_def)
  moreover have "kept_messages (r_messages defaultRoomState @ [msg]) = [msg]" for msg
    by (simp add: kept_messages_def defaultRoomState_def MAX_MESSAGES_def)
  ultimately show ?thesis
    using chat_arrives_as_written [OF demo_crypto_ok(1), of "replicate 12 0" "''hi''" "''r''" "new_app\<lparr>ap_cl := open_client\<rparr>"
        "pl_draws demo_platform" demo_receiver defaultRoomState 7 "[]" demo_platform 0 "[]" "[]" "Inr 0" True demo_rtc demo_platform "''peer-a''" 1700000000000 "''ab''"]
      ascii_start_no_bom [of "CHR ''h''" "''i''"]
    by (fastforce simp: IV_LENGTH_def demo_receiver_def new_app_def new_room_manager_def map_get_def demo_platform_def)
qed

end
