(* ===== verification/Wire.thy ===== *)
theory Wire
  imports MeshHook
begin

text \<open>
  What the WebSocket client (\<^verbatim>\<open>apps/trapchat/src/socket/client.js\<close>) writes: the messages on its
  sockets and in its queue, and which of its operations can add content to them: a chat
  message, a chunk of a file or a new key. Only a call of \<open>send\<close> with such a type can;
  opening, reconnecting, flushing and signalling cannot.
\<close>

text \<open>The events of the platform at the client; calls of its methods are made by App.\<close>

fun by_network :: "client_event \<Rightarrow> bool" where
  "by_network (SockOpen i ds) = True"
| "by_network (SockError i) = True"
| "by_network (SockClose i r) = True"
| "by_network (SockMessage i text) = True"
| "by_network (CTimer t) = True"
| "by_network _ = False"

section \<open>The messages a client has written\<close>

text \<open>Those that went out over one of its sockets, and those that wait in its queue.\<close>

definition written :: "client \<Rightarrow> message set" where
  "written c = {m. \<exists>s\<in>set (sockets c). Msg m \<in> set (sk_sent s)} \<union> snd ` set (pendingQueue c)"

lemma written_cong: "sockets d = sockets c \<Longrightarrow> pendingQueue d = pendingQueue c \<Longrightarrow> written d = written c"
  by (simp add: written_def)

lemma written_emit [simp]: "written (emit_event ev x c) = written c"
  by (rule written_cong) simp_all

lemma written_drop_queue: "sockets d = sockets c \<Longrightarrow> pendingQueue d = [] \<Longrightarrow> written d \<subseteq> written c"
  by (auto simp: written_def)

lemma written_update_socket:
  assumes "\<And>s. set (sk_sent (f s)) \<subseteq> insert x (set (sk_sent s))"
  shows "written (update_socket i f c) \<subseteq> {m. Msg m = x} \<union> written c"
proof (cases "i < length (sockets c)")
  case True
  then show ?thesis
    using assms [of "sockets c ! i"] by (fastforce simp: written_def dest!: set_update_subset_insert [THEN subsetD])
next
  case False
  then have "written (update_socket i f c) = written c" by (intro written_cong) (simp_all add: list_update_beyond)
  then show ?thesis by simp
qed

lemma written_same_socket: "(\<And>s. sk_sent (f s) = sk_sent s) \<Longrightarrow> written (update_socket i f c) \<subseteq> written c"
  using written_update_socket [of f "RawText []" i c] by auto

lemma written_ws_send: "written (ws_send x c) \<subseteq> {m. Msg m = x} \<union> written c"
  unfolding ws_send_def by (auto split: option.split dest!: written_update_socket [THEN subsetD, rotated])

text \<open>A call of \<open>send\<close> writes at most its own message.\<close>

lemma written_queue: "written (c\<lparr>pendingQueue := pendingQueue c @ [(room, m)]\<rparr>) = insert m (written c)"
  by (auto simp: written_def)

lemma written_send:
  "written (fst (send d ty room p mid c)) \<subseteq> insert (make_message d ty room p mid) (written c)"
proof (cases "track_room ty room p (joinedRooms c)")
  case None
  then show ?thesis by (auto simp: send_def)
next
  case (Some rs)
  have same: "written (c\<lparr>joinedRooms := rs\<rparr>) = written c" by (rule written_cong) simp_all
  have queued: "written (c\<lparr>joinedRooms := rs, pendingQueue := pendingQueue c @ [(room, m)]\<rparr>) = insert m (written c)" for m
    using written_queue [of "c\<lparr>joinedRooms := rs\<rparr>"] same by simp
  show ?thesis
    using Some written_ws_send [of "Msg (make_message d ty room p mid)" "c\<lparr>joinedRooms := rs\<rparr>"]
    by (auto simp: send_def Let_def same queued)
qed

lemma written_flush: "written (flush_loop q c) \<subseteq> snd ` set q \<union> written c"
proof (induction q c rule: flush_loop.induct)
  case (2 room msg q c)
  then show ?case using written_ws_send [of "Msg msg" c] by (auto split: if_splits)
qed simp

lemma written_flushQueue: "written (flushQueue c) \<subseteq> written c"
  using written_flush [of "pendingQueue c" "c\<lparr>pendingQueue := []\<rparr>"] by (auto simp: flushQueue_def written_def)

text \<open>The messages that carry what the users write, share and encrypt with.\<close>

definition is_content :: "string \<Rightarrow> bool" where
  "is_content ty \<longleftrightarrow> ty = ''chat'' \<or> ty = ''media'' \<or> ty = ''key_rotation''"

lemma content_types [simp]:
  "is_content ''chat''" "is_content ''media''" "is_content ''key_rotation''"
  "\<not> is_content ''join''" "\<not> is_content ''leave''" "\<not> is_content ''typing''" "\<not> is_content ''receipt''"
  "\<not> is_content ''call_offer''" "\<not> is_content ''call_answer''" "\<not> is_content ''call_end''"
  by (simp_all add: is_content_def)

text \<open>An operation of the client that writes no content and keeps the client's invariant.\<close>

definition no_new_content :: "client \<Rightarrow> client \<Rightarrow> bool" where
  "no_new_content c d \<longleftrightarrow> client_inv d \<and> (\<forall>m\<in>written d. m \<in> written c \<or> \<not> is_content (m_type m))"

lemma no_new_content_subset: "client_inv d \<Longrightarrow> written d \<subseteq> written c \<Longrightarrow> no_new_content c d"
  by (auto simp: no_new_content_def)

lemma no_new_content_send: "client_inv c \<Longrightarrow> \<not> is_content ty \<Longrightarrow> no_new_content c (fst (send d ty room p mid c))"
  using written_send [of d ty room p mid c] by (auto simp: no_new_content_def client_inv_send make_message_def)

lemma written_rejoin: "\<forall>m\<in>written (rejoin_loop ds k rs c). m \<in> written c \<or> m_type m = ''join''"
proof (induction ds k rs c rule: rejoin_loop.induct)
  case (2 ds k room p rs c)
  then show ?case using written_send [of "ds k" "''join''" room p "[]" c] by (fastforce simp: make_message_def)
qed simp

lemma written_onopen: "\<forall>m\<in>written (onopen ds i c). m \<in> written c \<or> m_type m = ''join''"
proof -
  define c2 where "c2 = emit_event ''open'' NoData ((update_socket i (\<lambda>s. s\<lparr>sk_settled := True\<rparr>) c)\<lparr>reconnectAttempts := 0\<rparr>)"
  define c3 where "c3 = (if reconnecting c2 \<and> joinedRooms c2 \<noteq> []
      then (rejoin_loop ds 0 (joinedRooms c2) c2)\<lparr>reconnecting := False\<rparr> else c2)"
  have "written c2 = written (update_socket i (\<lambda>s. s\<lparr>sk_settled := True\<rparr>) c)"
    unfolding c2_def by (simp, rule written_cong) simp_all
  with written_same_socket [of "\<lambda>s. s\<lparr>sk_settled := True\<rparr>" i c] have 2: "written c2 \<subseteq> written c" by simp
  have "written ((rejoin_loop ds 0 (joinedRooms c2) c2)\<lparr>reconnecting := False\<rparr>) = written (rejoin_loop ds 0 (joinedRooms c2) c2)"
    by (rule written_cong) simp_all
  with written_rejoin [of ds 0 "joinedRooms c2" c2] have 3: "\<forall>m\<in>written c3. m \<in> written c2 \<or> m_type m = ''join''"
    by (simp add: c3_def)
  have "onopen ds i c = update_socket i (\<lambda>s. s\<lparr>sk_promise := Resolved\<rparr>) (flushQueue c3)"
    by (simp add: onopen_def c2_def c3_def Let_def)
  with written_same_socket [of "\<lambda>s. s\<lparr>sk_promise := Resolved\<rparr>" i "flushQueue c3"] written_flushQueue [of c3]
  have "written (onopen ds i c) \<subseteq> written c3" by auto
  with 2 3 show ?thesis by blast
qed

lemma written_close:
  "written (onerror i c) \<subseteq> written c" "written (onclose r i c) \<subseteq> written c" "written (connect c) \<subseteq> written c"
  "written (disconnect c) \<subseteq> written c" "written (onmessage text c) \<subseteq> written c"
proof -
  have attempt: "written (attemptReconnect r c) = written c" for c
    unfolding attemptReconnect_def Let_def by (auto intro!: written_cong)
  show "written (onclose r i c) \<subseteq> written c" by (simp add: onclose_def Let_def attempt)
  show "written (onerror i c) \<subseteq> written c"
    using written_same_socket [of "\<lambda>s. s\<lparr>sk_settled := True, sk_promise := Rejected\<rparr>" i "emit_event ''error'' SocketEvent c"]
    by (simp add: onerror_def Let_def)
  show "written (connect c) \<subseteq> written c" by (auto simp: connect_def written_def)
  have "written (c\<lparr>peerId := p\<rparr>) = written c" for p by (rule written_cong) simp_all
  then show "written (onmessage text c) \<subseteq> written c" by (simp add: onmessage_def Let_def split: option.split json.split)
  let ?c = "(clearReconnect c)\<lparr>joinedRooms := [], pendingQueue := []\<rparr>"
  have "written ?c \<subseteq> written c" by (rule written_drop_queue) (simp_all add: clearReconnect_def Let_def split: option.split)
  moreover have "written ((update_socket i close_socket ?c)\<lparr>ws := None\<rparr>) = written (update_socket i close_socket ?c)" for i
    by (rule written_cong) simp_all
  moreover have "written (update_socket i close_socket ?c) \<subseteq> written ?c" for i
    by (rule written_same_socket) (simp add: close_socket_def)
  ultimately show "written (disconnect c) \<subseteq> written c"
    by (simp add: disconnect_def Let_def split: option.split) (meson subset_trans)
qed

lemma no_new_content_network:
  assumes "client_inv c" "by_network e"
  shows "no_new_content c (client_step c e)"
proof -
  have state: "written (update_socket i (\<lambda>s. s\<lparr>sk_state := x\<rparr>) c) \<subseteq> written c" for i x
    by (rule written_same_socket) simp
  have timer: "written (connect (c\<lparr>live_timers := ts\<rparr>)) \<subseteq> written c" for ts
    using written_close(3) [of "c\<lparr>live_timers := ts\<rparr>"] written_cong [of "c\<lparr>live_timers := ts\<rparr>" c] by simp
  have "\<forall>m\<in>written (client_step c e). m \<in> written c \<or> m_type m = ''join''"
  proof (cases e)
    case (SockOpen i ds)
    with state [of i OPEN] written_onopen [of ds i "update_socket i (\<lambda>s. s\<lparr>sk_state := OPEN\<rparr>) c"] show ?thesis by auto
  next
    case (SockClose i r)
    with state [of i CLOSED] written_close(2) [of r i "update_socket i (\<lambda>s. s\<lparr>sk_state := CLOSED\<rparr>) c"] show ?thesis by auto
  next
    case (CTimer t)
    with timer [of "removeAll t (live_timers c)"] show ?thesis by auto
  next
    case (SockMessage i msg)
    with written_close(5) [of msg c] show ?thesis by auto
  next
    case (SockError i)
    with written_close(1) [of i c] show ?thesis by auto
  qed (use assms(2) in auto)
  then show ?thesis using assms(1) by (auto simp: no_new_content_def client_inv_step)
qed

lemma no_new_content_ops:
  "client_inv c \<Longrightarrow> no_new_content c (connect c)" "client_inv c \<Longrightarrow> no_new_content c (disconnect c)"
  "client_inv c \<Longrightarrow> no_new_content c (emit_event ev x c)" "client_inv c \<Longrightarrow> no_new_content c (deliver d out c)"
proof -
  assume inv: "client_inv c"
  note ops = client_inv_step [OF inv]
  show "no_new_content c (connect c)" using ops [of CConnect] written_close(3) by (simp add: no_new_content_subset)
  show "no_new_content c (disconnect c)" using ops [of CDisconnect] written_close(4) by (simp add: no_new_content_subset)
  have emit: "no_new_content c (emit_event ev x c)" for ev x
    using ops [of "CEmit ev x"] by (simp add: no_new_content_subset)
  then show "no_new_content c (emit_event ev x c)" .
  have "written (fst (sendRaw msg c)) \<subseteq> written c" for msg
    using written_ws_send [of "RawText msg" c] by (auto simp: sendRaw_def)
  then have "no_new_content c (fst (sendRaw msg c))" for msg
    using ops [of "CSendRaw msg"] by (simp add: no_new_content_subset)
  then show "no_new_content c (deliver d out c)"
    using emit no_new_content_subset [OF inv, of c]
    by (simp add: deliver_def sendSignal_def emitP2P_def split: hook_output.split)
qed

end
