(* ===== verification/Outgoing.thy ===== *)
theory Outgoing
  imports Wire MediaHook KeyRotation
begin

text \<open>
  What leaves the browser besides the messages of the WebSocket client, which are in
  \<open>Wire\<close>: the texts sent over the data channels of \<^verbatim>\<open>lib/webrtc.js\<close>, the chunks that
  \<^verbatim>\<open>hooks/useMediaTransfer.js\<close> hands to the client and the keys that
  \<^verbatim>\<open>hooks/useKeyRotation.js\<close> announces. For each hook: which of its operations can add to
  them, and that what they add is encrypted.
\<close>

section \<open>Data channels\<close>

text \<open>Every text that was sent over a channel is in \<open>T\<close>.\<close>

definition conn_says :: "string set \<Rightarrow> conn \<Rightarrow> bool" where
  "conn_says T c \<longleftrightarrow> (\<forall>x\<in>set (channels c). set (ch_sent x) \<subseteq> T)"

definition mesh_says :: "string set \<Rightarrow> mesh \<Rightarrow> bool" where
  "mesh_says T m \<longleftrightarrow> (\<forall>c\<in>set (conns m). conn_says T c)"

definition channel_texts :: "mesh_hook \<Rightarrow> string set" where
  "channel_texts h = {t. \<exists>m\<in>set (meshes h). \<exists>c\<in>set (conns m). \<exists>x\<in>set (channels c). t \<in> set (ch_sent x)}"

lemma channel_texts_says: "channel_texts h \<subseteq> T \<longleftrightarrow> (\<forall>m\<in>set (meshes h). mesh_says T m)"
  unfolding channel_texts_def mesh_says_def conn_says_def by blast

text \<open>Only \<open>send\<close> and the events of a channel touch the channels.\<close>

lemma channels_same [simp]:
  "channels (update_rtc i f c) = channels c" "channels (await_call i k c) = channels c" "channels (reject_call e c) = channels c"
  "channels (callback b c) = channels c" "channels (send_signal ty d c) = channels c" "channels (warn_candidate w k' c) = channels c"
  "channels (create_rtc b' c) = channels c" "channels (offer_fails w e c) = channels c" "channels (add_ice i k' c) = channels c"
  by (simp_all add: conn_prims add_ice_def offer_fails_def)

lemma channels_on_pc: "(\<And>i. channels (f i) = x) \<Longrightarrow> channels d = x \<Longrightarrow> channels (on_pc c f d) = x"
  by (simp add: on_pc_def split: option.split)

lemma channels_flush [simp]: "channels (flush_candidates P a r ks c) = channels c"
  by (induction P a r ks c rule: flush_candidates.induct) (simp_all split: option.split)

lemma channels_resume: "channels (resume P r k v c) = channels c"
  by (induction P r k v c rule: resume.induct)
    (auto simp: flushPendingCandidates_def Let_def intro!: channels_on_pc)

lemma channels_add_tracks: "channels (fst (add_tracks i ts c)) = channels c"
  by (induction i ts c rule: add_tracks.induct) simp_all

lemma channels_ops:
  "channels (handleOffer P sdp c) = channels c" "channels (handleAnswer P sdp c) = channels c"
  "channels (handleIceCandidate P k c) = channels c" "channels (fst (addLocalStream ts c)) = channels c"
  "channels (removeLocalStream c) = channels c" "channels (negotiation_needed c) = channels c"
  "channels (settle P n v c) = channels c" "channels (connection_state_changed c) = channels c"
  by (auto simp: handleOffer_def handleAnswer_def handleIceCandidate_def addLocalStream_def removeLocalStream_def
      negotiation_needed_def settle_def connection_state_changed_def channels_resume channels_add_tracks Let_def
      intro!: channels_on_pc split: option.split)

lemma conn_says_channels: "channels d = channels c \<Longrightarrow> conn_says T c \<Longrightarrow> conn_says T d"
  by (simp add: conn_says_def)

lemma conn_says_update:
  assumes "conn_says T c" "\<And>x. set (ch_sent x) \<subseteq> T \<Longrightarrow> set (ch_sent (f x)) \<subseteq> T"
  shows "conn_says T (update_channel i f c)"
proof (cases "i < length (channels c)")
  case True
  with assms show ?thesis
    by (auto simp: conn_says_def update_channel_def dest!: set_update_subset_insert [THEN subsetD]) (meson nth_mem subsetD)
next
  case False
  with assms(1) show ?thesis by (simp add: conn_says_def update_channel_def list_update_beyond)
qed

lemma conn_says_frame [simp]:
  "conn_says T (c\<lparr>c_dc := x\<rparr>) = conn_says T c" "conn_says T (c\<lparr>c_connected := b\<rparr>) = conn_says T c"
  "conn_says T (callback y c) = conn_says T c" "conn_says T (update_rtc i f c) = conn_says T c"
  "conn_says T (c\<lparr>c_pc := x\<rparr>) = conn_says T c"
  by (simp_all add: conn_says_def)

lemma conn_says_ops:
  "conn_says T c \<Longrightarrow> conn_says T (handleOffer P sdp c)" "conn_says T c \<Longrightarrow> conn_says T (handleAnswer P sdp c)"
  "conn_says T c \<Longrightarrow> conn_says T (handleIceCandidate P k c)" "conn_says T c \<Longrightarrow> conn_says T (fst (addLocalStream ts c))"
  "conn_says T c \<Longrightarrow> conn_says T (removeLocalStream c)" "conn_says T c \<Longrightarrow> conn_says T (pc_createOffer c)"
  by (auto intro: conn_says_channels [OF channels_ops(1)] conn_says_channels [OF channels_ops(2)]
      conn_says_channels [OF channels_ops(3)] conn_says_channels [OF channels_ops(4)] conn_says_channels [OF channels_ops(5)])
    (simp add: pc_createOffer_def conn_says_def Let_def)

lemma end_channel_sent [simp]: "ch_sent (end_channel x) = ch_sent x"
  by (simp add: end_channel_def)

lemma conn_says_close: "conn_says T c \<Longrightarrow> conn_says T (pc_close c)"
proof -
  assume "conn_says T c"
  then have "conn_says T (close_channel (c\<lparr>c_connected := False\<rparr>))"
    by (auto simp: close_channel_def intro!: conn_says_update split: option.split if_splits)
  moreover have "conn_says T (close_rtc d)" if "conn_says T d" for d
    using that by (auto simp: close_rtc_def conn_says_def update_rtc_def split: option.split)
  ultimately show ?thesis by (simp add: pc_close_def)
qed

lemma conn_says_send: "conn_says T c \<Longrightarrow> conn_says (insert t T) (fst (pc_send t c))"
  by (auto simp: pc_send_def intro!: conn_says_update split: option.split) (auto simp: conn_says_def)

lemma conn_says_step: "conn_says T c \<Longrightarrow> conn_says T (rtc_step P c e)"
proof (cases e)
  case (Settle n v)
  assume "conn_says T c"
  with Settle show ?thesis by (simp add: conn_says_def channels_ops)
next
  case (ChannelOpen d)
  assume "conn_says T c"
  with ChannelOpen show ?thesis by (auto intro!: conn_says_update)
next
  case (ChannelClose d)
  assume "conn_says T c"
  with ChannelClose show ?thesis by (auto intro!: conn_says_update)
qed (auto simp: conn_says_def channels_ops)

lemma mesh_says_update: "mesh_says T m \<Longrightarrow> (\<And>c. conn_says T c \<Longrightarrow> conn_says T (f c)) \<Longrightarrow> mesh_says T (update_conn i f m)"
proof (cases "i < length (conns m)")
  case True
  assume "mesh_says T m" "\<And>c. conn_says T c \<Longrightarrow> conn_says T (f c)"
  with True show ?thesis by (auto simp: mesh_says_def update_conn_def dest!: set_update_subset_insert [THEN subsetD])
qed (simp add: mesh_says_def update_conn_def list_update_beyond)

lemma mesh_says_frame [simp]: "mesh_says T (m\<lparr>connections := cs\<rparr>) = mesh_says T m"
  by (simp add: mesh_says_def)

lemma mesh_says_fold:
  "mesh_says T m \<Longrightarrow> (\<And>c. conn_says T c \<Longrightarrow> conn_says T (f c)) \<Longrightarrow> mesh_says T (fold (\<lambda>i. update_conn i f) is m)"
  by (induction "is" arbitrary: m) (simp_all add: mesh_says_update)

lemma mesh_says_add: "mesh_says T m \<Longrightarrow> mesh_says T (addPeer peer initiator m)"
proof -
  assume "mesh_says T m"
  then have "mesh_says T (insert_conn peer m)" by (auto simp: mesh_says_def insert_conn_def conn_says_def new_conn_def)
  then show ?thesis using \<open>mesh_says T m\<close> by (simp add: addPeer_insert mesh_says_update conn_says_ops)
qed

lemma mesh_says_broadcast: "mesh_says T m \<Longrightarrow> mesh_says T (fst (broadcast_loop s is m))"
proof (induction s "is" m rule: broadcast_loop.induct)
  case (2 s i "is" m)
  have "mesh_says T (update_conn i (\<lambda>c. fst (addLocalStream s c)) m)"
    by (rule mesh_says_update) (simp_all add: 2 conn_says_ops)
  then have "mesh_says T (update_conn i (\<lambda>_. fst (addLocalStream s (conns m ! i))) m)" by (simp add: update_conn_def)
  with 2 show ?case by (auto split: prod.split option.split)
qed simp

lemma mesh_says_ops:
  "mesh_says T m \<Longrightarrow> mesh_says T (closeAll m)" "mesh_says T m \<Longrightarrow> mesh_says T (removePeer peer m)"
  "mesh_says T m \<Longrightarrow> mesh_says T (removeAllStreams m)" "mesh_says T m \<Longrightarrow> mesh_says T (fst (broadcastStream s m))"
  "mesh_says T m \<Longrightarrow> mesh_says T (mesh_handleSignal P sender ty dat m)"
  by (auto simp: closeAll_def removePeer_def removeAllStreams_def broadcastStream_def mesh_handleSignal_def
      mesh_says_broadcast conn_says_close conn_says_ops intro!: mesh_says_fold mesh_says_update split: option.split)

text \<open>Only \<open>SendTo\<close> sends, and what it is given.\<close>

lemma mesh_says_step:
  "mesh_says T m \<Longrightarrow> mesh_says (case e of SendTo peer t \<Rightarrow> insert t T | _ \<Rightarrow> T) (mesh_step P m e)"
proof (cases e)
  case (SendTo peer t)
  assume m: "mesh_says T m"
  then have m': "mesh_says (insert t T) m" by (fastforce simp: mesh_says_def conn_says_def)
  have "mesh_says (insert t T) (update_conn i (fst \<circ> pc_send t) m)" for i
    by (rule mesh_says_update [OF m']) (use conn_says_send [of "insert t T" _ t] in simp)
  with m' SendTo show ?thesis by (simp split: option.split)
qed (simp_all add: mesh_says_ops mesh_says_add mesh_says_update conn_says_step)

text \<open>A step of the hook that keeps its invariant and sends nothing over a channel.\<close>

definition hook_quiet :: "mesh_hook \<Rightarrow> mesh_hook \<Rightarrow> bool" where
  "hook_quiet h h' \<longleftrightarrow> hook_ok h' \<and> channel_texts h' \<subseteq> channel_texts h"

lemma channel_texts_on_mesh:
  assumes "\<And>T m. mesh_says T m \<Longrightarrow> mesh_says T (f m)" "channel_texts h \<subseteq> T"
  shows "channel_texts (on_mesh i f h) \<subseteq> T"
proof (cases "i < length (meshes h)")
  case True
  with assms show ?thesis
    by (auto simp: channel_texts_says on_mesh_def dest!: set_update_subset_insert [THEN subsetD])
next
  case False
  with assms(2) show ?thesis by (simp add: channel_texts_says on_mesh_def list_update_beyond)
qed

lemma channel_texts_frame [simp]:
  "channel_texts (h\<lparr>peerMeshes := p\<rparr>) = channel_texts h" "channel_texts (h\<lparr>prevPeerCount := q\<rparr>) = channel_texts h"
  "channel_texts (h\<lparr>offer_timers := ts\<rparr>) = channel_texts h" "channel_texts (h\<lparr>pending_offers := ps\<rparr>) = channel_texts h"
  "channel_texts (h\<lparr>hook_out := os\<rparr>) = channel_texts h" "channel_texts (createMesh room h) = channel_texts h"
  by (simp_all add: channel_texts_def createMesh_def new_mesh_def)

lemma channel_texts_fold:
  "channel_texts h \<subseteq> T \<Longrightarrow> (\<And>T m. mesh_says T m \<Longrightarrow> mesh_says T (f m)) \<Longrightarrow> channel_texts (fold (\<lambda>i. on_mesh i f) is h) \<subseteq> T"
  by (induction "is" arbitrary: h) (simp_all add: channel_texts_on_mesh)

fun sends_text :: "hook_event \<Rightarrow> bool" where
  "sends_text (HkMesh i (SendTo peer t)) = True"
| "sends_text _ = False"

lemma channel_texts_step:
  assumes "\<not> sends_text e"
  shows "channel_texts (hook_step P h e) \<subseteq> channel_texts h"
proof (cases e)
  case (HkPresence room cnt peers selfId)
  have "channel_texts (on_mesh i closeAll (h\<lparr>prevPeerCount := p\<rparr>)) \<subseteq> channel_texts h" for i p
    by (rule channel_texts_on_mesh) (simp_all add: mesh_says_ops)
  with HkPresence show ?thesis by (auto simp: handlePresenceMesh_def Let_def split: option.split)
next
  case (HkTimer k)
  have "channel_texts (on_mesh i (addPeer peer True) (createMesh room (h\<lparr>offer_timers := ts\<rparr>))) \<subseteq> channel_texts h" for i peer room ts
    by (rule channel_texts_on_mesh) (simp_all add: mesh_says_add)
  with HkTimer show ?thesis by (auto simp: offer_timer_def Let_def split: prod.split)
next
  case (HkSignal sender payload room)
  have "channel_texts g \<subseteq> T \<Longrightarrow> channel_texts (on_mesh i (addPeer sender False) g) \<subseteq> T"
    "channel_texts g \<subseteq> T \<Longrightarrow> channel_texts (on_mesh i (mesh_handleSignal P sender ty dat) g) \<subseteq> T" for g T i ty dat
    by (rule channel_texts_on_mesh; simp add: mesh_says_add mesh_says_ops)+
  with HkSignal show ?thesis
    by (simp add: hook_handleSignal_def Let_def split: sum.split option.split json.split)
next
  case (HkMesh i ev)
  have "mesh_says T m \<Longrightarrow> mesh_says T (mesh_step P m ev)" for T m
    using mesh_says_step [of T m ev P] assms HkMesh by (cases ev) simp_all
  then have "channel_texts (on_mesh i (\<lambda>m. mesh_step P m ev) h) \<subseteq> channel_texts h" by (rule channel_texts_on_mesh) simp_all
  with HkMesh show ?thesis by simp
next
  case (HkCleanup room)
  have "channel_texts (on_mesh i closeAll h) \<subseteq> channel_texts h" for i by (rule channel_texts_on_mesh) (simp_all add: mesh_says_ops)
  with HkCleanup show ?thesis by (simp add: cleanupRoom_def Let_def split: option.split)
next
  case HkCleanupAll
  have "channel_texts (fold (\<lambda>i. on_mesh i closeAll) (map snd (peerMeshes h)) h) \<subseteq> channel_texts h"
    by (rule channel_texts_fold) (simp_all add: mesh_says_ops)
  with HkCleanupAll show ?thesis by (simp add: cleanupAll_def)
qed (simp add: offer_settles_def Let_def)

lemma hook_quiet_step: "hook_ok h \<Longrightarrow> \<not> sends_text e \<Longrightarrow> hook_quiet h (hook_step P h e)"
  by (simp add: hook_quiet_def hook_ok_step channel_texts_step)

lemma hook_ok_fold:
  "hook_ok h \<Longrightarrow> (\<And>m. mesh_ok m \<Longrightarrow> mesh_ok (f m)) \<Longrightarrow> \<forall>i\<in>set is. i < length (meshes h) \<Longrightarrow> hook_ok (fold (\<lambda>i. on_mesh i f) is h)"
  by (induction "is" arbitrary: h) (simp_all add: hook_ok_on_mesh)

lemma hook_ok_rooms: "hook_ok h \<Longrightarrow> \<forall>i\<in>set (map snd (peerMeshes h)). i < length (meshes h)"
  by (auto simp: hook_ok_def)

lemma hook_quiet_fold:
  assumes "hook_ok h" "\<And>m. mesh_ok m \<Longrightarrow> mesh_ok (f m)" "\<And>T m. mesh_says T m \<Longrightarrow> mesh_says T (f m)"
  shows "hook_quiet h (fold (\<lambda>i. on_mesh i f) (map snd (peerMeshes h)) h)"
proof -
  have "hook_ok (fold (\<lambda>i. on_mesh i f) (map snd (peerMeshes h)) h)"
    by (rule hook_ok_fold [OF assms(1,2) hook_ok_rooms [OF assms(1)]])
  with channel_texts_fold [of h "channel_texts h" f] assms(3) show ?thesis by (simp add: hook_quiet_def)
qed

section \<open>Chunks of files\<close>

text \<open>A chunk of a file or of the canvas, encrypted under \<open>k\<close>, in the message that \<open>sendMedia\<close> makes.\<close>

definition chunk_under :: "'k webcrypto \<Rightarrow> 'k \<Rightarrow> string \<Rightarrow> bool" where
  "chunk_under P k payload \<longleftrightarrow>
     (\<exists>iv dat metadata c tid sq tot.
        encryptMediaEnvelope P iv k dat metadata = Inr c \<and> payload = chunk_payload tid sq tot c)"

lemma envelope_nullable:
  "encryptMediaEnvelope (nullable P) iv key dat metadata = Inr c \<Longrightarrow>
     \<exists>k. key = Some k \<and> encryptMediaEnvelope P iv k dat metadata = Inr c"
  by (cases key) (auto simp: encryptMediaEnvelope_def encrypt_def nullable_def bind_Inr)

lemma send_loop_encrypts:
  "payload \<in> set (fst (send_loop (nullable P) ivs key tid mime f tot sq n)) \<Longrightarrow> \<exists>k. key = Some k \<and> chunk_under P k payload"
proof (induction n arbitrary: sq)
  case (Suc n)
  show ?case
  proof (cases "encryptMediaEnvelope (nullable P) (ivs sq) key
      (js_slice (file_bytes f) (sq * CHUNK_SIZE) (min (sq * CHUNK_SIZE + CHUNK_SIZE) (length (file_bytes f)))) (chunk_metadata sq mime f)")
    case (Inr c)
    with Suc.prems have "payload = chunk_payload tid sq tot c \<or> payload \<in> set (fst (send_loop (nullable P) ivs key tid mime f tot (Suc sq) n))"
      by (auto simp: Let_def split: prod.splits)
    then show ?thesis
    proof
      assume "payload = chunk_payload tid sq tot c"
      with envelope_nullable [OF Inr] show ?thesis unfolding chunk_under_def by blast
    next
      assume "payload \<in> set (fst (send_loop (nullable P) ivs key tid mime f tot (Suc sq) n))"
      then show ?thesis by (rule Suc.IH)
    qed
  qed (use Suc.prems in \<open>simp add: Let_def\<close>)
qed simp

lemma sendMedia_encrypts:
  "payload \<in> set (fst (sendMedia (nullable P) ivs tid toMB key f)) \<Longrightarrow> \<exists>k. key = Some k \<and> chunk_under P k payload"
  using send_loop_encrypts [of payload P ivs key tid "detectMimeType (file_type f) (file_bytes f)" f
    "chunk_count (length (file_bytes f))" 0 "chunk_count (length (file_bytes f))"]
  by (auto simp: sendMedia_def Let_def split: if_splits prod.splits option.splits)

lemma sendCanvas_encrypts:
  "payload \<in> set (fst (sendCanvas (nullable P) ivs tid toMB key now blob)) \<Longrightarrow> \<exists>k. key = Some k \<and> chunk_under P k payload"
  by (auto simp: sendCanvas_def dest: sendMedia_encrypts split: option.splits)

text \<open>What the hook has handed to the client, or is going to.\<close>

definition media_content :: "'k media_hook \<Rightarrow> (string \<times> string) set" where
  "media_content h = set (media_sends h) \<union> {x. \<exists>u\<in>set (uploads h). \<exists>p\<in>set (up_todo u). x = (up_room u, fst p)}"

definition media_calm :: "'k media_hook \<Rightarrow> 'k media_hook \<Rightarrow> bool" where
  "media_calm h h' \<longleftrightarrow> hook_media_ok h' \<and> media_content h' \<subseteq> media_content h"

lemma media_content_cong: "uploads h' = uploads h \<Longrightarrow> media_sends h' = media_sends h \<Longrightarrow> media_content h' = media_content h"
  by (simp add: media_content_def)

lemma media_content_start:
  "media_content (start_upload room s url sz failure h) \<subseteq> media_content h \<union> Pair room ` set (fst s)"
  by (auto simp: media_content_def start_upload_def split: prod.splits dest: set_zip_leftD)

lemma media_content_upload: "media_content (upload_step j uuid h) \<subseteq> media_content h"
proof (cases "j < length (uploads h)")
  case True
  let ?up = "uploads h ! j"
  have mem: "?up \<in> set (uploads h)" using True by simp
  show ?thesis
  proof (cases "up_todo ?up")
    case Nil
    have "set (drop_nth j (uploads h)) \<subseteq> set (uploads h)"
      by (auto simp: drop_nth_def dest: in_set_takeD in_set_dropD)
    with True Nil show ?thesis by (auto simp: upload_step_def Let_def media_content_def append_media_def)
  next
    case (Cons p todo)
    have old: "(up_room ?up, fst q) \<in> media_content h" if "q \<in> set (p # todo)" for q
      using mem that Cons unfolding media_content_def by force
    have "x \<in> media_content h" if x: "x \<in> media_content (upload_step j uuid h)" for x
    proof -
      have "x \<in> set (media_sends h) \<or> x = (up_room ?up, fst p)
          \<or> (\<exists>u\<in>set ((uploads h)[j := ?up\<lparr>up_todo := todo\<rparr>]). \<exists>q\<in>set (up_todo u). x = (up_room u, fst q))"
        using x True Cons by (cases p) (auto simp: upload_step_def Let_def media_content_def)
      then show ?thesis
      proof (elim disjE bexE)
        fix u q
        assume u: "u \<in> set ((uploads h)[j := ?up\<lparr>up_todo := todo\<rparr>])" "q \<in> set (up_todo u)" "x = (up_room u, fst q)"
        from u(1) have "u = ?up\<lparr>up_todo := todo\<rparr> \<or> u \<in> set (uploads h)" using set_update_subset_insert by fastforce
        then show ?thesis
        proof (elim disjE)
          assume "u = ?up\<lparr>up_todo := todo\<rparr>"
          with u(2,3) old [of q] show ?thesis by simp
        qed (use u(2,3) in \<open>auto simp: media_content_def\<close>)
      qed (use old in \<open>auto simp: media_content_def\<close>)
    qed
    then show ?thesis by blast
  qed
qed (simp add: upload_step_def)

lemma media_content_step:
  assumes "\<not> starts_upload e"
  shows "media_content (media_hook_step P h e) \<subseteq> media_content h"
  using assms
proof (induction P h e rule: media_hook_step.induct)
  case (9 P h j uuid)
  show ?case using media_content_upload by simp
next
  case (4 P h r i room uuid url)
  have "media_sends (fold on_progress ps g) = media_sends g" for ps and g :: "'a media_hook" by simp
  then have "media_sends (chunk_resumes P r i room uuid url h) = media_sends h"
    by (simp add: chunk_resumes_def Let_def append_media_def split: option.split)
  then show ?case by (simp add: media_content_def chunk_resumes_frame)
qed (auto simp: media_content_def initAssembler_def destroyAssembler_def handleMediaChunk_def stale_expires_def destroy_current_def
    update_assembler_def progress_expires_def resetProgress_def handleFileSelect_def handleCanvasShare_def chunk_resumes_frame Let_def
    split: option.splits if_splits)

lemma media_calm_step: "hook_media_ok h \<Longrightarrow> \<not> starts_upload e \<Longrightarrow> media_calm h (media_hook_step P h e)"
  by (simp add: media_calm_def hook_media_ok_step media_content_step)

text \<open>A started upload is encrypted under the key that it was given.\<close>

lemma upload_encrypts:
  assumes "(room, payload) \<in> media_content (handleFileSelect P ivs tid toMB room' url key sel h)"
  shows "(room, payload) \<in> media_content h \<or> (\<exists>k. key = Some k \<and> chunk_under P k payload)"
proof (cases sel)
  case (Some f)
  with assms have "(room, payload) \<in> media_content h \<or> payload \<in> set (fst (sendMedia (nullable P) ivs tid toMB key f))"
    by (auto simp: handleFileSelect_def dest!: media_content_start [THEN subsetD])
  then show ?thesis by (blast dest: sendMedia_encrypts)
qed (use assms in \<open>simp add: handleFileSelect_def\<close>)

lemma canvas_encrypts:
  assumes "(room, payload) \<in> media_content (handleCanvasShare P ivs tid toMB room' url key now canvas h)"
  shows "(room, payload) \<in> media_content h \<or> (\<exists>k. key = Some k \<and> chunk_under P k payload)"
proof (cases canvas)
  case (Some blob)
  with assms have "(room, payload) \<in> media_content h \<or> payload \<in> set (fst (sendCanvas (nullable P) ivs tid toMB key now blob))"
    by (auto simp: handleCanvasShare_def dest!: media_content_start [THEN subsetD])
  then show ?thesis by (blast dest: sendCanvas_encrypts)
qed (use assms in \<open>simp add: handleCanvasShare_def\<close>)

section \<open>New keys\<close>

text \<open>What the hook has announced, or is going to, and the rotations of its rotators.\<close>

definition key_content :: "'k key_hook \<Rightarrow> (string \<times> string) set" where
  "key_content h = set (rotations_sent h) \<union> {(room, c). Announcing room (Inr c) \<in> set (announcements h)}"

definition phases :: "'k key_hook \<Rightarrow> 'k rotation set" where
  "phases h = {p. \<exists>x\<in>set (rotators h). p \<in> set (rotations (fst x))}"

definition keys_calm :: "'k key_hook \<Rightarrow> 'k key_hook \<Rightarrow> bool" where
  "keys_calm h h' \<longleftrightarrow> key_hook_ok h' \<and> key_content h' \<subseteq> key_content h \<and> phases h' \<subseteq> phases h"

lemma phases_frame [simp]:
  "phases (h\<lparr>keyRef := k\<rparr>) = phases h" "phases (h\<lparr>rotation_notes := ns\<rparr>) = phases h" "phases (h\<lparr>announcements := as\<rparr>) = phases h"
  "phases (h\<lparr>rotations_sent := ss\<rparr>) = phases h" "phases (h\<lparr>incoming_keys := is\<rparr>) = phases h" "phases (h\<lparr>rotatorRef := r\<rparr>) = phases h"
  by (simp_all add: phases_def)

lemma key_content_frame [simp]:
  "key_content (h\<lparr>keyRef := k\<rparr>) = key_content h" "key_content (h\<lparr>rotation_notes := ns\<rparr>) = key_content h"
  "key_content (h\<lparr>incoming_keys := is\<rparr>) = key_content h" "key_content (h\<lparr>rotatorRef := r\<rparr>) = key_content h"
  "key_content (h\<lparr>rotators := rs\<rparr>) = key_content h" "key_content (update_rotator i f h) = key_content h"
  "key_content (stop_current h) = key_content h"
  by (simp_all add: key_content_def update_rotator_def stop_current_def split: option.split)

lemma phases_update:
  assumes "\<And>r. rotations (f r) = rotations r"
  shows "phases (update_rotator i f h) \<subseteq> phases h"
proof (cases "i < length (rotators h)")
  case True
  with assms show ?thesis
    by (auto simp: phases_def update_rotator_def dest!: set_update_subset_insert [THEN subsetD])
qed (simp add: phases_def update_rotator_def list_update_beyond)

lemma rotations_frame: "rotations (rotator_stop r) = rotations r" "rotations (acceptKey k r) = rotations r" "rotations (set_grace r) = rotations r"
  "rotations (clear_grace r) = rotations r" "rotations (rotator_start key (new_KeyRotator intv cb)) = []"
  by (simp_all add: rotator_stop_def acceptKey_def set_grace_def clear_grace_def rotator_start_def new_KeyRotator_def Let_def split: option.split)

lemma phases_stop: "phases (stop_current h) \<subseteq> phases h"
  by (auto simp: stop_current_def phases_update [OF rotations_frame(1), THEN subsetD] split: option.splits)

lemma keys_calm_start: "key_hook_ok h \<Longrightarrow> keys_calm h (startRotation intv room key h)"
proof -
  assume "key_hook_ok h"
  have "phases (startRotation intv room key h) = phases (stop_current h)"
    by (simp add: phases_def startRotation_def Let_def rotations_frame)
  with phases_stop [of h] show ?thesis
    using key_hook_start [OF \<open>key_hook_ok h\<close>, of intv room key]
    by (simp add: keys_calm_def) (simp add: startRotation_def Let_def)
qed

lemma key_content_announce: "key_content (announce n h) \<subseteq> key_content h"
proof (cases "n < length (announcements h)")
  case True
  then have "announcements h ! n \<in> set (announcements h)" by simp
  then show ?thesis
    by (auto simp: announce_def key_content_def Let_def split: announcement.split sum.split
        dest!: set_update_subset_insert [THEN subsetD])
qed (simp add: announce_def)

lemma keys_calm_step: "key_hook_ok h \<Longrightarrow> (\<And>i ev iv. e \<noteq> KrRotator i ev iv) \<Longrightarrow> keys_calm h (key_step P intv h e)"
proof (cases e)
  case (KrStart room key)
  assume "key_hook_ok h"
  with KrStart keys_calm_start show ?thesis by simp
next
  case KrStop
  assume "key_hook_ok h"
  with KrStop key_hook_step [of h P intv KrStop] phases_stop show ?thesis by (simp add: keys_calm_def stopRotation_def)
next
  case (KrMessage room payload)
  assume "key_hook_ok h"
  with KrMessage show ?thesis by (simp add: keys_calm_def handleKeyRotationMessage_def)
next
  case (KrAnnounced n)
  assume "key_hook_ok h"
  moreover have "phases (announce n h) = phases h" by (simp add: announce_def Let_def split: announcement.split sum.split)
  ultimately show ?thesis
    using KrAnnounced key_hook_step [of h P intv "KrAnnounced n"] by (simp add: keys_calm_def key_content_announce)
next
  case (KrOpened n)
  assume "key_hook_ok h"
  moreover have "key_content (key_opened P n h) = key_content h"
    by (simp add: key_opened_def Let_def split: incoming.split sum.split option.split)
  moreover have "phases (update_rotator i (acceptKey k) (h\<lparr>incoming_keys := x, keyRef := y\<rparr>)) \<subseteq> phases h" for i k x y
    using phases_update [OF rotations_frame(2), of i _ "h\<lparr>incoming_keys := x, keyRef := y\<rparr>"] by simp
  then have "phases (key_opened P n h) \<subseteq> phases h"
    by (simp add: key_opened_def Let_def split: incoming.split sum.split option.split)
  ultimately show ?thesis
    using KrOpened key_hook_step [of h P intv "KrOpened n"] by (simp add: keys_calm_def)
next
  case (KrRotator i ev iv)
  assume "\<And>i ev iv. e \<noteq> KrRotator i ev iv"
  with KrRotator show ?thesis by blast
qed

text \<open>
  An announcement is the export of a key, encrypted under a key of \<open>K\<close>; a rotation replaces
  a key of \<open>K\<close>.
\<close>

definition sealed_key :: "'k webcrypto \<Rightarrow> 'k set \<Rightarrow> string \<Rightarrow> bool" where
  "sealed_key P K c \<longleftrightarrow> (\<exists>k\<in>K. \<exists>iv k' exported. exportKey P k' = Inr exported \<and> encrypt P iv k exported = Inr c)"

definition phase_ok :: "'k webcrypto \<Rightarrow> 'k set \<Rightarrow> 'k rotation \<Rightarrow> bool" where
  "phase_ok P K p =
     (case p of
        Generating old \<Rightarrow> (\<forall>k. old = Some k \<longrightarrow> k \<in> K)
      | Exporting old r \<Rightarrow> (\<forall>k. old = Some k \<longrightarrow> k \<in> K) \<and> (\<exists>k'. r = exportKey P k')
      | Finished \<Rightarrow> True)"

definition keys_sealed :: "'k webcrypto \<Rightarrow> 'k set \<Rightarrow> 'k key_hook \<Rightarrow> bool" where
  "keys_sealed P K h \<longleftrightarrow> (\<forall>x\<in>key_content h. sealed_key P K (snd x)) \<and> (\<forall>p\<in>phases h. phase_ok P K p)"

lemma keys_sealed_calm: "keys_sealed P K h \<Longrightarrow> keys_calm h h' \<Longrightarrow> keys_sealed P K h'"
  unfolding keys_sealed_def keys_calm_def by blast

lemma keys_sealed_mono: "keys_sealed P K h \<Longrightarrow> K \<subseteq> K' \<Longrightarrow> keys_sealed P K' h"
  unfolding keys_sealed_def sealed_key_def phase_ok_def by (fastforce split: rotation.splits)

lemma rotator_phases:
  assumes "\<forall>p\<in>set (rotations r). phase_ok P K p" "\<forall>k. currentKey r = Some k \<longrightarrow> k \<in> K" "by_platform e"
  shows "\<forall>p\<in>set (rotations (rotator_step P r e)). phase_ok P K p"
proof -
  have set: "\<forall>p\<in>set ((rotations r)[i := q]). phase_ok P K p" if "phase_ok P K q" for i q
    using that assms(1) set_update_subset_insert [of "rotations r" i q] by blast
  show ?thesis
  proof (cases e)
    case (RGenerated i gen)
    show ?thesis
    proof (cases "i < length (rotations r) \<and> (\<exists>old. rotations r ! i = Generating old)")
      case True
      then obtain old where old: "i < length (rotations r)" "rotations r ! i = Generating old" by blast
      then have "phase_ok P K (Generating old)" using assms(1) nth_mem by metis
      then have "phase_ok P K (Exporting old (exportKey P k))" "phase_ok P K Finished" for k by (auto simp: phase_ok_def)
      then show ?thesis using RGenerated old set by (cases gen) (auto simp: rotate_generated_def)
    qed (use RGenerated assms(1) in \<open>auto split: rotation.split\<close>)
  next
    case (RExported i)
    then show ?thesis
      using assms(1) set [of Finished i]
      by (auto simp: rotate_exported_def rotations_frame Let_def phase_ok_def split: rotation.splits sum.splits)
  qed (use assms in \<open>auto simp: rotate_begin_def grace_fires_def phase_ok_def Let_def\<close>)
qed

lemma rotator_callbacks:
  assumes "\<forall>p\<in>set (rotations r). phase_ok P K p" "by_platform e"
    and "(new, exported, old) \<in> set (drop (length (rotated r)) (rotated (rotator_step P r e)))"
  shows "(\<forall>k. old = Some k \<longrightarrow> k \<in> K) \<and> (\<exists>k'. exportKey P k' = Inr exported)"
proof -
  have "rotated (set_grace (clear_grace q)) = rotated q" for q :: "'a rotator"
    by (simp add: set_grace_def clear_grace_def split: option.split)
  with assms(2,3) obtain i where i: "i < length (rotations r)" "rotations r ! i = Exporting old (Inr exported)"
    by (cases e) (auto simp: rotate_begin_def rotate_generated_def rotate_exported_def grace_fires_def Let_def
        split: if_splits rotation.splits sum.splits)
  then have "phase_ok P K (Exporting old (Inr exported))" using assms(1) nth_mem by metis
  then obtain k' where "(\<forall>k. old = Some k \<longrightarrow> k \<in> K) \<and> Inr exported = exportKey P k'" by (auto simp: phase_ok_def)
  then show ?thesis by metis
qed

lemma keys_sealed_announce:
  assumes "keys_sealed P K h" "\<And>k. old = Some k \<Longrightarrow> k \<in> K" "\<exists>k'. exportKey P k' = Inr exported"
  shows "keys_sealed P K (on_rotate P iv room (new, exported, old) h)"
proof -
  have "sealed_key P K c" if "with_key old (\<lambda>k. encrypt P iv k exported) = Inr c" for c
    using that assms(2,3) by (auto simp: with_key_def sealed_key_def split: option.splits)
  with assms(1) show ?thesis by (auto simp: keys_sealed_def on_rotate_def key_content_def)
qed

lemma keys_sealed_announcements:
  "keys_sealed P K h \<Longrightarrow> \<forall>(new, exported, old)\<in>set xs. (\<forall>k. old = Some k \<longrightarrow> k \<in> K) \<and> (\<exists>k'. exportKey P k' = Inr exported)
     \<Longrightarrow> keys_sealed P K (fold (on_rotate P iv room) xs h)"
proof (induction xs arbitrary: h)
  case (Cons x xs)
  obtain new exported old where x: "x = (new, exported, old)" by (cases x)
  with Cons.prems have "keys_sealed P K (on_rotate P iv room x h)" by (simp add: keys_sealed_announce)
  with Cons show ?case by simp
qed simp

lemma keys_sealed_rotator_event:
  assumes h: "keys_sealed P K h" and current: "\<And>x k. x \<in> set (rotators h) \<Longrightarrow> currentKey (fst x) = Some k \<Longrightarrow> k \<in> K"
  shows "keys_sealed P K (rotator_event P iv i e h)"
proof (cases "i < length (rotators h) \<and> by_platform e")
  case True
  obtain r room where r: "rotators h ! i = (r, room)" by fastforce
  with True have mem: "(r, room) \<in> set (rotators h)" by (metis nth_mem)
  have ph: "\<forall>p\<in>set (rotations r). phase_ok P K p" using h mem unfolding keys_sealed_def phases_def by force
  have cur: "\<forall>k. currentKey r = Some k \<longrightarrow> k \<in> K" using current [OF mem] by simp
  let ?h = "update_rotator i (\<lambda>r. rotator_step P r e) h"
  have "phase_ok P K p" if "p \<in> phases ?h" for p
    using that h rotator_phases [OF ph cur, of e] True r
    by (auto simp: phases_def update_rotator_def keys_sealed_def dest!: set_update_subset_insert [THEN subsetD])
  then have h1: "keys_sealed P K ?h" using h by (simp add: keys_sealed_def)
  have "\<forall>(new, exported, old)\<in>set (drop (length (rotated r)) (rotated (rotator_step P r e))).
      (\<forall>k. old = Some k \<longrightarrow> k \<in> K) \<and> (\<exists>k'. exportKey P k' = Inr exported)"
    using rotator_callbacks [OF ph, of e] True by fast
  from keys_sealed_announcements [OF h1 this] True r show ?thesis by (simp add: rotator_event_def Let_def)
qed (use h in \<open>auto simp: rotator_event_def\<close>)

end
