(* ===== verification/System.thy ===== *)
theory System
  imports App Outgoing
begin

text \<open>
  The browser application as a whole: a step of \<^verbatim>\<open>App.jsx\<close> and of everything it puts
  together, for each event of the user, of the network, of the peer connections and of
  the timers. The steps are the operations of \<open>App\<close> and of the hooks, with what they hand
  on delivered at once.

  The locale \<open>app_property\<close> proves once that the handlers keep a property of the whole state;
  it is interpreted here for the invariants of the components, and in \<open>Sealing\<close> for what leaves
  the browser.
\<close>

section \<open>Steps\<close>

datatype 'k app_event =
    Resume nat bool "byte list" "js_error + 'k"
  | Network client_event
  | PeerEvent nat nat rtc_event
  | OfferTimer nat
  | OfferSettles nat bool
  | ChunkResumes nat nat string
  | ChunkStale nat nat
  | ProgressTimer
  | UploadStep nat
  | RotatorStep nat "'k rotator_event" "byte list"
  | RotationAnnounced nat
  | RotationOpened nat
  | TypingTimer nat
  | CallAnswer nat "exn + media_track list"
  | JoinSubmit "byte list"
  | Leave string
  | Submit
  | InputChange string
  | SwitchRoom string
  | FileSelect "nat \<Rightarrow> byte list" "nat \<Rightarrow> string" string "media_file option"
  | CanvasShare "nat \<Rightarrow> byte list" "nat \<Rightarrow> string" string nat "byte list option option"
  | CallClick json
  | HangUpClick
  | MuteClick
  | VideoClick
  | Seen json
  | SetJoinRoom string
  | SetNickname string
  | SetPassphrase string
  | SetTtl int
  | OpenJoin bool
  | ToggleQr
  | Mounted string
  | Unmounted
  | Render
  | QrDone "string option"
  | CopyLink
  | CopySettles nat
  | CopiedTimer nat

text \<open>The room whose \<open>appendMessage\<close> the listener of media chunks has captured.\<close>

definition bound_room :: "'k app \<Rightarrow> string" where
  "bound_room a = (case ap_listener a of None \<Rightarrow> [] | Some r \<Rightarrow> r)"

text \<open>The fixed parameters: cryptography, WebRTC, the rotation interval and the page's address.\<close>

record 'k site =
  st_crypto :: "'k webcrypto"
  st_rtc :: rtc_api
  st_interval :: int
  st_page :: string

fun app_step :: "'k site \<Rightarrow> 'k app \<Rightarrow> platform \<times> 'k app_event \<Rightarrow> 'k app" where
  "app_step S a (pl, Resume i ok iv fresh) =
     resume_task (st_crypto S) pl (st_interval S) (st_page S) iv fresh ok i a"
| "app_step S a (pl, Network e) =
     (if by_network e then with_client (st_rtc S) pl (\<lambda>c. client_step c e) a else a)"
| "app_step S a (pl, PeerEvent i k e) = with_hook pl (\<lambda>h. hook_step (st_rtc S) h (HkMesh i (Browser k e))) a"
| "app_step S a (pl, OfferTimer k) = with_hook pl (offer_timer k) a"
| "app_step S a (pl, OfferSettles k ok) = with_hook pl (offer_settles k ok) a"
| "app_step S a (pl, ChunkResumes r i url) =
     with_media pl (chunk_resumes (st_crypto S) r i (bound_room a) (d_msgId (pl_draws pl)) url) a"
| "app_step S a (pl, ChunkStale r t) = with_media pl (stale_expires r t) a"
| "app_step S a (pl, ProgressTimer) = with_media pl progress_expires a"
| "app_step S a (pl, UploadStep j) = with_media pl (upload_step j (d_msgId (pl_draws pl))) a"
| "app_step S a (pl, RotatorStep i e iv) = with_keys pl (rotator_event (st_crypto S) iv i e) a"
| "app_step S a (pl, RotationAnnounced n) = with_keys pl (announce n) a"
| "app_step S a (pl, RotationOpened n) = with_keys pl (key_opened (st_crypto S) n) a"
| "app_step S a (pl, TypingTimer n) = a\<lparr>ap_typing := typing_expires n (ap_typing a)\<rparr>"
| "app_step S a (pl, CallAnswer i answer) =
     with_call pl (case answer of Inl _ \<Rightarrow> 0 | Inr tracks \<Rightarrow> length tracks) (\<lambda>env. media_answer env i answer) a"
| "app_step S a (pl, JoinSubmit salt) = handleJoinRoom salt a"
| "app_step S a (pl, Leave room) = leaveRoom pl room a"
| "app_step S a (pl, Submit) = sendMessage pl a"
| "app_step S a (pl, InputChange value) = handleInputChange pl value a"
| "app_step S a (pl, SwitchRoom room) = on_rm (switchRoom room) a"
| "app_step S a (pl, FileSelect ivs toMB url sel) =
     with_media pl (handleFileSelect (st_crypto S) ivs (d_id (pl_draws pl)) toMB (activeRoom (ap_rm a)) url
       (key_of (activeKeyRef (ap_rm a))) sel) a"
| "app_step S a (pl, CanvasShare ivs toMB url now canvas) =
     with_media pl (handleCanvasShare (st_crypto S) ivs (d_id (pl_draws pl)) toMB (activeRoom (ap_rm a)) url
       (key_of (activeKeyRef (ap_rm a))) now canvas) a"
| "app_step S a (pl, CallClick ty) = with_call pl 0 (\<lambda>env. startCall env ty) a"
| "app_step S a (pl, HangUpClick) = with_call pl 0 endCall a"
| "app_step S a (pl, MuteClick) = with_call pl 0 (\<lambda>env. toggleMute) a"
| "app_step S a (pl, VideoClick) = with_call pl 0 (\<lambda>env. toggleVideo) a"
| "app_step S a (pl, Seen msgId) = message_seen pl msgId a"
| "app_step S a (pl, SetJoinRoom room) = a\<lparr>ap_joinRoom := room\<rparr>"
| "app_step S a (pl, SetNickname name) = a\<lparr>ap_nickname := js_slice name 0 32\<rparr>"
| "app_step S a (pl, SetPassphrase text) = a\<lparr>ap_passphrase := text\<rparr>"
| "app_step S a (pl, SetTtl n) = a\<lparr>ap_ttl := n\<rparr>"
| "app_step S a (pl, OpenJoin opened) =
     (if opened then a\<lparr>ap_joinRoom := [], ap_joinModal := True\<rparr> else a\<lparr>ap_joinModal := False\<rparr>)"
| "app_step S a (pl, ToggleQr) =
     on_rm (updateRoomState (activeRoom (ap_rm a)) (\<lambda>s. s\<lparr>r_showQR := \<not> r_showQR s\<rparr>)) a"
| "app_step S a (pl, Mounted hash) = on_rm (\<lambda>m. case read_fragment hash m of Inl _ \<Rightarrow> m | Inr m' \<Rightarrow> m') a"
| "app_step S a (pl, Unmounted) = unmount pl a"
| "app_step S a (pl, Render) = render_app a"
| "app_step S a (pl, QrDone url) = on_rm (qr_done url) a"
| "app_step S a (pl, CopyLink) = on_rm copyShareLink a"
| "app_step S a (pl, CopySettles i) = on_rm (copy_settles i) a"
| "app_step S a (pl, CopiedTimer i) = on_rm (copied_expires i) a"

abbreviation app_run :: "'k site \<Rightarrow> 'k app \<Rightarrow> (platform \<times> 'k app_event) list \<Rightarrow> 'k app" where
  "app_run S \<equiv> foldl (app_step S)"

section \<open>Interface: a property of the application that its handlers keep\<close>

definition app_ok :: "'k app \<Rightarrow> bool" where
  "app_ok a \<longleftrightarrow>
     rooms_ok (ap_rm a) \<and> client_inv (ap_cl a) \<and> hook_ok (ap_hook a) \<and> key_hook_ok (ap_keys a)
     \<and> hook_media_ok (ap_media a) \<and> call_ok (ap_call a)"

lemma app_ok_parts:
  assumes "app_ok a"
  shows "rooms_ok (ap_rm a)" "client_inv (ap_cl a)" "hook_ok (ap_hook a)" "key_hook_ok (ap_keys a)"
    "hook_media_ok (ap_media a)" "call_ok (ap_call a)"
  using assms by (simp_all add: app_ok_def)

fun is_encrypting :: "'k app_task \<Rightarrow> bool" where
  "is_encrypting (Encrypting room input k nickname) = True"
| "is_encrypting t = False"

lemma hook_ok_send_p2p: "hook_ok h \<Longrightarrow> hook_ok (fst (send_p2p room t h))"
proof -
  assume h: "hook_ok h"
  have "hook_ok (on_mesh i (update_conn k (fst \<circ> pc_send t)) h)"
    if "map_get (peerMeshes h) room = Some i" "getConnection (meshes h ! i) peer = Some k" for i k peer
  proof -
    have i: "i < length (meshes h)" by (rule hook_ok_index [OF h that(1)])
    then have "mesh_ok (meshes h ! i)" using h by (simp add: hook_ok_def)
    from mesh_ok_step [OF this, of _ "SendTo peer t"] that(2)
    have "mesh_ok (update_conn k (fst \<circ> pc_send t) (meshes h ! i))" by simp
    then show ?thesis
      using hook_ok_on_mesh [OF h, of "\<lambda>_. update_conn k (fst \<circ> pc_send t) (meshes h ! i)" i] i by (simp add: on_mesh_def)
  qed
  with h show ?thesis by (auto simp: send_p2p_def split: option.split list.split)
qed

lemma channel_texts_send_p2p: "channel_texts (fst (send_p2p room t h)) \<subseteq> insert t (channel_texts h)"
proof -
  have "channel_texts (on_mesh i (update_conn k (fst \<circ> pc_send t)) h) \<subseteq> insert t (channel_texts h)" for i k
  proof (cases "i < length (meshes h)")
    case True
    have "mesh_says (insert t (channel_texts h)) m" if "m \<in> set (meshes h)" for m
      using that channel_texts_says [of h "insert t (channel_texts h)"] by blast
    moreover have "mesh_says (insert t T) m \<Longrightarrow> mesh_says (insert t T) (update_conn k (fst \<circ> pc_send t) m)" for m T
      by (rule mesh_says_update) (use conn_says_send [of "insert t T" _ t] in simp_all)
    ultimately show ?thesis
      using True by (auto simp: channel_texts_says on_mesh_def dest!: set_update_subset_insert [THEN subsetD])
  next
    case False
    then show ?thesis by (auto simp: channel_texts_def on_mesh_def list_update_beyond)
  qed
  then show ?thesis by (auto simp: send_p2p_def split: option.split list.split)
qed

text \<open>A functional update of the rooms that changes one room and keeps its messages.\<close>

lemma rooms_ok_setRooms:
  assumes "rooms_ok m" and "\<And>s. r_messages (h s) = r_messages s"
    and "\<And>next. g (rooms m) = Some next \<Longrightarrow> \<exists>s. map_get (rooms m) room = Some s \<and> next = map_set room (h s) (rooms m)"
  shows "rooms_ok (setRooms g m)"
proof (cases "g (rooms m)")
  case None
  with assms(1) show ?thesis by (simp add: setRooms_def)
next
  case (Some new)
  from assms(3) [OF this] obtain s where s: "map_get (rooms m) room = Some s" "new = map_set room (h s) (rooms m)" by blast
  from s(1) assms(1) have "length (r_messages (h s)) \<le> MAX_MESSAGES" by (auto simp: rooms_ok_def assms(2) dest!: map_get_in_set)
  with assms(1) show ?thesis by (rule rooms_ok_set) (simp add: setRooms_def Some s(2))
qed

text \<open>
  \<open>J\<close> may speak of every component and of the messages that were written; it must follow
  from nothing but the invariants of the components. Only new content can make it false: a chat
  message, the start of an encryption, an upload or the rotation of a key; handing on what the
  hooks have already made cannot. What the handlers keep is proved once, for every such \<open>J\<close>.
\<close>

locale app_property =
  fixes J :: "'k app \<Rightarrow> bool"
  assumes parts: "J a \<Longrightarrow> app_ok a"
    and rm: "J a \<Longrightarrow> rooms_ok m \<Longrightarrow> J (a\<lparr>ap_rm := m\<rparr>)"
    and cl: "J a \<Longrightarrow> no_new_content (ap_cl a) c \<Longrightarrow> J (a\<lparr>ap_cl := c\<rparr>)"
    and hook: "J a \<Longrightarrow> hook_quiet (ap_hook a) h \<Longrightarrow> J (a\<lparr>ap_hook := h\<rparr>)"
    and keys: "J a \<Longrightarrow> keys_calm (ap_keys a) k \<Longrightarrow> J (a\<lparr>ap_keys := k\<rparr>)"
    and media: "J a \<Longrightarrow> media_calm (ap_media a) x \<Longrightarrow> J (a\<lparr>ap_media := x\<rparr>)"
    and chunk: "J a \<Longrightarrow> (room, p) \<in> media_content (ap_media a) \<Longrightarrow>
      J (a\<lparr>ap_cl := fst (send dr ''media'' room (Some (JStr p)) [] (ap_cl a))\<rparr>)"
    and new_key: "J a \<Longrightarrow> (room, p) \<in> key_content (ap_keys a) \<Longrightarrow>
      J (a\<lparr>ap_cl := fst (send dr ''key_rotation'' room (Some (JStr p)) [] (ap_cl a))\<rparr>)"
    and call: "J a \<Longrightarrow> call_ok d \<Longrightarrow> J (a\<lparr>ap_call := d\<rparr>)"
    and tasks: "J a \<Longrightarrow> \<forall>t\<in>set ts. t \<in> set (ap_tasks a) \<or> \<not> is_encrypting t \<Longrightarrow> J (a\<lparr>ap_tasks := ts\<rparr>)"
    and fields [simp]: "J (a\<lparr>ap_typing := t\<rparr>) = J a" "J (a\<lparr>ap_nickname := s\<rparr>) = J a" "J (a\<lparr>ap_joinRoom := s\<rparr>) = J a"
      "J (a\<lparr>ap_passphrase := s\<rparr>) = J a" "J (a\<lparr>ap_ttl := n\<rparr>) = J a" "J (a\<lparr>ap_peerNicknames := v\<rparr>) = J a"
      "J (a\<lparr>ap_intentional := b\<rparr>) = J a" "J (a\<lparr>ap_listener := l\<rparr>) = J a" "J (a\<lparr>ap_observer := b\<rparr>) = J a"
      "J (a\<lparr>ap_joinModal := b\<rparr>) = J a" "J (a\<lparr>pendingKeyRooms := rs\<rparr>) = J a" "J (a\<lparr>pendingMessages := ms\<rparr>) = J a"
      "J (a\<lparr>ap_alerts := as\<rparr>) = J a" "J (a\<lparr>ap_callActiveRef := b\<rparr>) = J a" "J (a\<lparr>ap_micRequested := b\<rparr>) = J a"
      "J (a\<lparr>ap_micRequests := q\<rparr>) = J a"
begin

lemmas ok = parts [THEN app_ok_parts(1)] parts [THEN app_ok_parts(2)] parts [THEN app_ok_parts(3)]
  parts [THEN app_ok_parts(4)] parts [THEN app_ok_parts(5)] parts [THEN app_ok_parts(6)]

lemma keeps_rm: "J a \<Longrightarrow> rooms_ok (f (ap_rm a)) \<Longrightarrow> J (on_rm f a)"
  by (simp add: on_rm_def rm)

lemma keeps_same: "J a \<Longrightarrow> (\<And>m. rooms (f m) = rooms m) \<Longrightarrow> J (on_rm f a)"
  using ok(1) [of a] by (intro keeps_rm) (simp_all add: rooms_ok_def)

lemma keeps_cl: "J a \<Longrightarrow> (client_inv (ap_cl a) \<Longrightarrow> no_new_content (ap_cl a) (f (ap_cl a))) \<Longrightarrow> J (on_cl f a)"
  by (simp add: on_cl_def cl ok(2))

lemma keeps_task: "J a \<Longrightarrow> \<not> is_encrypting t \<Longrightarrow> J (add_task t a)"
  unfolding add_task_def by (rule tasks) auto

lemma keeps_fold: "J a \<Longrightarrow> (\<And>x b. J b \<Longrightarrow> J (g x b)) \<Longrightarrow> J (fold g xs a)"
  by (induction xs arbitrary: a) auto

lemma keeps_send: "J a \<Longrightarrow> \<not> is_content ty \<Longrightarrow> J (on_cl (\<lambda>c. fst (send d ty room p mid c)) a)"
  by (rule keeps_cl) (simp_all add: no_new_content_send)

lemma keeps_append: "J a \<Longrightarrow> J (on_rm (appendMessageToRoom room msg) a)"
  by (rule keeps_rm) (simp_all add: rooms_ok_append ok)

lemma keeps_update: "J a \<Longrightarrow> (\<And>s. r_messages (f s) = r_messages s) \<Longrightarrow> J (on_rm (updateRoomState room f) a)"
  by (rule keeps_rm) (simp_all add: rooms_ok_update ok)

lemma keeps_status: "J a \<Longrightarrow> J (set_status st a)"
  unfolding set_status_def by (rule keeps_same) simp_all

lemma keeps_media: "J a \<Longrightarrow> J (on_media dat a)"
  using media_calm_step [of "ap_media a" "MhChunk _ _"] by (simp add: on_media_def media ok)

lemma keeps_decrypt: "J a \<Longrightarrow> J (decryptAndAppendChat dat room p2p a)"
  by (simp add: decryptAndAppendChat_def keeps_task)

lemma keeps_p2p: "J a \<Longrightarrow> J (on_p2p_message dat a)"
  by (simp add: on_p2p_message_def keeps_media keeps_decrypt)

text \<open>What the hooks hand on.\<close>

lemma keeps_out: "J a \<Longrightarrow> J (deliver_out pl x a)"
proof -
  assume "J a"
  then have "J (on_cl (deliver (pl_draws pl) y) a)" for y by (rule keeps_cl) (rule no_new_content_ops)
  then show ?thesis
    by (simp add: deliver_out_def Let_def set_p2p_def keeps_p2p keeps_update call call_ok_remote ok(6)
        del: on_cl_frame split: hook_output.split)
qed

lemma keeps_with_hook: "J a \<Longrightarrow> hook_quiet (ap_hook a) (f (ap_hook a)) \<Longrightarrow> J (with_hook pl f a)"
  unfolding with_hook_def by (rule keeps_fold) (simp_all add: hook keeps_out)

lemma keeps_hook_step:
  "J a \<Longrightarrow> (\<And>h. f h = hook_step R h e) \<Longrightarrow> \<not> sends_text e \<Longrightarrow> J (with_hook pl f a)"
  by (simp add: keeps_with_hook hook_quiet_step ok)

text \<open>What the hooks have made is sent as it is.\<close>

lemma keeps_chunks:
  "J a \<Longrightarrow> set xs \<subseteq> media_content (ap_media a) \<Longrightarrow>
     J (fold (\<lambda>(room, payload). on_cl (\<lambda>c. fst (send d ''media'' room (Some (JStr payload)) [] c))) xs a)"
proof (induction xs arbitrary: a)
  case (Cons x xs)
  obtain room payload where x: "x = (room, payload)" by (cases x)
  with Cons.prems have "J (on_cl (\<lambda>c. fst (send d ''media'' room (Some (JStr payload)) [] c)) a)" by (simp add: on_cl_def chunk)
  with Cons.IH Cons.prems(2) x show ?case by (simp add: on_cl_def)
qed simp

lemma keeps_new_keys:
  "J a \<Longrightarrow> set xs \<subseteq> key_content (ap_keys a) \<Longrightarrow>
     J (fold (\<lambda>(room, payload). on_cl (\<lambda>c. fst (send d ''key_rotation'' room (Some (JStr payload)) [] c))) xs a)"
proof (induction xs arbitrary: a)
  case (Cons x xs)
  obtain room payload where x: "x = (room, payload)" by (cases x)
  with Cons.prems have "J (on_cl (\<lambda>c. fst (send d ''key_rotation'' room (Some (JStr payload)) [] c)) a)" by (simp add: on_cl_def new_key)
  with Cons.IH Cons.prems(2) x show ?case by (simp add: on_cl_def)
qed simp

lemma keeps_with_media: "J (a\<lparr>ap_media := f (ap_media a)\<rparr>) \<Longrightarrow> J (with_media pl f a)"
proof -
  let ?a = "a\<lparr>ap_media := f (ap_media a)\<rparr>"
  let ?sends = "drop (length (media_sends (ap_media a))) (media_sends (f (ap_media a)))"
  assume "J ?a"
  moreover have "set ?sends \<subseteq> media_content (ap_media ?a)" by (auto simp: media_content_def dest: in_set_dropD)
  ultimately have sent: "J (fold (\<lambda>(room, payload). on_cl (\<lambda>c. fst (send (pl_draws pl) ''media'' room (Some (JStr payload)) [] c))) ?sends ?a)"
    by (rule keeps_chunks)
  show ?thesis
    unfolding with_media_def deliver_media_def by (rule keeps_fold) (use sent in \<open>auto simp: keeps_append\<close>)
qed

lemma keeps_media_step:
  "J a \<Longrightarrow> (\<And>h. f h = media_hook_step P h e) \<Longrightarrow> \<not> starts_upload e \<Longrightarrow> J (with_media pl f a)"
  by (simp add: keeps_with_media media media_calm_step ok)

lemma keys_calm_state [simp]: "keys_calm (key_state a) k = keys_calm (ap_keys a) k"
  by (simp add: keys_calm_def key_state_def)

lemma key_state_ok: "J a \<Longrightarrow> key_hook_ok (key_state a)"
  by (simp add: key_state_def ok)

lemma keeps_with_keys: "J (a\<lparr>ap_keys := f (key_state a)\<rparr>) \<Longrightarrow> J (with_keys pl f a)"
proof -
  let ?a = "a\<lparr>ap_keys := f (key_state a)\<rparr>"
  let ?xs = "drop (length (rotations_sent (key_state a))) (rotations_sent (f (key_state a)))"
  assume J: "J ?a"
  have sent: "set ?xs \<subseteq> key_content (f (key_state a))" by (auto simp: key_content_def dest: in_set_dropD)
  have "J (on_rm (\<lambda>m. m\<lparr>activeKeyRef := k\<rparr>) ?a)" for k using J by (rule keeps_same) simp
  then have "J (if keyRef (f (key_state a)) \<noteq> keyRef (key_state a) then on_rm (\<lambda>m. m\<lparr>activeKeyRef := k\<rparr>) ?a else ?a)" for k
    using J by simp
  then have out: "J (fold (\<lambda>(room, text). on_cl (\<lambda>c. fst (send (pl_draws pl) ''key_rotation'' room (Some (JStr text)) [] c))) ?xs
      (if keyRef (f (key_state a)) \<noteq> keyRef (key_state a) then on_rm (\<lambda>m. m\<lparr>activeKeyRef := k\<rparr>) ?a else ?a))" for k
    by (rule keeps_new_keys) (use sent in simp)
  show ?thesis
    unfolding with_keys_def Let_def
    by (rule keeps_fold) (use out [of "map_option Key (keyRef (f (key_state a)))"] in \<open>auto simp: keeps_append\<close>)
qed

lemma keeps_deliver_call: "J a \<Longrightarrow> is_call_signal x \<Longrightarrow> J (deliver_call pl x a)"
proof -
  assume J: "J a" and x: "is_call_signal x"
  note mine = ok(3) [OF J]
  have "hook_quiet (ap_hook a) (fold (\<lambda>i. on_mesh i removeAllStreams) (map snd (peerMeshes (ap_hook a))) (ap_hook a))"
    by (rule hook_quiet_fold [OF mine mesh_ok_removeAllStreams mesh_says_ops(3)])
  moreover have "hook_quiet (ap_hook a) (on_mesh i (\<lambda>m. fst (broadcastStream s m)) (ap_hook a))"
    if "map_get (peerMeshes (ap_hook a)) room = Some i" for i s room
    using hook_quiet_step [OF mine, of "HkMesh i (Broadcast s)"] hook_ok_index [OF mine that] by simp
  ultimately show ?thesis
    using J x by (auto simp: deliver_call_def intro!: keeps_send keeps_with_hook split: call_output.split option.split)
qed

lemma keeps_with_call: "J a \<Longrightarrow> (\<And>env. call_ok (f env (ap_call a)) \<and> signals_more (ap_call a) (f env (ap_call a))) \<Longrightarrow> J (with_call pl n f a)"
proof -
  assume J: "J a" and f: "\<And>env. call_ok (f env (ap_call a)) \<and> signals_more (ap_call a) (f env (ap_call a))"
  let ?c = "f (env_of pl n a) (ap_call a)"
  obtain os where os: "outputs ?c = outputs (ap_call a) @ os" "\<forall>x\<in>set os. is_call_signal x"
    using f by (auto simp: signals_more_def)
  have "J (fold (deliver_call pl) xs b)" if "J b" "\<forall>x\<in>set xs. is_call_signal x" for xs b
    using that by (induction xs arbitrary: b) (simp_all add: keeps_deliver_call)
  then show ?thesis using os J f by (simp add: with_call_def Let_def call)
qed

lemma keeps_call: "J a \<Longrightarrow> J (with_call pl n (\<lambda>env c. call_step c (env, e)) a)"
  by (rule keeps_with_call) (simp_all add: call_ok_step signals_step ok)

text \<open>The listeners.\<close>

lemma keeps_on_chat: "J a \<Longrightarrow> J (on_chat dat a)"
  by (simp add: on_chat_def Let_def keeps_decrypt split: option.split)

lemma keeps_on_call: "J a \<Longrightarrow> J (on_call pl ty dat a)"
  using keeps_call [of a pl 0 "IncomingCall _ _"] keeps_call [of a pl 0 EndCall]
  by (simp add: on_call_def split: option.split)

lemma keeps_presence_rest: "J a \<Longrightarrow> J (presence_rest pl presence room a)"
proof -
  assume J: "J a"
  have "J (on_rm (setRooms (\<lambda>prev. case map_get prev room of
                  None \<Rightarrow> None
                | Some current \<Rightarrow> Some (map_set room (presence_update presence current) prev))) a)"
    using J by (rule keeps_rm) (rule rooms_ok_setRooms [OF ok(1) [OF J], where h = "presence_update presence" and room = room],
        auto simp: presence_update_def split: option.splits)
  moreover have "hook_quiet (ap_hook a) (handlePresenceMesh r n ps self (ap_hook a))" for r n ps self
    using hook_quiet_step [OF ok(3) [OF J], of "HkPresence r n ps self"] by simp
  ultimately show ?thesis
    by (auto simp: presence_rest_def Let_def intro!: keeps_with_hook)
qed

lemma keeps_on_presence: "J a \<Longrightarrow> J (on_presence pl dat a)"
proof -
  assume J: "J a"
  have "J (on_rm (\<lambda>m. m\<lparr>saltRefs := map_set room salt (saltRefs m)\<rparr>) (a\<lparr>pendingKeyRooms := rs\<rparr>))" for room salt rs
    by (rule keeps_same) (simp_all add: J)
  then have "J (presence_salt pl presence room salt a)" for presence room salt
    using J by (simp add: presence_salt_def keeps_presence_rest keeps_task Let_def split: option.split)
  then show ?thesis
    using J by (simp add: on_presence_def keeps_presence_rest split: sum.split option.split)
qed

lemma keeps_on_receipt: "J a \<Longrightarrow> J (on_receipt dat a)"
proof -
  assume J: "J a"
  have "J (on_rm (setRooms (\<lambda>prev. receipt_update mid st prev room)) a)" for mid st room
    using J by (rule keeps_rm)
      (rule rooms_ok_setRooms [OF ok(1) [OF J], where h = "\<lambda>s. s\<lparr>r_receipts := map_set mid st (r_receipts s)\<rparr>" and room = room],
        auto simp: receipt_update_def split: option.splits if_splits)
  with J show ?thesis by (simp add: on_receipt_def split: sum.split option.split)
qed

lemma keeps_on_signal: "J a \<Longrightarrow> J (on_signal R pl dat a)"
  using hook_quiet_step [OF ok(3), of a "HkSignal _ _ _" R] by (simp add: on_signal_def Let_def keeps_with_hook)

lemma keeps_keys_step:
  assumes "J a" "\<And>h. f h = key_step P intv h e" "\<And>i ev iv. e \<noteq> KrRotator i ev iv"
  shows "J (with_keys pl f a)"
proof (rule keeps_with_keys, rule keys [OF assms(1)])
  have "keys_calm (key_state a) (key_step P intv (key_state a) e)"
    by (rule keys_calm_step [OF key_state_ok [OF assms(1)] assms(3)])
  then show "keys_calm (ap_keys a) (f (key_state a))" by (simp add: assms(2))
qed

lemma keeps_on_rotation: "J a \<Longrightarrow> J (on_key_rotation pl dat a)"
proof -
  assume J: "J a"
  have "J (active_rotation pl payload a)" for payload
    unfolding active_rotation_def by (rule keeps_keys_step [OF J, of _ undefined 0 "KrMessage _ payload"]) simp_all
  with J show ?thesis by (simp add: on_key_rotation_def keeps_task split: option.split)
qed

lemma keeps_background: "J a \<Longrightarrow> J (background_rotation P pl room payload roomKey a)"
proof -
  assume J: "J a"
  have "J (on_rm (\<lambda>m. appendMessageToRoom room msg (m\<lparr>keyRefs := ks m\<rparr>)) a)" for room msg ks
    using J by (rule keeps_rm) (rule rooms_ok_append, rule rooms_ok_cong [OF ok(1) [OF J]], simp)
  with J show ?thesis by (simp add: background_rotation_def keeps_append Let_def split: sum.split)
qed

lemma keeps_on_message: "J a \<Longrightarrow> J (on_message R pl dat a)"
  by (simp add: on_message_def on_typing_def keeps_on_presence keeps_on_signal keeps_on_receipt keeps_on_chat
      keeps_on_rotation keeps_media keeps_on_call split: option.split json.split)

lemma keeps_on_event: "J a \<Longrightarrow> J (on_event R pl x a)"
  by (simp add: on_event_def on_close_status_def on_reconnecting_status_def keeps_on_message keeps_p2p keeps_status
      split: prod.split emit_data.split)

lemma keeps_with_client: "J a \<Longrightarrow> no_new_content (ap_cl a) (f (ap_cl a)) \<Longrightarrow> J (with_client R pl f a)"
  unfolding with_client_def by (rule keeps_fold) (simp_all add: keeps_cl keeps_on_event)

text \<open>The user's operations, but for sending a chat message.\<close>

lemma keeps_typing:
  assumes "J a" "tc = sendTypingIndicator d now room nickname flag (ap_typing a, ap_cl a)"
  shows "J (a\<lparr>ap_typing := fst tc, ap_cl := snd tc\<rparr>)"
proof -
  have "no_new_content (ap_cl a) (snd tc)"
    using ok(2) [OF assms(1)] by (simp add: assms(2) sendTypingIndicator_def no_new_content_send no_new_content_subset)
  with cl [of "a\<lparr>ap_typing := fst tc\<rparr>"] assms(1) show ?thesis by simp
qed

lemma keeps_input: "J a \<Longrightarrow> J (handleInputChange pl value a)"
proof -
  assume "J a"
  then have "J (on_rm (updateRoomState (activeRoom (ap_rm a)) (\<lambda>s. s\<lparr>r_input := value\<rparr>)) a)" by (rule keeps_update) simp
  then show ?thesis unfolding handleInputChange_def Let_def by (simp only: keeps_typing [OF _ refl] split: if_split) simp
qed

lemma keeps_seen: "J a \<Longrightarrow> J (message_seen pl msgId a)"
  by (simp add: message_seen_def keeps_send)

lemma keeps_active: "J a \<Longrightarrow> J (set_active room a)"
  unfolding set_active_def by (rule keeps_same) (simp_all add: setActiveRoom_def)

lemma keeps_view: "J a \<Longrightarrow> J (on_rm (\<lambda>m. m\<lparr>view := v\<rparr>) a)"
  by (rule keeps_same) simp_all

lemma keeps_setup: "J a \<Longrightarrow> J (setupGlobalHandlers intv a)"
proof -
  assume J: "J a"
  have "keys_calm (ap_keys a) (startRotation intv room k (ap_keys a))" for room k using ok(4) [OF J] by (rule keys_calm_start)
  then have "J (a\<lparr>ap_keys := startRotation intv room k (ap_keys a)\<rparr>)" for room k by (rule keys [OF J])
  then have "J (a\<lparr>ap_keys := startRotation intv room k (ap_keys a), ap_media := initAssembler (ap_media a)\<rparr>)" for room k
    by (rule media) (use media_calm_step [OF ok(5) [OF J], of MhInit undefined] in simp)
  then show ?thesis by (simp add: setupGlobalHandlers_def)
qed

lemma keeps_connected: "J a \<Longrightarrow> J (join_connected d intv room link none nickname ttl a)"
proof -
  assume J: "J a"
  let ?a2 = "on_rm (updateRoomState room (\<lambda>s. s\<lparr>r_shareLink := (if link = [] then r_shareLink s else link)\<rparr>)) (set_status ''connected'' a)"
  let ?a3 = "(if none \<and> ap_listener ?a2 = None then setupGlobalHandlers intv ?a2 else ?a2)\<lparr>ap_observer := True\<rparr>"
  have "J ?a2" by (rule keeps_update) (simp_all add: keeps_status J)
  then have "J ?a3" using keeps_setup by simp
  then have "J (on_cl (\<lambda>c. fst (send d ''join'' room p [] c)) ?a3)" for p by (rule keeps_send) simp
  then have "J (on_rm (\<lambda>m. m\<lparr>view := ''chat''\<rparr>) (set_active room (on_cl (\<lambda>c. fst (send d ''join'' room p [] c)) ?a3)))" for p
    by (intro keeps_view keeps_active)
  then show ?thesis by (simp add: join_connected_def Let_def)
qed

lemma keeps_room_map: "J a \<Longrightarrow> rooms m = rooms (ap_rm a) \<Longrightarrow> J (a\<lparr>ap_rm := m\<rparr>)"
  by (rule rm, assumption, rule rooms_ok_cong [OF ok(1)], assumption+)

lemma keeps_join: "J a \<Longrightarrow> J (handleJoinRoom salt a)"
proof -
  assume J: "J a"
  let ?a1 = "set_status ''connecting'' (a\<lparr>ap_intentional := False\<rparr>)"
  have J1: "J ?a1" by (rule keeps_status) (simp add: J)
  have "J (?a1\<lparr>ap_rm := m\<rparr>)" if "setup_begin salt room pass (ap_rm ?a1) = (m, w)" for room pass m w
    using keeps_room_map [OF J1] setup_begin_frame(1) [of salt room pass "ap_rm ?a1"] that by simp
  with J show ?thesis unfolding handleJoinRoom_def Let_def by (auto intro!: keeps_task split: prod.split)
qed

lemma keeps_keyed: "J a \<Longrightarrow> J (join_keyed P d intv page fresh room w none nickname ttl a)"
proof -
  assume J: "J a"
  have J1: "J (a\<lparr>ap_rm := m\<rparr>)" if "setup_resume P page fresh room w (ap_rm a) = (m, r)" for m r
    using keeps_room_map [OF J] setup_resume_frame [of P page fresh room w "ap_rm a"] that by simp
  have "J (on_cl connect (a\<lparr>ap_rm := m\<rparr>))" if "setup_resume P page fresh room w (ap_rm a) = (m, r)" for m r
    using J1 [OF that] by (rule keeps_cl) (rule no_new_content_ops)
  then show ?thesis
    unfolding join_keyed_def Let_def
    by (auto simp: J1 intro!: keeps_task keeps_status keeps_connected split: prod.split sum.split)
qed

lemma keeps_remove: "J a \<Longrightarrow> J (on_rm (removeRoom room) a)"
  by (rule keeps_rm) (simp_all add: rooms_ok_remove ok)

lemma keeps_leave_last: "J a \<Longrightarrow> J (leave_last a)"
proof -
  assume J: "J a"
  let ?b = "on_cl disconnect (a\<lparr>ap_intentional := True\<rparr>)"
  have b: "J ?b" by (rule keeps_cl) (simp_all add: J no_new_content_ops)
  have "J (?b\<lparr>ap_media := destroyAssembler (ap_media ?b)\<rparr>)"
    using media_calm_step [OF ok(5) [OF b], of MhDestroy] by (intro media [OF b]) simp
  then have "J (?b\<lparr>ap_media := destroyAssembler (ap_media ?b), ap_keys := stopRotation (ap_keys ?b)\<rparr>)"
    using keys_calm_step [OF ok(4) [OF b], of KrStop] by (intro keys) simp_all
  then have "J (?b\<lparr>ap_media := destroyAssembler (ap_media ?b), ap_keys := stopRotation (ap_keys ?b),
      ap_listener := None, ap_observer := False\<rparr>)" by simp
  note c = this [THEN keeps_view [of _ "''join''"], THEN keeps_active [of _ "[]"], THEN keeps_status [of _ "''disconnected''"]]
  have "J (d\<lparr>ap_nickname := [], ap_ttl := 0, ap_media := resetProgress (ap_media d), ap_typing := t\<rparr>)" if "J d" for d t
    using that media_calm_step [OF ok(5) [OF that], of MhReset] media [of "d\<lparr>ap_nickname := [], ap_ttl := 0\<rparr>"] by simp
  from this [OF c] show ?thesis unfolding leave_last_def Let_def .
qed

lemma keeps_leave: "J a \<Longrightarrow> J (leaveRoom pl room a)"
proof -
  assume J: "J a"
  have "J (on_cl (\<lambda>c. fst (send (pl_draws pl) ''leave'' r (Some JNull) [] c)) a)" for r using J by (rule keeps_send) simp
  then have "J (with_hook pl (cleanupRoom r) (on_cl (\<lambda>c. fst (send (pl_draws pl) ''leave'' r (Some JNull) [] c)) a))" for r
    by (rule keeps_with_hook) (use hook_quiet_step [OF ok(3) [OF J], of "HkCleanup r"] in simp)
  then have "J (on_rm (removeRoom r) (with_hook pl (cleanupRoom r) (on_cl (\<lambda>c. fst (send (pl_draws pl) ''leave'' r (Some JNull) [] c)) a)))" for r
    by (rule keeps_remove)
  then show ?thesis
    unfolding leaveRoom_def Let_def by (simp add: keeps_active keeps_leave_last split: list.split)
qed

lemma keeps_render: "J a \<Longrightarrow> J (render_app a)"
  using keeps_same [of a render] by (simp add: render_app_def request_microphone_def Let_def)

lemma keeps_unmount: "J a \<Longrightarrow> J (unmount pl a)"
proof -
  assume J: "J a"
  have "J (a\<lparr>ap_listener := None, ap_keys := stopRotation (ap_keys a)\<rparr>)"
    using J keys_calm_step [OF ok(4) [OF J], of KrStop] by (intro keys) simp_all
  then have "J (a\<lparr>ap_listener := None, ap_keys := stopRotation (ap_keys a), ap_media := destroyAssembler (ap_media a)\<rparr>)"
    using media_calm_step [OF ok(5) [OF J], of MhDestroy] by (intro media) simp_all
  then have "J (on_cl disconnect (a\<lparr>ap_listener := None, ap_keys := stopRotation (ap_keys a), ap_media := destroyAssembler (ap_media a)\<rparr>))"
    by (rule keeps_cl) (rule no_new_content_ops)
  then have b: "J ((on_cl disconnect (a\<lparr>ap_listener := None, ap_keys := stopRotation (ap_keys a), ap_media := destroyAssembler (ap_media a)\<rparr>))
      \<lparr>ap_observer := False\<rparr>)" by simp
  note mine = ok(3) [OF b]
  show ?thesis unfolding unmount_def Let_def
    by (rule keeps_with_hook [OF b]) (rule hook_quiet_fold [OF mine mesh_ok_closeAll mesh_says_ops(1)])
qed

text \<open>Sending a chat message, and the tasks that wait.\<close>

lemma keeps_submit:
  assumes "J a"
    and "\<And>b room k input nickname. J b \<Longrightarrow> map_get (keyRefs (ap_rm a)) room = Some k \<Longrightarrow>
       ap_rm b = ap_rm a \<Longrightarrow> J (add_task (Encrypting room input k nickname) b)"
  shows "J (sendMessage pl a)"
  unfolding sendMessage_def Let_def using assms(1)
  by (auto intro!: assms(2) keeps_typing [OF _ refl] split: option.split)

lemma keeps_encrypted:
  assumes "J a"
    and "\<And>b c k. J b \<Longrightarrow> key = Key k \<Longrightarrow> encrypt P iv k input = Inr c \<Longrightarrow>
       J (b\<lparr>ap_cl := fst (send d ''chat'' room (Some (JStr c)) (d_msgId d) (ap_cl b))\<rparr>)
       \<and> J (b\<lparr>ap_hook := fst (send_p2p room (p2p_text d room c) (ap_hook b))\<rparr>)"
  shows "J (message_encrypted P d iv room input key nickname a)"
proof (cases "case key of Key k \<Rightarrow> encrypt P iv k input | Fragment _ \<Rightarrow> Inl TypeError")
  case (Inl e)
  then show ?thesis using assms(1) by (simp add: message_encrypted_def keeps_append)
next
  case (Inr c)
  let ?p2p = "send_p2p room (p2p_text d room c) (ap_hook a)"
  let ?a1 = "a\<lparr>ap_hook := fst ?p2p\<rparr>"
  have a1: "J ?a1" using Inr assms(2) [OF assms(1)] by (simp split: key_ref.splits)
  have sent: "J (?a1\<lparr>ap_cl := fst (send d ''chat'' room (Some (JStr c)) (d_msgId d) (ap_cl ?a1))\<rparr>)"
    using Inr assms(2) [OF a1] by (simp split: key_ref.splits)
  have a2: "J (?a1\<lparr>ap_cl := fst (if snd ?p2p then (ap_cl ?a1, True)
      else send d ''chat'' room (Some (JStr c)) (d_msgId d) (ap_cl ?a1))\<rparr>)"
    using a1 sent by (cases "snd ?p2p") simp_all
  have "J (on_rm (updateRoomState room (\<lambda>s. s\<lparr>r_input := []\<rparr>)) (on_rm (appendMessageToRoom room msg)
     (?a1\<lparr>ap_cl := fst (if snd ?p2p then (ap_cl ?a1, True)
        else send d ''chat'' room (Some (JStr c)) (d_msgId d) (ap_cl ?a1))\<rparr>)))" for msg
    by (rule keeps_update [OF keeps_append [OF a2]]) simp
  then show ?thesis by (simp only: message_encrypted_def Let_def Inr sum.case)
qed

lemma keeps_key_derived: "J a \<Longrightarrow> J (key_derived P pl room pp salt presence a)"
proof -
  assume J: "J a"
  have reemit: "J b \<Longrightarrow> J (reemit q b)" for q b
    using keeps_cl [of b "emit_event ''message'' (JsonData q)"] keeps_on_chat
    by (simp add: reemit_def Let_def no_new_content_ops)
  have "J (on_rm (\<lambda>m. m\<lparr>keyRefs := map_set room (Key k) (keyRefs m),
      activeKeyRef := (if room = activeRoomRef m then Some (Key k) else activeKeyRef m),
      passphraseRefs := map_delete room (passphraseRefs m)\<rparr>) a)" for k
    using J by (rule keeps_same) simp
  then show ?thesis
    unfolding key_derived_def Let_def using J
    by (auto intro!: keeps_presence_rest keeps_fold reemit split: sum.split option.split)
qed

lemma keeps_chat_decrypted: "J a \<Longrightarrow> J (chat_decrypted P pl dat room key p2p a)"
  by (simp add: chat_decrypted_def Let_def keeps_append keeps_send)

lemma keeps_resume:
  assumes J: "J a"
    and "\<And>b c iv d room input k nickname. J b \<Longrightarrow> Encrypting room input (Key k) nickname \<in> set (ap_tasks a) \<Longrightarrow>
       encrypt P iv k input = Inr c \<Longrightarrow>
       J (b\<lparr>ap_cl := fst (send d ''chat'' room (Some (JStr c)) (d_msgId d) (ap_cl b))\<rparr>)
       \<and> J (b\<lparr>ap_hook := fst (send_p2p room (p2p_text d room c) (ap_hook b))\<rparr>)"
  shows "J (resume_task P pl intv page iv fresh settled i a)"
proof (cases "i < length (ap_tasks a)")
  case True
  let ?a1 = "a\<lparr>ap_tasks := (ap_tasks a)[i := Done]\<rparr>"
  have a1: "J ?a1" by (rule tasks [OF J]) (auto dest!: set_update_subset_insert [THEN subsetD])
  show ?thesis
  proof (cases "ap_tasks a ! i")
    case (Encrypting room input key nickname)
    then have mem: "Encrypting room input key nickname \<in> set (ap_tasks a)" using True by (metis nth_mem)
    have "J (message_encrypted P (pl_draws pl) iv room input key nickname ?a1)"
      by (rule keeps_encrypted [OF a1]) (use assms(2) mem in blast)
    with True Encrypting show ?thesis by (simp add: resume_task_def)
  qed (use True J a1 in \<open>simp_all add: resume_task_def Let_def keeps_key_derived keeps_chat_decrypted keeps_connected keeps_status
      keeps_background keeps_keyed\<close>)
qed (simp add: resume_task_def J)

lemma keeps_room_step: "J a \<Longrightarrow> J (on_rm (\<lambda>m. room_step m e) a)"
  by (simp add: keeps_rm rooms_ok_step ok)

lemma keeps_switch: "J a \<Longrightarrow> J (on_rm (switchRoom room) a)"
  using keeps_room_step [of a "RmSwitch room"] by simp

text \<open>
  Every step keeps \<open>J\<close>, if starting an encryption, sending its result, starting an upload and
  the events of a rotator do.
\<close>

theorem keeps_step:
  assumes J: "J a"
    and start: "\<And>b room k input nickname. J b \<Longrightarrow> map_get (keyRefs (ap_rm a)) room = Some k \<Longrightarrow>
       ap_rm b = ap_rm a \<Longrightarrow> J (add_task (Encrypting room input k nickname) b)"
    and result: "\<And>b c iv d room input k nickname. J b \<Longrightarrow> Encrypting room input (Key k) nickname \<in> set (ap_tasks a) \<Longrightarrow>
       encrypt (st_crypto S) iv k input = Inr c \<Longrightarrow>
       J (b\<lparr>ap_cl := fst (send d ''chat'' room (Some (JStr c)) (d_msgId d) (ap_cl b))\<rparr>)
       \<and> J (b\<lparr>ap_hook := fst (send_p2p room (p2p_text d room c) (ap_hook b))\<rparr>)"
    and upload: "\<And>ivs tid toMB url sel. J (a\<lparr>ap_media := handleFileSelect (st_crypto S) ivs tid toMB (activeRoom (ap_rm a)) url
       (key_of (activeKeyRef (ap_rm a))) sel (ap_media a)\<rparr>)"
    and canvas: "\<And>ivs tid toMB url now x. J (a\<lparr>ap_media := handleCanvasShare (st_crypto S) ivs tid toMB (activeRoom (ap_rm a)) url
       (key_of (activeKeyRef (ap_rm a))) now x (ap_media a)\<rparr>)"
    and rotate: "\<And>i ev iv. J (a\<lparr>ap_keys := rotator_event (st_crypto S) iv i ev (key_state a)\<rparr>)"
  shows "J (app_step S a (pl, e))"
proof (cases e)
  case (Resume i settled iv fresh)
  have "J (resume_task (st_crypto S) pl (st_interval S) (st_page S) iv fresh settled i a)" by (rule keeps_resume [OF J]) (rule result)
  with Resume show ?thesis by simp
next
  case Submit
  have "J (sendMessage pl a)" by (rule keeps_submit [OF J]) (rule start)
  with Submit show ?thesis by simp
next
  case (Network n)
  with J show ?thesis by (simp add: keeps_with_client no_new_content_network ok)
next
  case (RotatorStep i ev iv)
  have "J (with_keys pl (rotator_event (st_crypto S) iv i ev) a)" by (rule keeps_with_keys) (rule rotate)
  with RotatorStep show ?thesis by simp
next
  case (RotationAnnounced n)
  have "J (with_keys pl (announce n) a)" by (rule keeps_keys_step [OF J, of _ undefined 0 "KrAnnounced n"]) simp_all
  with RotationAnnounced show ?thesis by simp
next
  case (RotationOpened n)
  have "J (with_keys pl (key_opened (st_crypto S) n) a)"
    by (rule keeps_keys_step [OF J, of _ "st_crypto S" 0 "KrOpened n"]) simp_all
  with RotationOpened show ?thesis by simp
next
  case (PeerEvent i k r)
  with keeps_hook_step [OF J, of _ "st_rtc S" "HkMesh i (Browser k r)" pl] show ?thesis by simp
next
  case (OfferTimer k)
  with keeps_hook_step [OF J, of _ undefined "HkTimer k" pl] show ?thesis by simp
next
  case (OfferSettles k b)
  with keeps_hook_step [OF J, of _ undefined "HkOffer k b" pl] show ?thesis by simp
next
  case (ChunkResumes r i url)
  with keeps_media_step [OF J, of _ "st_crypto S" "MhResume r i (bound_room a) (d_msgId (pl_draws pl)) url" pl] show ?thesis by simp
next
  case (ChunkStale r t)
  with keeps_media_step [OF J, of _ undefined "MhStale r t" pl] show ?thesis by simp
next
  case ProgressTimer
  with keeps_media_step [OF J, of _ undefined MhProgressTimer pl] show ?thesis by simp
next
  case (UploadStep j)
  with keeps_media_step [OF J, of _ undefined "MhUpload j (d_msgId (pl_draws pl))" pl] show ?thesis by simp
next
  case (FileSelect ivs toMB url sel)
  have "J (with_media pl (handleFileSelect (st_crypto S) ivs (d_id (pl_draws pl)) toMB (activeRoom (ap_rm a)) url
      (key_of (activeKeyRef (ap_rm a))) sel) a)" by (rule keeps_with_media) (rule upload)
  with FileSelect show ?thesis by simp
next
  case (CanvasShare ivs toMB url now x)
  have "J (with_media pl (handleCanvasShare (st_crypto S) ivs (d_id (pl_draws pl)) toMB (activeRoom (ap_rm a)) url
      (key_of (activeKeyRef (ap_rm a))) now x) a)" by (rule keeps_with_media) (rule canvas)
  with CanvasShare show ?thesis by simp
next
  case (CallAnswer i answer)
  with keeps_call [OF J, of pl _ "MediaAnswer i answer"] show ?thesis by simp
next
  case (CallClick ty)
  with keeps_call [OF J, of pl 0 "StartCall ty"] show ?thesis by simp
next
  case HangUpClick
  with keeps_call [OF J, of pl 0 EndCall] show ?thesis by simp
next
  case MuteClick
  with keeps_call [OF J, of pl 0 ToggleMute] show ?thesis by simp
next
  case VideoClick
  with keeps_call [OF J, of pl 0 ToggleVideo] show ?thesis by simp
next
  case CopyLink
  with keeps_room_step [OF J, of RmCopy] show ?thesis by simp
next
  case (CopySettles i)
  with keeps_room_step [OF J, of "RmCopyDone i"] show ?thesis by simp
next
  case (CopiedTimer i)
  with keeps_room_step [OF J, of "RmCopiedTimer i"] show ?thesis by simp
next
  case (Mounted hash)
  with keeps_room_step [OF J, of "RmFragment hash"] show ?thesis by simp
next
  case (QrDone url)
  with keeps_room_step [OF J, of "RmQr url"] show ?thesis by simp
qed (use J in \<open>simp_all add: keeps_join keeps_leave keeps_input keeps_switch keeps_seen keeps_update keeps_render keeps_unmount
    render_frame\<close>)

end

section \<open>The invariants of the components\<close>

interpretation well_formed: app_property app_ok
  by unfold_locales (simp_all add: app_ok_def no_new_content_def hook_quiet_def keys_calm_def media_calm_def client_inv_send)

lemma app_ok_step: "app_ok a \<Longrightarrow> app_ok (app_step S a e)"
proof (cases e)
  case (Pair pl ev)
  assume a: "app_ok a"
  note parts = app_ok_parts [OF a]
  have "key_hook_ok (key_state a)" using parts(4) by (simp add: key_state_def)
  then have keys: "key_hook_ok (rotator_event (st_crypto S) iv i e (key_state a))" for iv i e
    using key_hook_step [of "key_state a" "st_crypto S" 0 "KrRotator i e iv"] by simp
  have media: "hook_media_ok (media_hook_step (st_crypto S) (ap_media a) e)" for e using parts(5) by (rule hook_media_ok_step)
  have "app_ok (app_step S a (pl, ev))"
    using a keys media [of "MhFile _ _ _ _ _ _ _"] media [of "MhCanvas _ _ _ _ _ _ _ _"]
    by (intro well_formed.keeps_step) (simp_all add: app_ok_def add_task_def client_inv_send hook_ok_send_p2p)
  then show ?thesis by (simp add: Pair)
qed

interpretation application: event_machine "app_step S" app_ok for S
  by unfold_locales (rule app_ok_step)

lemma app_ok_new: "app_ok new_app"
  by (simp add: app_ok_def new_app_def client_inv_new hook_media_ok_new)
    (simp add: hook_ok_def new_mesh_hook_def key_hook_ok_def new_key_hook_def call_ok_def new_call_def)

lemma app_ok_run: "app_ok (app_run S new_app es)"
  using app_ok_new by (rule application.inv_run)

section \<open>Properties\<close>

text \<open>
  C10: The application's state is well formed in every run: rooms have unique names and
  at most 500 messages each, the client tracks at most five rooms and queues at most 200
  messages, each room has at most one mesh, a call is active exactly while it has a local
  stream, every finished media call was reported once, and no rotator but the current one has
  a timer running.
\<close>

theorem application_state_is_well_formed:
  fixes S es
  defines "a \<equiv> app_run S new_app es"
  shows "distinct (map_keys (rooms (ap_rm a))) \<and> (\<forall>x\<in>set (rooms (ap_rm a)). length (r_messages (snd x)) \<le> 500)
     \<and> length (joinedRooms (ap_cl a)) \<le> 5 \<and> length (pendingQueue (ap_cl a)) \<le> 200
     \<and> distinct (map_keys (peerMeshes (ap_hook a)))
     \<and> callActive (ap_call a) = (localStream (ap_call a) \<noteq> None)
     \<and> received_reports (ap_media a) = finished_calls (ap_media a)
     \<and> (\<forall>i<length (rotators (ap_keys a)). rotatorRef (ap_keys a) \<noteq> Some i \<longrightarrow> live_intervals (fst (rotators (ap_keys a) ! i)) = [])"
proof -
  have "app_ok a" unfolding a_def by (rule app_ok_run)
  note parts = app_ok_parts [OF this]
  show ?thesis
    using parts by (simp add: rooms_ok_def client_inv_def hook_ok_def key_hook_ok_def hook_media_ok_def call_ok_def map_ok_def
        MAX_MESSAGES_def MAX_ROOMS_def MAX_PENDING_def)
qed

definition demo_site :: "byte site" where
  "demo_site = \<lparr>st_crypto = demo_crypto, st_rtc = demo_rtc, st_interval = 1, st_page = []\<rparr>"

text \<open>A user joins a room, and sends a message.\<close>

definition demo_joining :: "(platform \<times> byte app_event) list" where
  "demo_joining = map (Pair demo_platform)
     [SetJoinRoom ''r'', JoinSubmit [], Resume 0 True [] (Inr 7), Resume 1 True [] (Inr 0),
      Network (SockOpen 0 (\<lambda>_. pl_draws demo_platform)), Resume 2 True [] (Inr 0), Render]"

definition demo_session :: "(platform \<times> byte app_event) list" where
  "demo_session = demo_joining @ map (Pair demo_platform)
     [InputChange ''hi'', Submit, Resume 3 True (replicate 12 0) (Inr 0)]"

definition writes_type :: "string \<Rightarrow> client \<Rightarrow> bool" where
  "writes_type ty c =
     list_ex (\<lambda>s. list_ex (\<lambda>f. case f of Msg m \<Rightarrow> m_type m = ty | RawText t \<Rightarrow> False) (sk_sent s)) (sockets c)"

lemma writes_written:
  assumes "writes_type ty c"
  obtains m where "m \<in> written c" "m_type m = ty"
proof -
  obtain s f where f: "s \<in> set (sockets c)" "f \<in> set (sk_sent s)" "case f of Msg m \<Rightarrow> m_type m = ty | RawText t \<Rightarrow> False"
    using assms by (auto simp: writes_type_def list_ex_iff)
  then show ?thesis using that by (cases f) (auto simp: written_def)
qed

lemma demo_session_writes:
  "writes_type ''chat'' (ap_cl (app_run demo_site new_app demo_session))"
  "map_keys (rooms (ap_rm (app_run demo_site new_app demo_session))) = [''r'']"
  by code_simp+

lemma application_state_is_well_formed_witness:
  "\<exists>s. (''r'', s) \<in> set (rooms (ap_rm (app_run demo_site new_app demo_session))) \<and> length (r_messages s) \<le> 500
     \<and> length (joinedRooms (ap_cl (app_run demo_site new_app demo_session))) \<le> 5"
proof -
  obtain s where "(''r'', s) \<in> set (rooms (ap_rm (app_run demo_site new_app demo_session)))"
    using demo_session_writes(2) by (auto simp: map_keys_def)
  with application_state_is_well_formed [of demo_site demo_session] show ?thesis by (intro exI [of _ s]) auto
qed

text \<open>
  The first join registers the listeners while no room is active: the room they keep is the
  empty string, and the rotator starts without a key.
\<close>

lemma first_join_binds_no_room:
  "ap_listener (app_run demo_site new_app demo_session) = Some []
   \<and> map currentKey (map fst (rotators (ap_keys (app_run demo_site new_app demo_session)))) = [None]"
  by (rule conjI) code_simp+

text \<open>Submitting the form twice before the key is there opens two connections.\<close>

lemma double_join_opens_two_sockets:
  "length (sockets (ap_cl (app_run demo_site new_app (map (Pair demo_platform)
     [SetJoinRoom ''r'', JoinSubmit [], JoinSubmit [], Resume 0 True [] (Inr 7), Resume 1 True [] (Inr 8),
      Resume 2 True [] (Inr 0), Resume 3 True [] (Inr 0)])))) = 2"
  by code_simp

end
