(* ===== verification/Sealing.thy ===== *)
theory Sealing
  imports System
begin

text \<open>
  What leaves the browser, over whole runs of the application: the messages written by
  \<^verbatim>\<open>socket/client.js\<close> and the texts sent over the data channels of \<^verbatim>\<open>lib/webrtc.js\<close>. The
  invariant \<open>sealed\<close> says that what carries content is encrypted under keys of a keyring, and
  \<open>keyring_of\<close> is the keyring that the application has used in a run.
\<close>

section \<open>The invariant\<close>

text \<open>The keys of each room, the keys that were active, and the current keys of the rotators.\<close>

record 'k keyring =
  room_keys :: "string \<Rightarrow> 'k set"
  active_keys :: "'k set"
  rotator_keys :: "'k set"

definition sealed_message :: "'k webcrypto \<Rightarrow> 'k keyring \<Rightarrow> message \<Rightarrow> bool" where
  "sealed_message P H m \<longleftrightarrow>
     (m_type m = ''chat'' \<longrightarrow>
        (\<exists>k\<in>room_keys H (m_room m). \<exists>iv input c. encrypt P iv k input = Inr c \<and> m_payload m = Some (JStr c)))
     \<and> (m_type m = ''media'' \<longrightarrow> (\<exists>k\<in>active_keys H. \<exists>p. chunk_under P k p \<and> m_payload m = Some (JStr p)))
     \<and> (m_type m = ''key_rotation'' \<longrightarrow> (\<exists>c. sealed_key P (rotator_keys H) c \<and> m_payload m = Some (JStr c)))"

definition sealed_text :: "'k webcrypto \<Rightarrow> 'k keyring \<Rightarrow> string \<Rightarrow> bool" where
  "sealed_text P H t \<longleftrightarrow>
     (\<exists>d room c. t = p2p_text d room c \<and> (\<exists>k\<in>room_keys H room. \<exists>iv input. encrypt P iv k input = Inr c))"

definition sealed :: "'k webcrypto \<Rightarrow> 'k keyring \<Rightarrow> 'k app \<Rightarrow> bool" where
  "sealed P H a \<longleftrightarrow>
     (\<forall>m\<in>written (ap_cl a). sealed_message P H m)
     \<and> (\<forall>t\<in>channel_texts (ap_hook a). sealed_text P H t)
     \<and> (\<forall>room input k nickname. Encrypting room input (Key k) nickname \<in> set (ap_tasks a) \<longrightarrow> k \<in> room_keys H room)
     \<and> (\<forall>x\<in>media_content (ap_media a). \<exists>k\<in>active_keys H. chunk_under P k (snd x))
     \<and> keys_sealed P (rotator_keys H) (ap_keys a)"

lemma sealed_plain: "\<not> is_content (m_type m) \<Longrightarrow> sealed_message P H m"
  by (auto simp: sealed_message_def)

lemma sealed_send:
  assumes "sealed P H a" "sealed_message P H (make_message d ty room p mid)"
  shows "sealed P H (a\<lparr>ap_cl := fst (send d ty room p mid (ap_cl a))\<rparr>)"
  using assms written_send [of d ty room p mid "ap_cl a"] by (auto simp: sealed_def)

interpretation sealing: app_property "\<lambda>a. app_ok a \<and> sealed P H a" for P H
proof (unfold_locales, goal_cases)
  case (3 a c)
  then have "sealed P H (a\<lparr>ap_cl := c\<rparr>)" using sealed_plain by (fastforce simp: sealed_def no_new_content_def)
  with 3 show ?case by (simp add: well_formed.cl)
next
  case (4 a h)
  then have "sealed P H (a\<lparr>ap_hook := h\<rparr>)" by (auto simp: sealed_def hook_quiet_def)
  with 4 show ?case by (simp add: well_formed.hook)
next
  case (5 a k)
  then have "sealed P H (a\<lparr>ap_keys := k\<rparr>)" by (auto simp: sealed_def intro: keys_sealed_calm)
  with 5 show ?case by (simp add: well_formed.keys)
next
  case (6 a x)
  then have "sealed P H (a\<lparr>ap_media := x\<rparr>)" by (auto simp: sealed_def media_calm_def)
  with 6 show ?case by (simp add: well_formed.media)
next
  case (7 a room p d)
  then have "\<exists>k\<in>active_keys H. chunk_under P k p" by (fastforce simp: sealed_def)
  then have "sealed_message P H (make_message d ''media'' room (Some (JStr p)) [])" by (auto simp: sealed_message_def make_message_def)
  with 7 show ?case by (simp add: sealed_send well_formed.chunk)
next
  case (8 a room p d)
  then have "sealed_key P (rotator_keys H) p" by (fastforce simp: sealed_def keys_sealed_def)
  then have "sealed_message P H (make_message d ''key_rotation'' room (Some (JStr p)) [])"
    by (auto simp: sealed_message_def make_message_def)
  with 8 show ?case by (simp add: sealed_send well_formed.new_key)
next
  case (10 a ts)
  then have "sealed P H (a\<lparr>ap_tasks := ts\<rparr>)" by (fastforce simp: sealed_def)
  with 10 show ?case by (simp add: well_formed.tasks)
qed (simp_all add: sealed_def app_ok_def)

section \<open>The keyring of a run\<close>

definition keyring_le :: "'k keyring \<Rightarrow> 'k keyring \<Rightarrow> bool" where
  "keyring_le H H' \<longleftrightarrow>
     (\<forall>room. room_keys H room \<subseteq> room_keys H' room) \<and> active_keys H \<subseteq> active_keys H' \<and> rotator_keys H \<subseteq> rotator_keys H'"

lemma sealed_mono:
  assumes "sealed P H a" "keyring_le H H'"
  shows "sealed P H' a"
proof -
  have "sealed_message P H m \<Longrightarrow> sealed_message P H' m" for m
    using assms(2) unfolding sealed_message_def keyring_le_def sealed_key_def by blast
  moreover have "sealed_text P H t \<Longrightarrow> sealed_text P H' t" for t
    using assms(2) unfolding sealed_text_def keyring_le_def by blast
  moreover have "keys_sealed P (rotator_keys H') (ap_keys a)"
    using assms keys_sealed_mono by (auto simp: sealed_def keyring_le_def)
  ultimately show ?thesis using assms unfolding sealed_def keyring_le_def by blast
qed

text \<open>The keys that a step from \<open>a\<close> may encrypt with.\<close>

definition holds_keys :: "'k keyring \<Rightarrow> 'k app \<Rightarrow> bool" where
  "holds_keys H a \<longleftrightarrow>
     (\<forall>room k. map_get (keyRefs (ap_rm a)) room = Some (Key k) \<longrightarrow> k \<in> room_keys H room)
     \<and> (\<forall>k. activeKeyRef (ap_rm a) = Some (Key k) \<longrightarrow> k \<in> active_keys H)
     \<and> (\<forall>x\<in>set (rotators (ap_keys a)). \<forall>k. currentKey (fst x) = Some k \<longrightarrow> k \<in> rotator_keys H)"

lemma active_key: "holds_keys H a \<Longrightarrow> key_of (activeKeyRef (ap_rm a)) = Some k \<Longrightarrow> k \<in> active_keys H"
  by (auto simp: holds_keys_def key_of_def split: option.splits key_ref.splits)

lemma sealed_media:
  assumes "sealed P H a" "\<And>x. x \<in> media_content h \<Longrightarrow> x \<in> media_content (ap_media a) \<or> (\<exists>k\<in>active_keys H. chunk_under P k (snd x))"
  shows "sealed P H (a\<lparr>ap_media := h\<rparr>)"
proof -
  have "\<exists>k\<in>active_keys H. chunk_under P k (snd x)" if "x \<in> media_content h" for x
    using assms(2) [OF that] assms(1) unfolding sealed_def by blast
  with assms(1) show ?thesis by (simp add: sealed_def)
qed

lemma sealed_step:
  fixes S H
  assumes a: "app_ok a" "sealed (st_crypto S) H a" and keys: "holds_keys H a"
  shows "sealed (st_crypto S) H (app_step S a e)"
proof -
  let ?P = "st_crypto S"
  note parts = app_ok_parts [OF a(1)]
  have "app_ok (app_step S a (pl, ev)) \<and> sealed ?P H (app_step S a (pl, ev))" for pl ev
  proof (rule sealing.keeps_step)
    show "app_ok a \<and> sealed ?P H a" using a by simp
  next
    fix b :: "'a app" and room k input nickname
    assume "app_ok b \<and> sealed ?P H b" "map_get (keyRefs (ap_rm a)) room = Some k"
    then show "app_ok (add_task (Encrypting room input k nickname) b) \<and> sealed ?P H (add_task (Encrypting room input k nickname) b)"
      using keys by (auto simp: sealed_def app_ok_def holds_keys_def)
  next
    fix b :: "'a app" and c iv d room input k nickname
    assume b: "app_ok b \<and> sealed ?P H b" and "Encrypting room input (Key k) nickname \<in> set (ap_tasks a)" and c: "encrypt ?P iv k input = Inr c"
    then have k: "k \<in> room_keys H room" using a(2) unfolding sealed_def by blast
    with c have "sealed_message ?P H (make_message d ''chat'' room (Some (JStr c)) (d_msgId d))"
      by (auto simp: sealed_message_def make_message_def)
    with b have "sealed ?P H (b\<lparr>ap_cl := fst (send d ''chat'' room (Some (JStr c)) (d_msgId d) (ap_cl b))\<rparr>)"
      by (simp add: sealed_send)
    moreover have "sealed_text ?P H (p2p_text d room c)" unfolding sealed_text_def using k c by blast
    then have "sealed ?P H (b\<lparr>ap_hook := fst (send_p2p room (p2p_text d room c) (ap_hook b))\<rparr>)"
      using b channel_texts_send_p2p [of room "p2p_text d room c" "ap_hook b"] by (auto simp: sealed_def)
    ultimately show "(app_ok (b\<lparr>ap_cl := fst (send d ''chat'' room (Some (JStr c)) (d_msgId d) (ap_cl b))\<rparr>)
        \<and> sealed ?P H (b\<lparr>ap_cl := fst (send d ''chat'' room (Some (JStr c)) (d_msgId d) (ap_cl b))\<rparr>))
      \<and> (app_ok (b\<lparr>ap_hook := fst (send_p2p room (p2p_text d room c) (ap_hook b))\<rparr>)
        \<and> sealed ?P H (b\<lparr>ap_hook := fst (send_p2p room (p2p_text d room c) (ap_hook b))\<rparr>))"
      using b by (simp add: app_ok_def client_inv_send hook_ok_send_p2p)
  next
    fix ivs tid toMB url sel
    let ?h = "handleFileSelect ?P ivs tid toMB (activeRoom (ap_rm a)) url (key_of (activeKeyRef (ap_rm a))) sel (ap_media a)"
    have "hook_media_ok ?h"
      using hook_media_ok_step [OF parts(5), of ?P "MhFile ivs tid toMB (activeRoom (ap_rm a)) url (key_of (activeKeyRef (ap_rm a))) sel"] by simp
    moreover have "x \<in> media_content (ap_media a) \<or> (\<exists>k\<in>active_keys H. chunk_under ?P k (snd x))" if "x \<in> media_content ?h" for x
      using that upload_encrypts [of "fst x" "snd x"] active_key [OF keys] by fastforce
    ultimately show "app_ok (a\<lparr>ap_media := ?h\<rparr>) \<and> sealed ?P H (a\<lparr>ap_media := ?h\<rparr>)"
      using a sealed_media [OF a(2)] by (simp add: app_ok_def)
  next
    fix ivs tid toMB url now x
    let ?h = "handleCanvasShare ?P ivs tid toMB (activeRoom (ap_rm a)) url (key_of (activeKeyRef (ap_rm a))) now x (ap_media a)"
    have "hook_media_ok ?h"
      using hook_media_ok_step [OF parts(5), of ?P "MhCanvas ivs tid toMB (activeRoom (ap_rm a)) url (key_of (activeKeyRef (ap_rm a))) now x"] by simp
    moreover have "y \<in> media_content (ap_media a) \<or> (\<exists>k\<in>active_keys H. chunk_under ?P k (snd y))" if "y \<in> media_content ?h" for y
      using that canvas_encrypts [of "fst y" "snd y"] active_key [OF keys] by fastforce
    ultimately show "app_ok (a\<lparr>ap_media := ?h\<rparr>) \<and> sealed ?P H (a\<lparr>ap_media := ?h\<rparr>)"
      using a sealed_media [OF a(2)] by (simp add: app_ok_def)
  next
    fix i ev iv
    have "key_hook_ok (key_state a)" using parts(4) by (simp add: key_state_def)
    then have "key_hook_ok (rotator_event ?P iv i ev (key_state a))"
      using key_hook_step [of "key_state a" ?P 0 "KrRotator i ev iv"] by simp
    moreover have "keys_sealed ?P (rotator_keys H) (key_state a)" using a(2) by (simp add: sealed_def keys_sealed_def key_state_def)
    then have "keys_sealed ?P (rotator_keys H) (rotator_event ?P iv i ev (key_state a))"
      by (rule keys_sealed_rotator_event) (use keys in \<open>auto simp: holds_keys_def key_state_def\<close>)
    ultimately show "app_ok (a\<lparr>ap_keys := rotator_event ?P iv i ev (key_state a)\<rparr>)
        \<and> sealed ?P H (a\<lparr>ap_keys := rotator_event ?P iv i ev (key_state a)\<rparr>)"
      using a by (simp add: app_ok_def sealed_def)
  qed
  then show ?thesis by (cases e) simp
qed

text \<open>The keys that the application has held at some point of a run.\<close>

definition keyring_of :: "'k site \<Rightarrow> (platform \<times> 'k app_event) list \<Rightarrow> 'k keyring" where
  "keyring_of S es =
     (let after = \<lambda>n. app_run S new_app (take n es) in
      \<lparr>room_keys = (\<lambda>room. {k. \<exists>n\<le>length es. map_get (keyRefs (ap_rm (after n))) room = Some (Key k)}),
       active_keys = {k. \<exists>n\<le>length es. activeKeyRef (ap_rm (after n)) = Some (Key k)},
       rotator_keys = {k. \<exists>n\<le>length es. \<exists>x\<in>set (rotators (ap_keys (after n))). currentKey (fst x) = Some k}\<rparr>)"

lemma keyring_holds: "holds_keys (keyring_of S es) (app_run S new_app es)"
  by (auto simp: holds_keys_def keyring_of_def Let_def intro!: exI [of _ "length es"])

lemma keyring_snoc: "keyring_le (keyring_of S es) (keyring_of S (es @ [e]))"
proof -
  have later: "\<exists>n\<le>length (es @ [e]). Q (take n (es @ [e]))" if Q: "\<exists>n\<le>length es. Q (take n es)" for Q
  proof -
    obtain n where "n \<le> length es" "Q (take n es)" using Q by blast
    then show ?thesis by (intro exI [of _ n]) simp
  qed
  show ?thesis
    unfolding keyring_le_def keyring_of_def Let_def keyring.simps
    using later [of "\<lambda>xs. map_get (keyRefs (ap_rm (app_run S new_app xs))) r = Some (Key k)" for r k]
      later [of "\<lambda>xs. activeKeyRef (ap_rm (app_run S new_app xs)) = Some (Key k)" for k]
      later [of "\<lambda>xs. \<exists>x\<in>set (rotators (ap_keys (app_run S new_app xs))). currentKey (fst x) = Some k" for k]
    by (intro conjI allI subsetI; simp only: mem_Collect_eq)
qed

lemma sealed_run: "sealed (st_crypto S) (keyring_of S es) (app_run S new_app es)"
proof (induction es rule: rev_induct)
  case Nil
  show ?case
    by (simp add: sealed_def new_app_def new_client_def written_def new_mesh_hook_def channel_texts_def new_media_hook_def
        media_content_def new_key_hook_def keys_sealed_def key_content_def phases_def)
next
  case (snoc e es)
  have "sealed (st_crypto S) (keyring_of S es) (app_step S (app_run S new_app es) e)"
    by (rule sealed_step [OF app_ok_run snoc.IH keyring_holds])
  then show ?case by (simp add: sealed_mono [OF _ keyring_snoc])
qed

section \<open>Properties\<close>

text \<open>
  C2: Only ciphertext reaches the gateway. In every run of the application, whatever the
  user, the network, the peers and the timers do, each chat message that the client has written
  to a socket or holds in its queue carries the encryption of a text, under a key that was the
  key of its room at some point of the run. No handler writes a chat message any other way.
\<close>

theorem chat_leaves_encrypted:
  assumes "m \<in> written (ap_cl (app_run S new_app es))" and "m_type m = ''chat''"
  shows "\<exists>n\<le>length es. \<exists>k iv input c.
     map_get (keyRefs (ap_rm (app_run S new_app (take n es)))) (m_room m) = Some (Key k)
     \<and> encrypt (st_crypto S) iv k input = Inr c \<and> m_payload m = Some (JStr c)"
proof -
  have "sealed_message (st_crypto S) (keyring_of S es) m"
    using sealed_run [of S es] assms(1) by (simp add: sealed_def)
  then show ?thesis using assms(2) unfolding sealed_message_def keyring_of_def Let_def keyring.simps by blast
qed

lemma chat_leaves_encrypted_witness:
  "\<exists>m\<in>written (ap_cl (app_run demo_site new_app demo_session)). m_type m = ''chat''
     \<and> (\<exists>n\<le>length demo_session. \<exists>k iv input c.
          map_get (keyRefs (ap_rm (app_run demo_site new_app (take n demo_session)))) (m_room m) = Some (Key k)
          \<and> encrypt (st_crypto demo_site) iv k input = Inr c \<and> m_payload m = Some (JStr c))"
proof -
  obtain m where m: "m \<in> written (ap_cl (app_run demo_site new_app demo_session))" "m_type m = ''chat''"
    using demo_session_writes(1) by (rule writes_written)
  with chat_leaves_encrypted [OF m] show ?thesis by blast
qed

text \<open>
  C3: Only ciphertext reaches a peer. In every run, each text that was sent over a data channel is
  the chat message of the encryption of a text, under a key that was the key of its room at some
  point of the run; nothing else is ever sent over a channel.
\<close>

theorem peers_receive_only_ciphertext:
  assumes "t \<in> channel_texts (ap_hook (app_run S new_app es))"
  shows "\<exists>n\<le>length es. \<exists>d room k iv input c.
     map_get (keyRefs (ap_rm (app_run S new_app (take n es)))) room = Some (Key k)
     \<and> encrypt (st_crypto S) iv k input = Inr c \<and> t = p2p_text d room c"
proof -
  have "sealed_text (st_crypto S) (keyring_of S es) t"
    using sealed_run [of S es] assms by (simp add: sealed_def)
  then show ?thesis unfolding sealed_text_def keyring_of_def Let_def keyring.simps by blast
qed

text \<open>Two peers are in the room; the channel opens, and a message is sent over it.\<close>

definition demo_presence :: string where
  "demo_presence =
     json_stringify (JObj [(''type'', JStr ''presence''), (''room'', JStr ''r''),
       (''payload'', JStr (json_stringify (JObj [(''room'', JStr ''r''), (''count'', JNum 2),
          (''peers'', JObj [(''a'', JStr []), (''b'', JStr [])])])))])"

definition demo_p2p_session :: "(platform \<times> byte app_event) list" where
  "demo_p2p_session = demo_joining @ map (Pair demo_platform)
     [Network (SockMessage 0 (json_stringify (JObj [(''type'', JStr ''welcome''), (''id'', JStr ''a'')]))),
      Network (SockMessage 0 demo_presence), OfferTimer 0, PeerEvent 0 0 (ChannelOpen 0), Render,
      InputChange ''hi'', Submit, Resume 3 True (replicate 12 0) (Inr 0)]"

lemma peers_receive_only_ciphertext_witness:
  "\<exists>t. t \<in> channel_texts (ap_hook (app_run demo_site new_app demo_p2p_session))
     \<and> (\<exists>n\<le>length demo_p2p_session. \<exists>d room k iv input c.
          map_get (keyRefs (ap_rm (app_run demo_site new_app (take n demo_p2p_session)))) room = Some (Key k)
          \<and> encrypt (st_crypto demo_site) iv k input = Inr c \<and> t = p2p_text d room c)"
proof -
  have "list_ex (\<lambda>m. list_ex (\<lambda>c. list_ex (\<lambda>x. ch_sent x \<noteq> []) (channels c)) (conns m))
     (meshes (ap_hook (app_run demo_site new_app demo_p2p_session)))"
    by code_simp
  then obtain t where t: "t \<in> channel_texts (ap_hook (app_run demo_site new_app demo_p2p_session))"
    by (fastforce simp: list_ex_iff channel_texts_def neq_Nil_conv)
  with peers_receive_only_ciphertext [OF t] show ?thesis by blast
qed

text \<open>
  C4: Only ciphertext of files leaves. In every run, each media message that the client has
  written or queued is one chunk of a transfer whose content and metadata are encrypted under a
  key that was active at some point of the run.
\<close>

theorem files_leave_encrypted:
  assumes "m \<in> written (ap_cl (app_run S new_app es))" and "m_type m = ''media''"
  shows "\<exists>n\<le>length es. \<exists>k iv dat metadata c tid sq tot.
     activeKeyRef (ap_rm (app_run S new_app (take n es))) = Some (Key k)
     \<and> encryptMediaEnvelope (st_crypto S) iv k dat metadata = Inr c
     \<and> m_payload m = Some (JStr (chunk_payload tid sq tot c))"
proof -
  have "sealed_message (st_crypto S) (keyring_of S es) m"
    using sealed_run [of S es] assms(1) by (simp add: sealed_def)
  then show ?thesis
    using assms(2) unfolding sealed_message_def keyring_of_def Let_def keyring.simps chunk_under_def by blast
qed

text \<open>The application after the join, by evaluation; the upload of one chunk by simplification.\<close>

lemma demo_joined:
  "activeKeyRef (ap_rm (app_run demo_site new_app demo_joining)) = Some (Key 7)"
  "uploads (ap_media (app_run demo_site new_app demo_joining)) = []"
  "ws (ap_cl (app_run demo_site new_app demo_joining)) = Some 0"
  "map sk_state (sockets (ap_cl (app_run demo_site new_app demo_joining))) = [OPEN]"
  by code_simp+

definition demo_note :: media_file where
  "demo_note = \<lparr>file_size = 1, file_type = ''text/plain'', file_name = ''f'', file_bytes = [1]\<rparr>"

lemma demo_note_chunk:
  "\<exists>p r. sendMedia (nullable demo_crypto) (\<lambda>_. replicate 12 0) tid toMB (Some 7) demo_note = ([p], [(1, 1)], r)"
proof -
  have "chunk_count (Suc 0) = 1" by (simp add: chunk_count_def CHUNK_SIZE_def)
  moreover have "\<exists>c. encryptMediaEnvelope (nullable demo_crypto) (replicate 12 0) (Some k) dat metadata = Inr c" for k dat metadata
  proof -
    have "encryptMediaEnvelope (nullable demo_crypto) (replicate 12 0) (Some k) dat metadata
        = encryptMediaEnvelope demo_crypto (replicate 12 0) k dat metadata"
      by (simp add: encryptMediaEnvelope_def encrypt_def nullable_def)
    moreover have "length (replicate 12 0 :: byte list) = IV_LENGTH" by (simp add: IV_LENGTH_def)
    ultimately show ?thesis unfolding encryptMediaEnvelope_def using encrypt_Inr [OF demo_crypto_ok(1)] by metis
  qed
  then have "\<exists>p. send_loop (nullable demo_crypto) (\<lambda>_. replicate 12 0) (Some 7) tid mime f 1 0 (Suc 0) = ([p], [(1, 1)], None)" for mime f
  proof -
    obtain c where "encryptMediaEnvelope (nullable demo_crypto) (replicate 12 0) (Some 7)
        (js_slice (file_bytes f) 0 (min CHUNK_SIZE (length (file_bytes f)))) (chunk_metadata 0 mime f) = Inr c"
      using \<open>\<And>metadata k dat. \<exists>c. encryptMediaEnvelope (nullable demo_crypto) (replicate 12 0) (Some k) dat metadata = Inr c\<close> by blast
    then show ?thesis by (simp add: Let_def)
  qed
  then obtain p where "send_loop (nullable demo_crypto) (\<lambda>_. replicate 12 0) (Some 7) tid
      (detectMimeType (file_type demo_note) (file_bytes demo_note)) demo_note 1 0 (Suc 0) = ([p], [(1, 1)], None)" by blast
  ultimately show ?thesis
    by (simp add: sendMedia_def MAX_FILE_SIZE_def Let_def demo_note_def [THEN arg_cong, of file_size]
        demo_note_def [THEN arg_cong, of file_bytes] del: send_loop.simps)
qed

lemma demo_note_is_written:
  assumes "sendMedia (nullable demo_crypto) ivs (d_id (pl_draws demo_platform)) toMB (Some k) f = ([p], [(1, 1)], r)"
    and "activeKeyRef (ap_rm a) = Some (Key k)" "uploads (ap_media a) = []" "ws (ap_cl a) = Some 0"
    and "map sk_state (sockets (ap_cl a)) = [OPEN]"
  shows "writes_type ''media'' (ap_cl (app_run demo_site a (map (Pair demo_platform) [FileSelect ivs toMB url (Some f), UploadStep 0])))"
proof -
  obtain s where s: "sockets (ap_cl a) = [s]" "sk_state s = OPEN" using assms(5) by auto
  show ?thesis
    using assms(1-4) s
    by (simp add: demo_site_def with_media_def deliver_media_def handleFileSelect_def start_upload_def upload_step_def
        writes_type_def on_cl_def send_def track_room_def ws_send_def update_socket_def socket_open_def key_of_def make_message_def Let_def)
qed

definition demo_file_session :: "(platform \<times> byte app_event) list" where
  "demo_file_session = demo_joining @ map (Pair demo_platform)
     [FileSelect (\<lambda>_. replicate 12 0) (\<lambda>_. ''0'') ''u'' (Some demo_note), UploadStep 0]"

lemma demo_file_session_writes: "writes_type ''media'' (ap_cl (app_run demo_site new_app demo_file_session))"
proof -
  obtain p r where "sendMedia (nullable demo_crypto) (\<lambda>_. replicate 12 0) (d_id (pl_draws demo_platform)) (\<lambda>_. ''0'') (Some 7) demo_note
      = ([p], [(1, 1)], r)"
    using demo_note_chunk by blast
  from demo_note_is_written [OF this demo_joined, of "''u''"] show ?thesis by (simp add: demo_file_session_def)
qed

lemma files_leave_encrypted_witness:
  "\<exists>m\<in>written (ap_cl (app_run demo_site new_app demo_file_session)). m_type m = ''media''
     \<and> (\<exists>n\<le>length demo_file_session. \<exists>k iv dat metadata c tid sq tot.
          activeKeyRef (ap_rm (app_run demo_site new_app (take n demo_file_session))) = Some (Key k)
          \<and> encryptMediaEnvelope (st_crypto demo_site) iv k dat metadata = Inr c
          \<and> m_payload m = Some (JStr (chunk_payload tid sq tot c)))"
proof -
  have "writes_type ''media'' (ap_cl (app_run demo_site new_app demo_file_session))" by (rule demo_file_session_writes)
  then obtain m where m: "m \<in> written (ap_cl (app_run demo_site new_app demo_file_session))" "m_type m = ''media''"
    by (rule writes_written)
  with files_leave_encrypted [OF m] show ?thesis by blast
qed

text \<open>
  C5: Only ciphertext of keys leaves. In every run, each key rotation that the client has written
  or queued carries the export of a key, encrypted under a key that was the current key of one
  of the application's rotators at some point of the run.
\<close>

theorem new_keys_leave_encrypted:
  assumes "m \<in> written (ap_cl (app_run S new_app es))" and "m_type m = ''key_rotation''"
  shows "\<exists>n\<le>length es. \<exists>x\<in>set (rotators (ap_keys (app_run S new_app (take n es)))). \<exists>k k' iv exported c.
     currentKey (fst x) = Some k \<and> exportKey (st_crypto S) k' = Inr exported
     \<and> encrypt (st_crypto S) iv k exported = Inr c \<and> m_payload m = Some (JStr c)"
proof -
  have "sealed_message (st_crypto S) (keyring_of S es) m"
    using sealed_run [of S es] assms(1) by (simp add: sealed_def)
  then show ?thesis
    using assms(2) unfolding sealed_message_def keyring_of_def Let_def keyring.simps sealed_key_def by blast
qed

text \<open>The rotator of the first join has no key, so the second rotation is the first to be announced.\<close>

definition demo_rotation_session :: "(platform \<times> byte app_event) list" where
  "demo_rotation_session = demo_joining @ map (Pair demo_platform)
     [RotatorStep 0 (RInterval 1) [], RotatorStep 0 (RGenerated 0 (Inr 9)) [], RotatorStep 0 (RExported 0) (replicate 12 0),
      RotationAnnounced 0, RotatorStep 0 (RInterval 1) [], RotatorStep 0 (RGenerated 1 (Inr 8)) [],
      RotatorStep 0 (RExported 1) (replicate 12 0), RotationAnnounced 1]"

lemma new_keys_leave_encrypted_witness:
  "\<exists>m\<in>written (ap_cl (app_run demo_site new_app demo_rotation_session)). m_type m = ''key_rotation''
     \<and> (\<exists>n\<le>length demo_rotation_session. \<exists>x\<in>set (rotators (ap_keys (app_run demo_site new_app (take n demo_rotation_session)))).
          \<exists>k k' iv exported c. currentKey (fst x) = Some k \<and> exportKey (st_crypto demo_site) k' = Inr exported
          \<and> encrypt (st_crypto demo_site) iv k exported = Inr c \<and> m_payload m = Some (JStr c))"
proof -
  have "writes_type ''key_rotation'' (ap_cl (app_run demo_site new_app demo_rotation_session))" by code_simp
  then obtain m where m: "m \<in> written (ap_cl (app_run demo_site new_app demo_rotation_session))" "m_type m = ''key_rotation''"
    by (rule writes_written)
  with new_keys_leave_encrypted [OF m] show ?thesis by blast
qed

end
