(* ===== verification/PeerChat.thy ===== *)
theory PeerChat
  imports Sealing
begin

text \<open>
  A chat message between two browsers that share a data channel: \<^verbatim>\<open>sendMessage\<close> of
  \<^verbatim>\<open>App.jsx\<close> on the one side, through \<^verbatim>\<open>lib/webrtc.js\<close> and \<^verbatim>\<open>hooks/useWebRTCMesh.js\<close>, to the
  listener of \<^verbatim>\<open>p2p:message\<close> on the other.
\<close>

section \<open>What one connection hands on\<close>

lemma conn_output_refl: "conn_output room peer c c = []"
  by (simp add: conn_output_def)

lemma concat_map_single:
  "j < n \<Longrightarrow> (\<And>k. k < n \<Longrightarrow> k \<noteq> j \<Longrightarrow> f k = []) \<Longrightarrow> concat (map f [0..<n]) = f j"
proof (induction n)
  case (Suc n)
  show ?case
  proof (cases "j = n")
    case True
    have "concat (map f [0..<n]) = []" using Suc.prems(2) True by simp
    with True show ?thesis by simp
  next
    case False
    with Suc show ?thesis by simp
  qed
qed simp

text \<open>A change of one connection is handed on by that connection only.\<close>

lemma mesh_output_update:
  assumes "j < length (conns m)"
  shows "mesh_output room m (update_conn j f m) = conn_output room (mesh_peers m ! j) (conns m ! j) (f (conns m ! j))"
  using assms unfolding mesh_output_def
  by (subst concat_map_single [where j = j]) (simp_all add: old_conn_def nth_update_conn conn_output_refl)

lemma channel_message_output:
  assumes "i < length (meshes h)" and "j < length (conns (meshes h ! i))"
    and "n < length (channels (conns (meshes h ! i) ! j))" and "ch_state (channels (conns (meshes h ! i) ! j) ! n) = DcOpen"
  shows "hook_out (hook_step R h (HkMesh i (Browser j (ChannelMessage n t)))) = hook_out h @ p2p_message (mesh_rooms h ! i) t"
  using assms mesh_output_update [of j "meshes h ! i" "mesh_rooms h ! i" "\<lambda>c. rtc_step R c (ChannelMessage n t)"]
  by (simp add: on_mesh_def conn_output_def callback_def)

section \<open>The message\<close>

definition p2p_object :: "draws \<Rightarrow> string \<Rightarrow> string \<Rightarrow> json" where
  "p2p_object d room c =
     JObj [(''id'', JStr (d_id d)), (''msgId'', JStr (d_msgId d)), (''type'', JStr ''chat''),
       (''room'', JStr room), (''payload'', JStr c), (''timestamp'', JNum (d_now d))]"

lemma p2p_message_text: "p2p_message room (p2p_text d room c) = [P2PMessage (p2p_object d room c)]"
proof -
  have "json_parse (p2p_text d room c) = Some (p2p_object d room c)"
    unfolding p2p_text_def p2p_object_def by (rule json_roundtrip) simp
  then show ?thesis by (simp add: p2p_message_def p2p_object_def spread_fields_def map_set_def)
qed

lemma p2p_object_fields:
  "is_object (Some (p2p_object d room c))" "js_get (p2p_object d room c) ''type'' = Some (JStr ''chat'')"
  "js_get (p2p_object d room c) ''room'' = Some (JStr room)" "js_get (p2p_object d room c) ''payload'' = Some (JStr c)"
  "js_get (p2p_object d room c) ''msgId'' = Some (JStr (d_msgId d))" "js_get (p2p_object d room c) ''id'' = Some (JStr (d_id d))"
  by (simp_all add: p2p_object_def map_get_def)

text \<open>The listener gets it, and its decryption begins.\<close>

lemma channel_message_begins:
  assumes "i < length (meshes (ap_hook b))" and "mesh_rooms (ap_hook b) ! i = room" and "j < length (conns (meshes (ap_hook b) ! i))"
    and "n < length (channels (conns (meshes (ap_hook b) ! i) ! j))"
    and "ch_state (channels (conns (meshes (ap_hook b) ! i) ! j) ! n) = DcOpen"
    and "ap_listener b \<noteq> None" and "room \<noteq> []"
  shows "app_step S b (pl, PeerEvent i j (ChannelMessage n (p2p_text d room c)))
     = decryptAndAppendChat (p2p_object d room c) room True
         (on_cl (emitP2P ''message'' (JsonData (p2p_object d room c)))
           (b\<lparr>ap_hook := hook_step (st_rtc S) (ap_hook b) (HkMesh i (Browser j (ChannelMessage n (p2p_text d room c))))\<rparr>))"
proof -
  let ?h = "hook_step (st_rtc S) (ap_hook b) (HkMesh i (Browser j (ChannelMessage n (p2p_text d room c))))"
  have "drop (length (hook_out (ap_hook b))) (hook_out ?h) = [P2PMessage (p2p_object d room c)]"
    using channel_message_output [OF assms(1,3-5), of "st_rtc S" "p2p_text d room c"] assms(2) by (simp add: p2p_message_text)
  moreover obtain l where "ap_listener b = Some l" using assms(6) by blast
  ultimately show ?thesis
    using assms(7) p2p_object_fields [of d room c]
    by (simp add: with_hook_def deliver_out_def deliver_def on_p2p_message_def room_of_def Let_def on_cl_def del: hook_step.simps)
qed

text \<open>The sender hands the ciphertext to the channel of its first connected peer, and nothing to the gateway.\<close>

lemma encrypted_over_channel:
  assumes "encrypt P iv k input = Inr c" and "map_get (peerMeshes (ap_hook a)) room = Some i"
    and "connectedPeers (meshes (ap_hook a) ! i) = peer # peers" and "getConnection (meshes (ap_hook a) ! i) peer = Some j"
    and "c_dc (conns (meshes (ap_hook a) ! i) ! j) = Some n"
    and "ch_state (channels (conns (meshes (ap_hook a) ! i) ! j) ! n) = DcOpen"
  shows "ap_cl (message_encrypted P d iv room input (Key k) nickname a) = ap_cl a"
    "ap_hook (message_encrypted P d iv room input (Key k) nickname a)
     = on_mesh i (update_conn j (fst \<circ> pc_send (p2p_text d room c))) (ap_hook a)"
  using assms by (simp_all add: message_encrypted_def send_p2p_def pc_send_def Let_def)

section \<open>Properties\<close>

text \<open>
  C7: A chat message arrives over a data channel as written. When the sender has a connected
  peer in the room, the ciphertext goes over the channel and nothing goes to the gateway; a
  receiver that holds the room's key, with its end of the channel open, shows the text as it was
  typed, under the id that the sender gave it, marked as having come from a peer, and sends no
  receipt. The text has at most 50000 characters, does not start with a byte order mark and
  is not the very text that stands for an undecryptable message.
\<close>

theorem peer_chat_arrives_as_written:
  fixes a b :: "'k app" and S :: "'k site" and pl pl' :: platform
  assumes "aes_gcm_correct (st_crypto S)" and "length iv = IV_LENGTH"
    and "utf8 input" and "take 3 (text_encode input) \<noteq> bom" and "length input \<le> 50000" and "input \<noteq> KEY_MISMATCH_TEXT"
    and "d_msgId d \<noteq> []" and "room \<noteq> []"
    and "map_get (peerMeshes (ap_hook a)) room = Some i" and "connectedPeers (meshes (ap_hook a) ! i) = peer # peers"
    and "getConnection (meshes (ap_hook a) ! i) peer = Some j" and "c_dc (conns (meshes (ap_hook a) ! i) ! j) = Some n"
    and "ch_state (channels (conns (meshes (ap_hook a) ! i) ! j) ! n) = DcOpen"
    and "i' < length (meshes (ap_hook b))" and "mesh_rooms (ap_hook b) ! i' = room" and "j' < length (conns (meshes (ap_hook b) ! i'))"
    and "n' < length (channels (conns (meshes (ap_hook b) ! i') ! j'))"
    and "ch_state (channels (conns (meshes (ap_hook b) ! i') ! j') ! n') = DcOpen" and "ap_listener b \<noteq> None"
    and "map_get (rooms (ap_rm b)) room = Some s" and "map_get (keyRefs (ap_rm b)) room = Some (Key k)"
  shows "\<exists>c s' msg.
     let a' = message_encrypted (st_crypto S) d iv room input (Key k) nickname a;
         b1 = app_step S b (pl, PeerEvent i' j' (ChannelMessage n' (p2p_text d room c)));
         b2 = app_step S b1 (pl', Resume (length (ap_tasks b)) True iv' fresh)
     in encrypt (st_crypto S) iv k input = Inr c \<and> ap_cl a' = ap_cl a
        \<and> ap_hook a' = on_mesh i (update_conn j (fst \<circ> pc_send (p2p_text d room c))) (ap_hook a)
        \<and> map_get (rooms (ap_rm b2)) room = Some s' \<and> r_messages s' = kept_messages (r_messages s @ [msg])
        \<and> cm_text msg = input \<and> \<not> cm_error msg \<and> cm_id msg = JStr (d_msgId d) \<and> cm_p2p msg
        \<and> written (ap_cl b2) = written (ap_cl b)"
proof -
  let ?P = "st_crypto S"
  obtain c where c: "encrypt ?P iv k input = Inr c" "decrypt ?P k c = Inr input"
    using encrypt_Inr [OF assms(1,2), of k input] text_decode_encode [OF assms(3,4)] by metis
  note sent = encrypted_over_channel [OF c(1) assms(9-13), of d nickname]
  let ?dat = "p2p_object d room c"
  define b0 where "b0 = on_cl (emitP2P ''message'' (JsonData ?dat))
      (b\<lparr>ap_hook := hook_step (st_rtc S) (ap_hook b) (HkMesh i' (Browser j' (ChannelMessage n' (p2p_text d room c))))\<rparr>)"
  have b0: "ap_rm b0 = ap_rm b" "ap_tasks b0 = ap_tasks b" "written (ap_cl b0) = written (ap_cl b)"
    by (simp_all add: b0_def on_cl_def emitP2P_def)
  have b1: "app_step S b (pl, PeerEvent i' j' (ChannelMessage n' (p2p_text d room c))) = decryptAndAppendChat ?dat room True b0"
    unfolding b0_def by (rule channel_message_begins [OF assms(14-19,8)])
  let ?b = "(decryptAndAppendChat ?dat room True b0)\<lparr>ap_tasks := (ap_tasks b0 @ [Decrypting ?dat room (RoomKey (Key k)) True])
      [length (ap_tasks b0) := Done]\<rparr>"
  have b2: "app_step S (decryptAndAppendChat ?dat room True b0) (pl', Resume (length (ap_tasks b)) True iv' fresh)
      = chat_decrypted ?P pl' ?dat room (RoomKey (Key k)) True ?b"
    using assms(21) by (simp add: resume_task_def decryptAndAppendChat_def chat_key_of_def b0)
  have known: "map_get (rooms (ap_rm ?b)) room = Some s" using assms(20) by (simp add: decryptAndAppendChat_def b0)
  have plain: "decrypt ?P k (js_string (js_get ?dat ''payload'')) = Inr input" by (simp add: p2p_object_fields js_string_def c(2))
  have fits: "length input \<le> MAX_TEXT_LENGTH" using assms(5) by (simp add: MAX_TEXT_LENGTH_def)
  from chat_decrypted_shown [OF known plain fits assms(6) p2p_object_fields(5) assms(7), of pl' True]
  obtain s' msg where shown:
    "map_get (rooms (ap_rm (chat_decrypted ?P pl' ?dat room (RoomKey (Key k)) True ?b))) room = Some s'"
    "r_messages s' = kept_messages (r_messages s @ [msg])" "cm_text msg = input" "\<not> cm_error msg"
    "cm_id msg = JStr (d_msgId d)" "cm_p2p msg"
    by blast
  have "ap_cl (chat_decrypted ?P pl' ?dat room (RoomKey (Key k)) True ?b) = ap_cl b0"
    by (simp add: chat_decrypted_def decryptAndAppendChat_def Let_def)
  then have quiet: "written (ap_cl (chat_decrypted ?P pl' ?dat room (RoomKey (Key k)) True ?b)) = written (ap_cl b)" using b0(3) by simp
  show ?thesis
    by (rule exI [of _ c], rule exI [of _ s'], rule exI [of _ msg], unfold Let_def b1 b2)
      (intro conjI c(1) sent shown quiet)
qed

text \<open>Both ends are the state of a user that has joined, met a peer and seen the channel open.\<close>

definition demo_connected :: "byte app" where
  "demo_connected = app_run demo_site new_app (take 11 demo_p2p_session)"

lemma demo_connected_peer:
  "case meshes (ap_hook demo_connected) of [] \<Rightarrow> False
   | m # ms \<Rightarrow> connectedPeers m = [''b''] \<and> getConnection m ''b'' = Some 0
       \<and> (case conns m of [] \<Rightarrow> False | c # cs \<Rightarrow> c_dc c = Some 0 \<and> map ch_state (channels c) = [DcOpen])"
  by code_simp

lemma demo_connected_channel:
  "meshes (ap_hook demo_connected) \<noteq> []" "connectedPeers (meshes (ap_hook demo_connected) ! 0) = [''b'']"
  "getConnection (meshes (ap_hook demo_connected) ! 0) ''b'' = Some 0" "conns (meshes (ap_hook demo_connected) ! 0) \<noteq> []"
  "c_dc (conns (meshes (ap_hook demo_connected) ! 0) ! 0) = Some 0"
  "channels (conns (meshes (ap_hook demo_connected) ! 0) ! 0) \<noteq> []"
  "ch_state (channels (conns (meshes (ap_hook demo_connected) ! 0) ! 0) ! 0) = DcOpen"
  using demo_connected_peer by (auto split: list.splits)

lemma demo_connected_room:
  "map_get (peerMeshes (ap_hook demo_connected)) ''r'' = Some 0" "mesh_rooms (ap_hook demo_connected) = [''r'']"
  "map_keys (rooms (ap_rm demo_connected)) = [''r'']" "map_get (keyRefs (ap_rm demo_connected)) ''r'' = Some (Key 7)"
  "ap_listener demo_connected = Some []"
  by code_simp+

lemma peer_chat_arrives_as_written_witness:
  "\<exists>(s :: room_state) c s' msg.
     let b1 = app_step demo_site demo_connected
           (demo_platform, PeerEvent 0 0 (ChannelMessage 0 (p2p_text (pl_draws demo_platform) ''r'' c)));
         b2 = app_step demo_site b1 (demo_platform, Resume (length (ap_tasks demo_connected)) True [] (Inr 0))
     in encrypt (st_crypto demo_site) (replicate 12 0) 7 ''hi'' = Inr c
        \<and> map_get (rooms (ap_rm b2)) ''r'' = Some s' \<and> r_messages s' = kept_messages (r_messages s @ [msg])
        \<and> cm_text msg = ''hi'' \<and> written (ap_cl b2) = written (ap_cl demo_connected)"
proof -
  have "st_crypto demo_site = demo_crypto" by (simp add: demo_site_def)
  then have crypto: "aes_gcm_correct (st_crypto demo_site)" using demo_crypto_ok(1) by simp
  obtain s where s: "map_get (rooms (ap_rm demo_connected)) ''r'' = Some s"
    using demo_connected_room(3) by (cases "rooms (ap_rm demo_connected)") (auto simp: map_keys_def map_get_def)
  have message: "length (replicate 12 (0 :: byte)) = IV_LENGTH" "utf8 ''hi''" "take 3 (text_encode ''hi'') \<noteq> bom"
    "length ''hi'' \<le> 50000" "''hi'' \<noteq> KEY_MISMATCH_TEXT" "d_msgId (pl_draws demo_platform) \<noteq> []" "''r'' \<noteq> []"
    using ascii_start_no_bom [of "CHR ''h''" "''i''"] utf8_ascii [of "''hi''"]
    by (simp_all add: IV_LENGTH_def KEY_MISMATCH_TEXT_def demo_platform_def)
  have ends: "0 < length (meshes (ap_hook demo_connected))" "mesh_rooms (ap_hook demo_connected) ! 0 = ''r''"
    "0 < length (conns (meshes (ap_hook demo_connected) ! 0))"
    "0 < length (channels (conns (meshes (ap_hook demo_connected) ! 0) ! 0))" "ap_listener demo_connected \<noteq> None"
    using demo_connected_channel demo_connected_room by simp_all
  show ?thesis
    using peer_chat_arrives_as_written [OF crypto message demo_connected_room(1) demo_connected_channel(2,3,5,7)
        ends(1-4) demo_connected_channel(7) ends(5) s demo_connected_room(4), of "[]" demo_platform demo_platform "[]" "Inr 0"]
    unfolding Let_def by (intro exI [of _ s]) (elim exE conjE, intro exI conjI, assumption+)
qed

end
