(* ===== verification/View.thy ===== *)
theory View
  imports Complex_Main RoomManager
begin

text \<open>
  The views (\<^verbatim>\<open>apps/trapchat/src/components\<close>): what they compute from the state of the
  application (status, badges, sender lines, receipts, remaining time), the countdown of an
  expiring room with its interval, the drawing on the shared canvas, and the bars of the
  audio meter. The markup around these values is not modelled.

  An effect that throws ends the whole tree: React unmounts it, and nothing of it runs again.
\<close>

section \<open>What is shown\<close>

text \<open>\<open>formatTimeRemaining\<close>.\<close>

definition formatTimeRemaining :: "int \<Rightarrow> string" where
  "formatTimeRemaining ms =
     (if ms \<le> 0 then ''expired''
      else let totalSec = nat (ms div 1000);
               h = totalSec div 3600;
               m = (totalSec mod 3600) div 60;
               s = totalSec mod 60
           in if 0 < h then show_nat h @ ''h '' @ show_nat m @ ''m''
              else show_nat m @ '':'' @ (if s < 10 then ''0'' else []) @ show_nat s)"

datatype dot = Green | Yellow | Red

definition status_dot :: "string \<Rightarrow> dot" where
  "status_dot st = (if st = ''connected'' then Green else if js_startsWith st ''reconnecting'' then Yellow else Red)"

definition unread_badge :: "'k room_manager \<Rightarrow> string \<Rightarrow> nat option" where
  "unread_badge m r =
     (case map_get (rooms m) r of
        None \<Rightarrow> None
      | Some s \<Rightarrow> if 0 < r_unread s \<and> r \<noteq> activeRoom m then Some (r_unread s) else None)"

definition sender_line :: "chat_msg \<Rightarrow> string option" where
  "sender_line msg = (if \<not> cm_system msg \<and> cm_nickname msg \<noteq> [] then Some (cm_nickname msg) else None)"

text \<open>One tick for a message of one's own, two once a receipt says that it was read.\<close>

definition receipt_ticks :: "room_state \<Rightarrow> chat_msg \<Rightarrow> nat" where
  "receipt_ticks s msg =
     (if \<not> cm_own msg then 0
      else if map_get (r_receipts s) (js_to_string (cm_id msg)) = Some (JStr ''read'') then 2 else 1)"

datatype media_kind = ShownImage | ShownVideo | ShownDownload

definition media_shown :: "media_info \<Rightarrow> js_error + media_kind" where
  "media_shown mi =
     (case mi_mimeType mi of
        Some (JStr mime) \<Rightarrow>
          Inr (if js_startsWith mime ''image/'' then ShownImage
               else if js_startsWith mime ''video/'' then ShownVideo else ShownDownload)
      | _ \<Rightarrow> Inl TypeError)"

text \<open>The observer, once there is one, watches each element that shows a message of another.\<close>

definition observe_message :: "bool \<Rightarrow> nat \<Rightarrow> chat_msg \<Rightarrow> nat list \<Rightarrow> nat list" where
  "observe_message observer el msg observed =
     (if \<not> cm_own msg \<and> observer \<and> el \<notin> set observed then observed @ [el] else observed)"

lemma observed_once: "distinct observed \<Longrightarrow> distinct (observe_message observer el msg observed)"
  by (simp add: observe_message_def)

section \<open>The countdown\<close>

text \<open>What the last run of the effect left to be cleaned up.\<close>

datatype cleanup = NoCleanup | ClearTimeout nat | ClearInterval nat

record countdown =
  timeRemaining :: "int option"
  cd_timeouts :: "nat list"
  cd_intervals :: "(nat \<times> int) list"
  cd_cleanup :: cleanup
  cd_next :: nat
  cd_leaves :: nat
  cd_unmounted :: bool

definition new_countdown :: countdown where
  "new_countdown =
     \<lparr>timeRemaining = None, cd_timeouts = [], cd_intervals = [], cd_cleanup = NoCleanup, cd_next = 1, cd_leaves = 0,
      cd_unmounted = False\<rparr>"

definition run_cleanup :: "countdown \<Rightarrow> countdown" where
  "run_cleanup c =
     (case cd_cleanup c of
        NoCleanup \<Rightarrow> c
      | ClearTimeout t \<Rightarrow> c\<lparr>cd_timeouts := removeAll t (cd_timeouts c), cd_cleanup := NoCleanup\<rparr>
      | ClearInterval t \<Rightarrow>
          c\<lparr>cd_intervals := filter (\<lambda>x. fst x \<noteq> t) (cd_intervals c), cd_cleanup := NoCleanup\<rparr>)"

text \<open>
  A run of the effect, after the cleanup of the last one: \<open>onLeave\<close> is a new function in each
  render of the application, so it runs after each of them. The first \<open>update()\<close> comes before
  \<open>id\<close> is declared: in a room that has expired, \<open>clearInterval(id)\<close> throws a ReferenceError,
  before \<open>onLeave\<close>.
\<close>

definition countdown_effect :: "int option \<Rightarrow> int \<Rightarrow> countdown \<Rightarrow> countdown" where
  "countdown_effect expiresAt now c0 =
     (let c = run_cleanup c0 in
      case expiresAt of
        None \<Rightarrow>
          c\<lparr>cd_timeouts := cd_timeouts c @ [cd_next c], cd_cleanup := ClearTimeout (cd_next c), cd_next := Suc (cd_next c)\<rparr>
      | Some e \<Rightarrow>
          (let remaining = e - now;
               c1 = c\<lparr>timeRemaining := Some remaining\<rparr>
           in if remaining \<le> 0 then c1\<lparr>cd_unmounted := True\<rparr>
              else c1\<lparr>cd_intervals := cd_intervals c1 @ [(cd_next c1, e)], cd_cleanup := ClearInterval (cd_next c1),
                      cd_next := Suc (cd_next c1)\<rparr>))"

definition countdown_timeout :: "nat \<Rightarrow> countdown \<Rightarrow> countdown" where
  "countdown_timeout t c =
     (if t \<in> set (cd_timeouts c) then c\<lparr>cd_timeouts := removeAll t (cd_timeouts c), timeRemaining := None\<rparr> else c)"

definition countdown_tick :: "nat \<Rightarrow> int \<Rightarrow> countdown \<Rightarrow> countdown" where
  "countdown_tick t now c =
     (case map_of (cd_intervals c) t of
        None \<Rightarrow> c
      | Some e \<Rightarrow>
          (let c1 = c\<lparr>timeRemaining := Some (e - now)\<rparr>
           in if e - now \<le> 0
              then c1\<lparr>cd_intervals := filter (\<lambda>x. fst x \<noteq> t) (cd_intervals c1), cd_leaves := Suc (cd_leaves c1)\<rparr>
              else c1))"

datatype countdown_event = Rendered "int option" int | TimeoutFires nat | IntervalTicks nat int | ViewGone

fun countdown_step :: "countdown \<Rightarrow> countdown_event \<Rightarrow> countdown" where
  "countdown_step c (Rendered expiresAt now) = (if cd_unmounted c then c else countdown_effect expiresAt now c)"
| "countdown_step c (TimeoutFires t) = countdown_timeout t c"
| "countdown_step c (IntervalTicks t now) = countdown_tick t now c"
| "countdown_step c ViewGone = (if cd_unmounted c then c else (run_cleanup c)\<lparr>cd_unmounted := True\<rparr>)"

abbreviation countdown_run :: "countdown \<Rightarrow> countdown_event list \<Rightarrow> countdown" where
  "countdown_run \<equiv> foldl countdown_step"

text \<open>There is at most one timer, the one that the cleanup names; none once the view is gone.\<close>

definition countdown_ok :: "countdown \<Rightarrow> bool" where
  "countdown_ok c \<longleftrightarrow>
     (\<forall>t\<in>set (cd_timeouts c). cd_cleanup c = ClearTimeout t) \<and> (\<forall>x\<in>set (cd_intervals c). cd_cleanup c = ClearInterval (fst x))
     \<and> length (cd_timeouts c) + length (cd_intervals c) \<le> 1
     \<and> (cd_unmounted c \<longrightarrow> cd_timeouts c = [] \<and> cd_intervals c = [])"

lemma filter_at_most_one: "length xs \<le> 1 \<Longrightarrow> length (filter p xs) \<le> 1" "length xs \<le> 1 \<Longrightarrow> length (removeAll x xs) \<le> 1"
  using length_filter_le [of p xs] length_removeAll_less_eq [of x xs] by linarith+

lemma countdown_ok_cleanup:
  assumes "countdown_ok c"
  shows "cd_timeouts (run_cleanup c) = []" "cd_intervals (run_cleanup c) = []" "cd_unmounted (run_cleanup c) = cd_unmounted c"
    "cd_leaves (run_cleanup c) = cd_leaves c" "timeRemaining (run_cleanup c) = timeRemaining c"
proof -
  have ts: "set (cd_timeouts c) \<subseteq> {t. cd_cleanup c = ClearTimeout t}" "set (cd_intervals c) \<subseteq> {x. cd_cleanup c = ClearInterval (fst x)}"
    using assms by (auto simp: countdown_ok_def)
  show "cd_timeouts (run_cleanup c) = []"
    using ts(1) by (cases "cd_timeouts c") (auto simp: run_cleanup_def removeAll_filter_not_eq filter_empty_conv split: cleanup.split)
  show "cd_intervals (run_cleanup c) = []"
    using ts(2) by (cases "cd_intervals c") (auto simp: run_cleanup_def filter_empty_conv split: cleanup.split)
qed (simp_all add: run_cleanup_def split: cleanup.split)

lemma countdown_ok_step: "countdown_ok c \<Longrightarrow> countdown_ok (countdown_step c e)"
proof (cases e)
  case (Rendered x now)
  assume "countdown_ok c"
  with Rendered countdown_ok_cleanup [OF this] show ?thesis
    by (auto simp: countdown_effect_def Let_def countdown_ok_def split: option.split)
next
  case (TimeoutFires t)
  assume "countdown_ok c"
  with TimeoutFires show ?thesis
    by (cases "cd_timeouts c") (auto simp: countdown_timeout_def countdown_ok_def)
next
  case (IntervalTicks t now)
  assume "countdown_ok c"
  with IntervalTicks show ?thesis
    by (cases "cd_intervals c") (auto simp: countdown_tick_def countdown_ok_def Let_def split: option.split)
next
  case ViewGone
  assume "countdown_ok c"
  with ViewGone countdown_ok_cleanup [OF this] show ?thesis by (auto simp: countdown_ok_def)
qed

interpretation countdown: event_machine countdown_step countdown_ok
  by unfold_locales (rule countdown_ok_step)

lemma countdown_ok_run: "countdown_ok (countdown_run new_countdown es)"
  by (rule countdown.inv_run) (simp add: countdown_ok_def new_countdown_def)

text \<open>
  In an expiring room the countdown leaves the room once: after a render before the expiry,
  and ticks before it, the first tick at or after it calls \<open>onLeave\<close> and stops the interval.
\<close>

lemma countdown_ticks_before:
  "map_of (cd_intervals c) t = Some e \<Longrightarrow> \<forall>n\<in>set ns. n < e \<Longrightarrow>
     map_of (cd_intervals (countdown_run c (map (IntervalTicks t) ns))) t = Some e
     \<and> cd_intervals (countdown_run c (map (IntervalTicks t) ns)) = cd_intervals c
     \<and> cd_leaves (countdown_run c (map (IntervalTicks t) ns)) = cd_leaves c"
proof (induction ns arbitrary: c)
  case (Cons n ns)
  then show ?case using Cons.IH [of "countdown_tick t n c"] by (simp add: countdown_tick_def Let_def)
qed simp

lemma expired_room_is_left:
  assumes "countdown_ok c" "\<not> cd_unmounted c" "now < e" "\<forall>n\<in>set ns. n < e" "e \<le> end_time"
  defines "d \<equiv> countdown_run c (Rendered (Some e) now # map (IntervalTicks (cd_next c)) ns @ [IntervalTicks (cd_next c) end_time])"
  shows "cd_leaves d = Suc (cd_leaves c) \<and> cd_intervals d = [] \<and> timeRemaining d = Some (e - end_time)"
proof -
  let ?c = "countdown_effect (Some e) now c"
  note clean = countdown_ok_cleanup [OF assms(1)]
  have next_id: "cd_next (run_cleanup c) = cd_next c" by (simp add: run_cleanup_def split: cleanup.split)
  have c: "cd_intervals ?c = [(cd_next c, e)]" "cd_leaves ?c = cd_leaves c"
    using assms(3) clean by (simp_all add: countdown_effect_def Let_def next_id)
  let ?d = "countdown_run ?c (map (IntervalTicks (cd_next c)) ns)"
  have d: "cd_intervals ?d = [(cd_next c, e)]" "cd_leaves ?d = cd_leaves c"
    using countdown_ticks_before [of ?c "cd_next c" e ns] assms(4) c by auto
  have "d = countdown_tick (cd_next c) end_time ?d" using assms(2) by (simp add: d_def)
  with d assms(5) show ?thesis by (simp add: countdown_tick_def Let_def)
qed

text \<open>
  A render of a room that has already expired throws instead: the room is not left, and the
  tree is gone.
\<close>

lemma expired_render_throws:
  assumes "countdown_ok c" "\<not> cd_unmounted c" "e \<le> now"
  shows "cd_unmounted (countdown_step c (Rendered (Some e) now)) \<and> cd_leaves (countdown_step c (Rendered (Some e) now)) = cd_leaves c"
  using assms(2,3) countdown_ok_cleanup [OF assms(1)] by (simp add: countdown_effect_def Let_def)

section \<open>Drawing\<close>

datatype canvas_op = BeginPath | MoveTo real real | LineTo real real | StrokePath | ClearRect

record sketch =
  drawing :: bool
  canvas_ops :: "canvas_op list"

text \<open>\<open>getPos\<close>: the mouse or the first touch, relative to the canvas at \<open>(left, top)\<close>.\<close>

definition getPos :: "real \<times> real \<Rightarrow> real \<times> real \<Rightarrow> real \<times> real" where
  "getPos corner pos = (fst pos - fst corner, snd pos - snd corner)"

definition sketch_start :: "real \<times> real \<Rightarrow> sketch \<Rightarrow> sketch" where
  "sketch_start p s = s\<lparr>drawing := True, canvas_ops := canvas_ops s @ [BeginPath, MoveTo (fst p) (snd p)]\<rparr>"

definition sketch_move :: "real \<times> real \<Rightarrow> sketch \<Rightarrow> sketch" where
  "sketch_move p s =
     (if \<not> drawing s then s else s\<lparr>canvas_ops := canvas_ops s @ [LineTo (fst p) (snd p), StrokePath]\<rparr>)"

definition sketch_stop :: "sketch \<Rightarrow> sketch" where
  "sketch_stop s = s\<lparr>drawing := False\<rparr>"

datatype pointer_event = PointerDown "real \<times> real" | PointerMove "real \<times> real" | PointerUp

fun sketch_step :: "real \<times> real \<Rightarrow> sketch \<Rightarrow> pointer_event \<Rightarrow> sketch" where
  "sketch_step corner s (PointerDown p) = sketch_start (getPos corner p) s"
| "sketch_step corner s (PointerMove p) = sketch_move (getPos corner p) s"
| "sketch_step corner s PointerUp = sketch_stop s"

text \<open>Nothing is drawn before a pointer has gone down, so every line has a start.\<close>

definition sketch_ok :: "sketch \<Rightarrow> bool" where
  "sketch_ok s \<longleftrightarrow> (canvas_ops s = [] \<longrightarrow> \<not> drawing s) \<and> (canvas_ops s \<noteq> [] \<longrightarrow> (\<exists>x y. take 2 (canvas_ops s) = [BeginPath, MoveTo x y]))"

interpretation sketching: event_machine "sketch_step corner" sketch_ok for corner
proof unfold_locales
  fix s e
  assume "sketch_ok s"
  moreover have "take 2 (xs @ ys) = take 2 xs" if "take 2 xs = [a, b]" for xs ys :: "canvas_op list" and a b
    using that by (cases xs; cases "tl xs") (auto simp: numeral_2_eq_2)
  ultimately show "sketch_ok (sketch_step corner s e)"
    by (cases e; cases "canvas_ops s = []")
      (fastforce simp: sketch_ok_def sketch_start_def sketch_move_def sketch_stop_def numeral_2_eq_2)+
qed

section \<open>The audio meter\<close>

text \<open>The bars that \<open>draw\<close> fills, as left edge, upper edge, width and height.\<close>

definition meter_bars :: "8 word list \<Rightarrow> real \<Rightarrow> real \<Rightarrow> (real \<times> real \<times> real \<times> real) list" where
  "meter_bars dataArray w h =
     (let barCount = min (length dataArray) 64;
          barWidth = w / real barCount
      in map (\<lambda>i. let barHeight = real (unat (dataArray ! i)) / 255 * h
                  in (real i * barWidth, h - barHeight, barWidth - 1, barHeight)) [0..<barCount])"

lemma meter_bars_inside:
  assumes "0 \<le> w" "0 \<le> h" "(x, y, bw, bh) \<in> set (meter_bars dataArray w h)"
  shows "0 \<le> x \<and> x + bw \<le> w \<and> 0 \<le> y \<and> y + bh = h"
proof -
  let ?n = "min (length dataArray) 64"
  obtain i where i: "i < ?n" and x: "x = real i * (w / real ?n)" and bw: "bw = w / real ?n - 1"
    and bh: "bh = real (unat (dataArray ! i)) / 255 * h" and y: "y = h - bh"
    using assms(3) by (auto simp: meter_bars_def Let_def)
  have "real (Suc i) * (w / real ?n) \<le> real ?n * (w / real ?n)"
    by (rule mult_right_mono) (use i assms(1) in auto)
  moreover have "real (Suc i) * (w / real ?n) = x + (bw + 1)" by (simp add: x bw distrib_right add_divide_distrib)
  moreover have "real ?n * (w / real ?n) = w" using i by (cases "?n = 0") auto
  ultimately have right: "x + bw \<le> w" by linarith
  have "unat (dataArray ! i) < 256" using unsigned_less [of "dataArray ! i", where 'a = nat] by simp
  then have "real (unat (dataArray ! i)) / 255 * h \<le> 1 * h"
    using assms(2) by (intro mult_right_mono) linarith+
  then show ?thesis using assms(1,2) right by (simp add: x y bh)
qed

end
