(* ===== verification/Widgets.thy ===== *)
theory Widgets
  imports View App
begin

text \<open>
  The parts of the views that have a state or a computation of their own: the passphrase field of
  the join form, the visibility and the listeners of the canvas, the life of the audio meter, the
  progress bars, and what the chat view offers for a room, a call and a link.
\<close>

section \<open>The passphrase field\<close>

text \<open>
  \<open>PassphraseToggle\<close>: whether the field is shown is its own state, new with each mount of the
  form; the passphrase is the application's.
\<close>

datatype toggle_event = FormMounted | AddPassphrase | TypePassphrase string | RemovePassphrase

fun passphrase_toggle :: "bool \<times> string \<Rightarrow> toggle_event \<Rightarrow> bool \<times> string" where
  "passphrase_toggle (showField, passphrase) FormMounted = (False, passphrase)"
| "passphrase_toggle (showField, passphrase) AddPassphrase = (True, passphrase)"
| "passphrase_toggle (showField, passphrase) (TypePassphrase text) = (showField, if showField then text else passphrase)"
| "passphrase_toggle (showField, passphrase) RemovePassphrase = (if showField then (False, []) else (False, passphrase))"

text \<open>While one form is open, a field that is not shown is empty.\<close>

lemma hidden_field_is_empty:
  assumes "FormMounted \<notin> set es" "\<not> fst s \<longrightarrow> snd s = []"
  shows "\<not> fst (foldl passphrase_toggle s es) \<longrightarrow> snd (foldl passphrase_toggle s es) = []"
  using assms
proof (induction es arbitrary: s)
  case (Cons e es)
  obtain b p where s: "s = (b, p)" by (cases s)
  have "\<not> fst (passphrase_toggle s e) \<longrightarrow> snd (passphrase_toggle s e) = []"
    using Cons.prems by (cases e) (auto simp: s)
  with Cons show ?case by simp
qed simp

text \<open>A form that is opened again hides the passphrase that was typed into the one before.\<close>

lemma reopened_form_hides_passphrase:
  "foldl passphrase_toggle (False, []) [FormMounted, AddPassphrase, TypePassphrase ''pw'', FormMounted] = (False, ''pw'')"
  by simp

text \<open>The options of the room's expiry, in seconds.\<close>

definition ttl_options :: "int list" where
  "ttl_options = [0, 900, 3600, 14400, 86400]"

section \<open>The canvas\<close>

text \<open>
  The element exists while the canvas is visible. The effect of \<open>useCanvasDrawing\<close> attaches the
  listeners to \<open>canvasRef.current\<close>; its dependencies never change, so it runs once, when the chat
  view has been mounted.
\<close>

record canvas_view =
  cv_visible :: bool
  cv_element :: "nat option"
  cv_next :: nat
  cv_listening :: "nat list"
  cv_sketch :: sketch

definition blank :: sketch where
  "blank = \<lparr>drawing = False, canvas_ops = []\<rparr>"

definition canvas_effect :: "canvas_view \<Rightarrow> canvas_view" where
  "canvas_effect v = (case cv_element v of None \<Rightarrow> v | Some el \<Rightarrow> v\<lparr>cv_listening := cv_listening v @ [el]\<rparr>)"

definition mount_chat :: canvas_view where
  "mount_chat =
     canvas_effect \<lparr>cv_visible = False, cv_element = None, cv_next = 0, cv_listening = [], cv_sketch = blank\<rparr>"

definition canvas_toggle :: "canvas_view \<Rightarrow> canvas_view" where
  "canvas_toggle v =
     (if cv_visible v then v\<lparr>cv_visible := False, cv_element := None\<rparr>
      else v\<lparr>cv_visible := True, cv_element := Some (cv_next v), cv_next := Suc (cv_next v), cv_sketch := blank\<rparr>)"

definition clearCanvas :: "canvas_view \<Rightarrow> canvas_view" where
  "clearCanvas v =
     (case cv_element v of
        None \<Rightarrow> v
      | Some el \<Rightarrow> v\<lparr>cv_sketch := (cv_sketch v)\<lparr>canvas_ops := canvas_ops (cv_sketch v) @ [ClearRect]\<rparr>\<rparr>)"

text \<open>An event of the pointer on the element reaches the listeners that were attached to it.\<close>

definition canvas_pointer :: "real \<times> real \<Rightarrow> pointer_event \<Rightarrow> canvas_view \<Rightarrow> canvas_view" where
  "canvas_pointer corner e v =
     (case cv_element v of
        None \<Rightarrow> v
      | Some el \<Rightarrow> if el \<in> set (cv_listening v) then v\<lparr>cv_sketch := sketch_step corner (cv_sketch v) e\<rparr> else v)"

datatype canvas_event = ToggleCanvas | ClearCanvas | Pointer "real \<times> real" pointer_event

fun canvas_step :: "canvas_view \<Rightarrow> canvas_event \<Rightarrow> canvas_view" where
  "canvas_step v ToggleCanvas = canvas_toggle v"
| "canvas_step v ClearCanvas = clearCanvas v"
| "canvas_step v (Pointer corner e) = canvas_pointer corner e v"

definition never_drawn :: "canvas_view \<Rightarrow> bool" where
  "never_drawn v \<longleftrightarrow> cv_listening v = [] \<and> set (canvas_ops (cv_sketch v)) \<subseteq> {ClearRect}"

interpretation canvas: event_machine canvas_step never_drawn
proof unfold_locales
  fix v e
  assume "never_drawn v"
  then show "never_drawn (canvas_step v e)"
    by (cases e) (auto simp: never_drawn_def canvas_toggle_def clearCanvas_def canvas_pointer_def blank_def split: option.splits)
qed

text \<open>
  At the first commit there is no canvas yet, so the listeners are never attached: whatever the
  user does, no line is ever drawn, and a shared canvas is blank.
\<close>

lemma canvas_stays_blank: "set (canvas_ops (cv_sketch (foldl canvas_step mount_chat es))) \<subseteq> {ClearRect}"
proof -
  have "never_drawn mount_chat" by (simp add: never_drawn_def mount_chat_def canvas_effect_def blank_def)
  then have "never_drawn (foldl canvas_step mount_chat es)" by (rule canvas.inv_run)
  then show ?thesis by (simp add: never_drawn_def)
qed

section \<open>The life of the audio meter\<close>

text \<open>
  The audio contexts that were made (\<open>True\<close> while one is open), the one whose effect is to be
  cleaned up, and the contexts with an animation frame requested.
\<close>

record meter =
  mt_contexts :: "bool list"
  mt_effect :: "nat option"
  mt_frames :: "nat list"

definition new_meter :: meter where
  "new_meter = \<lparr>mt_contexts = [], mt_effect = None, mt_frames = []\<rparr>"

definition meter_cleanup :: "meter \<Rightarrow> meter" where
  "meter_cleanup m =
     (case mt_effect m of
        None \<Rightarrow> m
      | Some k \<Rightarrow>
          m\<lparr>mt_contexts := (mt_contexts m)[k := False], mt_frames := removeAll k (mt_frames m), mt_effect := None\<rparr>)"

text \<open>
  The effect of a new stream, after the cleanup of the last one. \<open>made\<close> tells whether the
  browser gives an \<open>AudioContext\<close>, \<open>canvas\<close> whether the canvas is mounted.
\<close>

definition meter_effect :: "bool \<Rightarrow> bool \<Rightarrow> bool \<Rightarrow> meter \<Rightarrow> meter" where
  "meter_effect stream made canvas m =
     (let m1 = meter_cleanup m in
      if \<not> stream \<or> \<not> made then m1
      else let k = length (mt_contexts m1);
               m2 = m1\<lparr>mt_contexts := mt_contexts m1 @ [True]\<rparr>
           in if \<not> canvas then m2 else m2\<lparr>mt_effect := Some k, mt_frames := mt_frames m2 @ [k]\<rparr>)"

text \<open>A frame is drawn; \<open>draw\<close> requests the next one first.\<close>

definition meter_frame :: "nat \<Rightarrow> meter \<Rightarrow> meter" where
  "meter_frame k m = (if k \<in> set (mt_frames m) then m\<lparr>mt_frames := removeAll k (mt_frames m) @ [k]\<rparr> else m)"

datatype meter_event = StreamSet bool bool | FrameDue nat | MeterUnmounted

text \<open>The canvas is rendered whenever the meter is.\<close>

fun meter_step :: "meter \<Rightarrow> meter_event \<Rightarrow> meter" where
  "meter_step m (StreamSet stream made) = meter_effect stream made True m"
| "meter_step m (FrameDue k) = meter_frame k m"
| "meter_step m MeterUnmounted = meter_cleanup m"

definition meter_ok :: "meter \<Rightarrow> bool" where
  "meter_ok m \<longleftrightarrow>
     (\<forall>k<length (mt_contexts m). mt_contexts m ! k \<longrightarrow> mt_effect m = Some k)
     \<and> (\<forall>k\<in>set (mt_frames m). mt_effect m = Some k)
     \<and> (\<forall>k. mt_effect m = Some k \<longrightarrow> k < length (mt_contexts m))"

lemma meter_ok_cleanup:
  "meter_ok m \<Longrightarrow> True \<notin> set (mt_contexts (meter_cleanup m)) \<and> mt_frames (meter_cleanup m) = [] \<and> mt_effect (meter_cleanup m) = None"
proof -
  assume m: "meter_ok m"
  show ?thesis
  proof (cases "mt_effect m")
    case None
    with m show ?thesis by (auto simp: meter_ok_def meter_cleanup_def in_set_conv_nth)
  next
    case (Some k)
    with m have "\<forall>x\<in>set (mt_frames m). x = k" by (auto simp: meter_ok_def)
    then have "removeAll k (mt_frames m) = []" by (simp add: removeAll_filter_not_eq filter_empty_conv)
    moreover have "\<not> ((mt_contexts m)[k := False]) ! i" if "i < length (mt_contexts m)" for i
      using m Some that by (cases "i = k") (auto simp: meter_ok_def)
    ultimately show ?thesis using Some by (auto simp: meter_cleanup_def in_set_conv_nth)
  qed
qed

lemma meter_ok_step: "meter_ok m \<Longrightarrow> meter_ok (meter_step m e)"
proof (cases e)
  case (StreamSet stream made)
  assume m: "meter_ok m"
  have "\<not> mt_contexts (meter_cleanup m) ! k" if "k < length (mt_contexts (meter_cleanup m))" for k
    using meter_ok_cleanup [OF m] nth_mem [OF that] by auto
  with meter_ok_cleanup [OF m] StreamSet show ?thesis
    by (auto simp: meter_effect_def meter_ok_def Let_def nth_append less_Suc_eq)
next
  case MeterUnmounted
  assume m: "meter_ok m"
  have "\<not> mt_contexts (meter_cleanup m) ! k" if "k < length (mt_contexts (meter_cleanup m))" for k
    using meter_ok_cleanup [OF m] nth_mem [OF that] by auto
  with meter_ok_cleanup [OF m] MeterUnmounted show ?thesis by (auto simp: meter_ok_def)
next
  case (FrameDue k)
  assume m: "meter_ok m"
  have eqs: "set (mt_frames (meter_frame k m)) = set (mt_frames m)" "mt_contexts (meter_frame k m) = mt_contexts m"
    "mt_effect (meter_frame k m) = mt_effect m"
    by (auto simp: meter_frame_def)
  show ?thesis using m unfolding FrameDue meter_step.simps meter_ok_def eqs .
qed

interpretation metering: event_machine meter_step meter_ok
  by unfold_locales (rule meter_ok_step)

text \<open>At most one audio context is open, and once the meter is gone neither a context nor a frame is left.\<close>

lemma meter_releases_audio:
  defines "m \<equiv> \<lambda>es. foldl meter_step new_meter es"
  shows "length (filter id (mt_contexts (m es))) \<le> 1"
    "True \<notin> set (mt_contexts (m (es @ [MeterUnmounted]))) \<and> mt_frames (m (es @ [MeterUnmounted])) = []"
proof -
  have ok: "meter_ok (m es)" unfolding m_def by (rule metering.inv_run) (simp add: meter_ok_def new_meter_def)
  then show "True \<notin> set (mt_contexts (m (es @ [MeterUnmounted]))) \<and> mt_frames (m (es @ [MeterUnmounted])) = []"
    using meter_ok_cleanup [OF ok] by (simp add: m_def)
  have "card {k. k < length (mt_contexts (m es)) \<and> mt_contexts (m es) ! k} \<le> card {k. mt_effect (m es) = Some k}"
  proof (rule card_mono)
    show "finite {k. mt_effect (m es) = Some k}" by (cases "mt_effect (m es)") simp_all
    show "{k. k < length (mt_contexts (m es)) \<and> mt_contexts (m es) ! k} \<subseteq> {k. mt_effect (m es) = Some k}"
      using ok unfolding meter_ok_def by blast
  qed
  moreover have "card {k. mt_effect (m es) = Some k} \<le> 1" by (cases "mt_effect (m es)") simp_all
  ultimately show "length (filter id (mt_contexts (m es))) \<le> 1" by (simp add: length_filter_conv_card)
qed

text \<open>The backing store follows the size of the canvas on the screen; setting it resets the scale.\<close>

definition js_round :: "real \<Rightarrow> int" where
  "js_round x = \<lfloor>x + 1 / 2\<rfloor>"

definition meter_resize :: "real \<times> real \<Rightarrow> real \<Rightarrow> int \<times> int \<Rightarrow> (int \<times> int) \<times> bool" where
  "meter_resize rect ratio store =
     (let dpr = (if ratio = 0 then 1 else ratio);
          display = (js_round (fst rect * dpr), js_round (snd rect * dpr))
      in (display, store \<noteq> display))"

lemma meter_resize_settles: "snd (meter_resize rect ratio (fst (meter_resize rect ratio store))) = False"
  by (simp add: meter_resize_def Let_def)

section \<open>Progress\<close>

text \<open>The width of a progress bar in percent, and the text beside it.\<close>

definition progress_width :: "nat \<times> nat \<Rightarrow> real" where
  "progress_width p = real (fst p) / real (snd p) * 100"

definition upload_text :: "nat \<times> nat \<Rightarrow> string" where
  "upload_text p = ''sending '' @ show_nat (fst p) @ ''/'' @ show_nat (snd p) @ '' chunks''"

text \<open>The number of chunks of a download is whatever the peer said.\<close>

definition download_text :: "json \<times> nat \<times> json \<Rightarrow> string" where
  "download_text p = (case p of (_, received, tot) \<Rightarrow> ''receiving '' @ show_nat received @ ''/'' @ js_to_string tot @ '' chunks'')"

text \<open>Progress never goes beyond the number of chunks, of which there is at least one.\<close>

definition bar_ok :: "nat \<times> nat \<Rightarrow> bool" where
  "bar_ok p \<longleftrightarrow> fst p \<le> snd p \<and> 0 < snd p"

lemma bar_width: "bar_ok p \<Longrightarrow> 0 \<le> progress_width p \<and> progress_width p \<le> 100"
  by (auto simp: bar_ok_def progress_width_def divide_le_eq)

lemma send_loop_bars:
  "sq + n = tot \<Longrightarrow> p \<in> set (fst (snd (send_loop P ivs key tid mime f tot sq n))) \<Longrightarrow> bar_ok p"
proof (induction n arbitrary: sq)
  case (Suc n)
  then show ?case using Suc.IH [of "Suc sq"] by (auto simp: Let_def bar_ok_def split: sum.splits prod.splits)
qed simp

lemma sendMedia_bars: "p \<in> set (fst (snd (sendMedia P ivs tid toMB key f))) \<Longrightarrow> bar_ok p"
  using send_loop_bars [of 0 "chunk_count (length (file_bytes f))" "chunk_count (length (file_bytes f))" p P ivs key tid
      "detectMimeType (file_type f) (file_bytes f)" f]
  by (auto simp: sendMedia_def Let_def split: if_splits prod.splits option.splits)

definition upload_bars_ok :: "'k media_hook \<Rightarrow> bool" where
  "upload_bars_ok h \<longleftrightarrow>
     (\<forall>p. uploadProgress h = Some p \<longrightarrow> bar_ok p) \<and> (\<forall>u\<in>set (uploads h). \<forall>x\<in>set (up_todo u). bar_ok (snd x))"

lemma upload_bars_start:
  "upload_bars_ok h \<Longrightarrow> \<forall>p\<in>set (fst (snd s)). bar_ok p \<Longrightarrow> upload_bars_ok (start_upload room s url sz failure h)"
proof -
  assume h: "upload_bars_ok h" and s: "\<forall>p\<in>set (fst (snd s)). bar_ok p"
  obtain ps prs r where eq: "s = (ps, prs, r)" by (cases s)
  have "bar_ok (snd x)" if "x \<in> set (zip ps prs)" for x
    using s that by (cases x) (auto simp: eq dest: set_zip_rightD)
  moreover have "bar_ok (0, 1)" by (simp add: bar_ok_def)
  ultimately show ?thesis using h unfolding upload_bars_ok_def start_upload_def by (auto simp: eq)
qed

lemma upload_bars_step: "upload_bars_ok h \<Longrightarrow> upload_bars_ok (upload_step j uuid h)"
proof (cases "j < length (uploads h)")
  case True
  assume h: "upload_bars_ok h"
  have mem: "uploads h ! j \<in> set (uploads h)" using True by simp
  show ?thesis
  proof (cases "up_todo (uploads h ! j)")
    case Nil
    have "set (drop_nth j (uploads h)) \<subseteq> set (uploads h)" by (auto simp: drop_nth_def dest: in_set_takeD in_set_dropD)
    with h True Nil show ?thesis by (auto simp: upload_step_def Let_def upload_bars_ok_def append_media_def)
  next
    case (Cons x todo)
    then have todo: "\<forall>y\<in>set (x # todo). bar_ok (snd y)" using h mem unfolding upload_bars_ok_def by metis
    have "\<forall>y\<in>set (up_todo u). bar_ok (snd y)" if "u \<in> set ((uploads h)[j := (uploads h ! j)\<lparr>up_todo := todo\<rparr>])" for u
    proof -
      from that have "u = (uploads h ! j)\<lparr>up_todo := todo\<rparr> \<or> u \<in> set (uploads h)" using set_update_subset_insert by fastforce
      then show ?thesis using todo h by (auto simp: upload_bars_ok_def)
    qed
    with todo True Cons show ?thesis by (cases x) (simp add: upload_step_def Let_def upload_bars_ok_def)
  qed
qed (simp add: upload_step_def)

lemma upload_bars_hook: "upload_bars_ok h \<Longrightarrow> upload_bars_ok (media_hook_step P h e)"
proof (induction P h e rule: media_hook_step.induct)
  case (7 P h ivs tid toMB room url key sel)
  then show ?case by (auto simp: handleFileSelect_def sendMedia_bars intro!: upload_bars_start split: option.split)
next
  case (8 P h ivs tid toMB room url key now canvas)
  then show ?case
    by (auto simp: handleCanvasShare_def sendCanvas_def sendMedia_bars intro!: upload_bars_start split: option.split)
next
  case (9 P h j uuid)
  then show ?case by (simp add: upload_bars_step)
qed (auto simp: upload_bars_ok_def initAssembler_def destroyAssembler_def handleMediaChunk_frame chunk_resumes_frame
    stale_expires_def progress_expires_def resetProgress_def Let_def)

interpretation upload_bars: event_machine "media_hook_step P" upload_bars_ok for P
  by unfold_locales (rule upload_bars_hook)

lemma upload_bar_stays_inside:
  assumes "uploadProgress (media_hook_run P new_media_hook es) = Some p"
  shows "0 \<le> progress_width p \<and> progress_width p \<le> 100"
proof -
  have "upload_bars_ok (media_hook_run P new_media_hook es)"
    by (rule upload_bars.inv_run) (simp add: upload_bars_ok_def new_media_hook_def)
  with assms show ?thesis by (simp add: upload_bars_ok_def bar_width)
qed

text \<open>The size of a download in kilobytes, \<open>toFixed(1)\<close>; halves round up, since \<open>n / 1024\<close> is exact.\<close>

definition size_text :: "nat \<Rightarrow> string" where
  "size_text n = (let k = (10 * n + 512) div 1024 in show_nat (k div 10) @ ''.'' @ show_nat (k mod 10) @ ''KB'')"

section \<open>What the chat view offers\<close>

text \<open>The tabs: each room with whether it is the active one and its badge.\<close>

definition room_tabs :: "'k room_manager \<Rightarrow> (string \<times> bool \<times> nat option) list" where
  "room_tabs m = map (\<lambda>r. (r, r = activeRoom m, unread_badge m r)) (map_keys (rooms m))"

lemma active_tab_has_no_badge: "(r, True, b) \<in> set (room_tabs m) \<Longrightarrow> b = None"
  by (auto simp: room_tabs_def unread_badge_def split: option.splits)

lemma one_active_tab: "rooms_ok m \<Longrightarrow> length (filter (\<lambda>t. fst (snd t)) (room_tabs m)) \<le> 1"
proof -
  assume "rooms_ok m"
  then have "distinct (map_keys (rooms m))" by (simp add: rooms_ok_def map_ok_def)
  then have "length (filter (\<lambda>r. r = x) (map_keys (rooms m))) \<le> 1" for x
    by (simp add: distinct_length_filter card_le_Suc0_iff_eq)
  then show ?thesis by (simp add: room_tabs_def filter_map comp_def)
qed

text \<open>The page of the application: the join form, or the chat with its rooms and perhaps the modal form.\<close>

datatype page = JoinPage | ChatPage "string list" bool

definition app_page :: "'k app \<Rightarrow> page" where
  "app_page a = (if view (ap_rm a) = ''join'' then JoinPage else ChatPage (map_keys (rooms (ap_rm a))) (ap_joinModal a))"

lemma leaving_the_last_room_shows_the_form: "app_page (leave_last a) = JoinPage"
  by (simp add: app_page_def leave_last_def Let_def set_status_def set_active_def setActiveRoom_def on_rm_def)

text \<open>\<open>answer\<close> is what the user chooses when the browser asks.\<close>

definition requestNotificationPermission :: "string option \<Rightarrow> string \<Rightarrow> string" where
  "requestNotificationPermission permission answer =
     (case permission of
        None \<Rightarrow> ''unsupported''
      | Some p \<Rightarrow> if p = ''granted'' then ''granted'' else if p = ''denied'' then ''denied'' else answer)"

datatype call_control = VoiceCall | VideoCall | MuteButton bool | CameraButton bool | EndButton

definition start_controls :: "call \<Rightarrow> call_control list" where
  "start_controls c = (if callActive c then [] else [VoiceCall, VideoCall])"

definition overlay_controls :: "call \<Rightarrow> call_control list" where
  "overlay_controls c =
     (if \<not> callActive c then []
      else [MuteButton (callMuted c)] @ (if callType c = Some (JStr ''video'') then [CameraButton (callVideoOff c)] else [])
        @ [EndButton])"

text \<open>The videos of the peers; without any, the notice that others are awaited.\<close>

definition remote_videos :: "call \<Rightarrow> (string \<times> stream_id) list option" where
  "remote_videos c = (if callActive c \<and> remoteStreams c \<noteq> [] then Some (remoteStreams c) else None)"

text \<open>A call can be ended exactly when one is started, and it can be started only when none is.\<close>

lemma call_controls_state:
  "EndButton \<in> set (overlay_controls c) \<longleftrightarrow> callActive c" "VoiceCall \<in> set (start_controls c) \<longleftrightarrow> \<not> callActive c"
  "start_controls c = [] \<longleftrightarrow> overlay_controls c \<noteq> []"
  by (auto simp: start_controls_def overlay_controls_def)

text \<open>The share section: the link, the label of the copy button, and the QR code with its toggle.\<close>

definition share_section :: "room_state \<Rightarrow> (string \<times> string \<times> string option \<times> string option) option" where
  "share_section s =
     (if r_shareLink s = [] then None
      else Some (r_shareLink s, if r_copied s then ''copied!'' else ''copy'',
        if r_qrDataURL s = [] then None else Some (if r_showQR s then ''hide QR'' else ''show QR''),
        if r_showQR s \<and> r_qrDataURL s \<noteq> [] then Some (r_qrDataURL s) else None))"

definition message_class :: "chat_msg \<Rightarrow> string" where
  "message_class msg =
     ''message '' @ (if cm_own msg then ''own'' else []) @ '' '' @ (if cm_error msg then ''error'' else []) @ '' ''
     @ (if cm_queued msg then ''queued'' else [])"

end
