(* ===== verification/Spec2Isabelle.thy ===== *)
theory Spec2Isabelle
  imports Manager Worker Server Crypto MediaRoundtrip Client PeerChat Widgets
begin

text \<open>
  TrapChat: a verification development of the JavaScript of the program.

  \<^bold>\<open>The program.\<close> TrapChat is an anonymous, end-to-end encrypted chat. Browsers run the React
  application under \<^verbatim>\<open>src/apps/trapchat\<close>; they talk to a gateway over a WebSocket, and to each
  other over WebRTC when two of them share a room. Messages, files and rotated keys are encrypted
  in the browser; the gateway relays them. A worker under \<^verbatim>\<open>src/services/worker\<close> takes jobs over
  HTTP (splitting media, cleaning up rooms) and calls the gateway's HTTP interface. The gateway and
  the relay are Go and Rust programs: what they send is an input of this model, and nothing is
  assumed of it, except in the two round trips that follow a message from one browser to
  another: there the envelope that the gateway makes of a chat message (\<open>App.relayed\<close>) or of
  a signal (\<open>MeshHook.forwarded\<close>) is written down from \<^verbatim>\<open>src/services/gateway/cmd/gateway/main.go\<close>.

  \<^bold>\<open>How code became definitions.\<close> A class or hook is a record, a method a function that returns the
  updated record, an enumeration a datatype. A raise, a rejected promise or a status code is
  a value of a sum or option type. A JavaScript \<open>Map\<close> or \<open>Set\<close> is an association list in
  insertion order (\<open>Prelude\<close>); JSON values, truthiness, \<open>JSON.parse\<close> and
  \<open>JSON.stringify\<close> are in \<open>JsLang\<close>. A number of a JSON text is an integer or a decimal fraction and
  keeps the value of its literal; the rounding of doubles is modelled where it decides a result, in
  the sizes that the worker adds up (\<open>Doubles\<close>). Strings are UTF-8 byte strings, base64 and the text codec work
  on 8-bit words. An \<open>async\<close> function is cut at each \<open>await\<close>: what remains of it is data in the state, and
  an event of the step function resumes it, so every interleaving that the event loop allows
  is a run. Two places are coarser: a job of the worker is one function over an oracle that
  answers its requests, and a rotator that falls back to its previous key reads that key when the
  result arrives. Timers and intervals are live entries that an event may fire. Objects that several
  activations share (transfers, assemblers, peer connections, streams) live in heaps and are named
  by index. Random bytes, identifiers and the clock are arguments.

  \<^bold>\<open>Theories, and the files they model.\<close>
    \<^item> \<open>Prelude\<close>: maps, sets, slices; the interfaces \<open>ordered_store\<close>, \<open>event_machine\<close> (an
      invariant along a run), \<open>work_machine\<close> (work left bounds the uses) and
      \<open>balance_machine\<close> (what came in is accounted for). \<open>JsLang\<close>, \<open>JsonRoundtrip\<close>,
      \<open>TextCodec\<close>, \<open>Base64\<close>, \<open>Doubles\<close>: the language and its library.
    \<^item> \<open>JobQueue\<close> (\<^verbatim>\<open>queue.js\<close>), \<open>Manager\<close> (\<^verbatim>\<open>manager.js\<close>), \<open>Worker\<close> (\<^verbatim>\<open>worker.js\<close>),
      \<open>Server\<close> (\<^verbatim>\<open>index.js\<close>): the worker. The process holds the server, which owns the manager,
      which owns the queue.
    \<^item> \<open>Crypto\<close> (\<^verbatim>\<open>lib/crypto.js\<close>): encryption, key derivation, the key rotator.
    \<^item> \<open>MediaTypes\<close>, \<open>Media\<close>, \<open>MediaRoundtrip\<close> (\<^verbatim>\<open>lib/media.js\<close>): sender and assembler of media.
    \<^item> \<open>Client\<close> (\<^verbatim>\<open>socket/client.js\<close>): the WebSocket client; \<open>Wire\<close>: what it ever writes;
      \<open>Outgoing\<close>: what the data channels carry and the hooks hand to the client.
    \<^item> \<open>WebRTC\<close> (\<^verbatim>\<open>lib/webrtc.js\<close>): peer connections and the mesh of a room.
    \<^item> \<open>RoomManager\<close>, \<open>Calls\<close>, \<open>MeshHook\<close>, \<open>KeyRotation\<close>, \<open>Typing\<close>, \<open>MediaHook\<close>: the
      hooks \<^verbatim>\<open>useRoomManager\<close>, \<^verbatim>\<open>useCallManager\<close>, \<^verbatim>\<open>useWebRTCMesh\<close>, \<^verbatim>\<open>useKeyRotation\<close>,
      \<^verbatim>\<open>useTypingIndicator\<close> and \<^verbatim>\<open>useMediaTransfer\<close>.
    \<^item> \<open>App\<close> (\<^verbatim>\<open>App.jsx\<close>): the composition of the client and the hooks, its listeners and
      handlers. \<open>System\<close>: one step function for every event of user, network, peers and timers.
      \<open>Sealing\<close>: what leaves the browser over whole runs; \<open>PeerChat\<close>: chat between two browsers
      that share a data channel.
    \<^item> \<open>View\<close>, \<open>Widgets\<close> (\<^verbatim>\<open>components/*.jsx\<close>): what the views compute; the countdown, the
      passphrase field, the canvas, the audio meter, the progress bars and what is offered.

  \<^bold>\<open>How the parts interact.\<close> A hook records what it asks of others (signals, call messages, media
  chunks, chat lines) as output; App delivers the new output after each step
  (\<open>with_hook\<close>, \<open>with_call\<close>, \<open>with_keys\<close>, \<open>with_media\<close>), and hands the events the client emits to
  its listeners (\<open>with_client\<close>). The listeners are registered once, by the first join, and
  keep the room they were made in (\<open>ap_listener\<close>).

  \<^bold>\<open>What is shown.\<close>
    \<^item> Worker: every job is waiting, running, finished or dead-lettered, exactly once; a job
      runs at most three times and waits for its backoff; tables are bounded; a submission is taken
      whole or not at all; requests stay on the allowed gateway, callbacks on the allowed
      hosts; only the token authorizes; the pieces of a payload give it back.
    \<^item> Encryption: texts, bytes and media decrypt to what was encrypted; keys depend on room
      and passphrase; the previous key of a rotation is due to be erased. In every run of the
      whole application each chat message written for the gateway is a ciphertext under a
      key of its room (\<open>Sealing.chat_leaves_encrypted\<close>); so is all that goes over a data channel
      (\<open>Sealing.peers_receive_only_ciphertext\<close>), each chunk of a file
      (\<open>Sealing.files_leave_encrypted\<close>) under an active key, and each announced key
      (\<open>Sealing.new_keys_leave_encrypted\<close>) under a rotator's current key. A receiver with
      the key shows a message as written (\<open>App.chat_arrives_as_written\<close>), also one that comes over a
      data channel (\<open>PeerChat.peer_chat_arrives_as_written\<close>).
    \<^item> Transport: chat messages leave in order without loss across reconnections, up to the
      queue's cap; media arrive whole under every order and interleaving of the chunks;
      a disconnected client makes no connection of its own; memory is bounded.
    \<^item> Peers: ICE candidates wait for the remote description and each is accounted for; the connection of
      a removed peer sends and hands on nothing more; exactly one of two peers offers; signals
      of every kind arrive as sent.
    \<^item> Interface: object URLs are revoked exactly once, rooms keep their newest 500 messages, links
      carry the key, calls release their tracks, typing peers with a string as name expire, media are reported once; in every
      run the state of the application is well formed. The lemmas of \<open>View\<close> and \<open>Widgets\<close> show
      that an expiring room is left, that audio contexts are closed and that progress stays within its bar.
    \<^item> Lemmas whose name states a defect (\<open>hang_up_never_ends\<close>, \<open>crossing_rotations_swap_keys\<close>,
      \<open>share_link_cuts_key_at_slash\<close>, \<open>expired_render_throws\<close>, \<open>canvas_stays_blank\<close>,
      \<open>shutdown_abandons_the_running_job\<close>, \<open>fractional_chunks_are_uneven\<close>, \<open>numeric_nickname_stays\<close> and others) exhibit it on the model.

  \<^bold>\<open>Interfaces.\<close> The step functions are interpretations of the locales of \<open>Prelude\<close>; the queue gives the manager
  \<open>JobQueue.retry_queue\<close>; \<open>System.app_property\<close> proves once that the handlers keep a property that only new content
  can break, and is interpreted for well-formedness (\<open>well_formed\<close>) and for what leaves the
  browser (\<open>Sealing.sealing\<close>).

  \<^bold>\<open>Bounds and parameters.\<close> \<open>JSON.parse\<close> recurses on fuel, two units per character, which
  \<open>JsonRoundtrip\<close> shows to be enough for every printed value; no other definition has fuel. WebCrypto, WebRTC's argument checks,
  DNS, URL parsing and date parsing are record fields; what is used of them is stated as predicates
  (\<open>aes_gcm_correct\<close>, \<open>aes_gcm_authentic\<close>, \<open>raw_keys_correct\<close>), each satisfied by a concrete instance in
  the witnesses. Lengths count UTF-8 bytes where the code counts UTF-16 units, except for
  the body of a request (\<open>Server.utf16_length\<close>). Integers beyond \<open>2 ^ 53\<close> and decimals of more than
  fifteen digits stay exact where the code would print or compare a rounded double, and
  \<open>Infinity\<close> is left out.

  \<^bold>\<open>Not modelled.\<close> Markup and styles, the fixed texts of the join page, the scrolling effects
  of \<^verbatim>\<open>App.jsx\<close>, the drawing of QR codes, the logger, the entry point that mounts the application,
  the build configuration, and Go, Rust and the shared packages. They are output, configuration
  or another language; none of them changes the state that is modelled here.
\<close>

end
